(* ===== verification/Bank_Prelude.thy ===== *)
theory Bank_Prelude
  imports Main "HOL-Library.Word"
begin

text \<open>
  Shared vocabulary of the development: the C integer types at their widths, the ways a
  C function can stop (undefined behaviour or a call of \<open>exit\<close>), sequencing of
  results that may stop, the named collections of the component theories, and the
  generic lemmas on words, sums and lists that several of them use.
\<close>

section \<open>Integer types\<close>

type_synonym u8 = "8 word"
type_synonym u32 = "32 word"
type_synonym u64 = "64 word"

text \<open>The C type \<open>int\<close> and \<open>pid_t\<close> are 32 bits wide; \<open>sint\<close> reads them.\<close>

abbreviation INT_MAX :: int where "INT_MAX \<equiv> 2147483647"
abbreviation INT_MIN :: int where "INT_MIN \<equiv> - 2147483648"

section \<open>Results\<close>

text \<open>
  \<open>Undefined f\<close> is the point where the C code leaves defined behaviour, with the kind
  of fault; \<open>Exit n\<close> is a call of \<open>exit (n)\<close>. A result is either such a stop or a value.
\<close>

datatype fault = OutOfBounds | NullDeref | Dangling | BufferOverflow | Uninitialised | IntRange

datatype stop = Undefined fault | Exit int

type_synonym 'a res = "stop + 'a"

named_theorems res_simps \<open>sequencing of results\<close>

definition bind_res :: "'a res \<Rightarrow> ('a \<Rightarrow> 'b res) \<Rightarrow> 'b res" where
  "bind_res m f = (case m of Inl e \<Rightarrow> Inl e | Inr x \<Rightarrow> f x)"

lemma bind_res_Inl [simp, res_simps]: "bind_res (Inl e) f = Inl e"
  by (simp add: bind_res_def)

lemma bind_res_Inr [simp, res_simps]: "bind_res (Inr x) f = f x"
  by (simp add: bind_res_def)

lemma bind_res_eq_Inr: "bind_res m f = Inr y \<longleftrightarrow> (\<exists>x. m = Inr x \<and> f x = Inr y)"
  by (cases m) auto

lemma bind_res_eq_Inl:
  "bind_res m f = Inl e \<longleftrightarrow> m = Inl e \<or> (\<exists>x. m = Inr x \<and> f x = Inl e)"
  by (cases m) auto

lemma bind_res_InrE [elim]:
  assumes "bind_res m f = Inr y"
  obtains x where "m = Inr x" and "f x = Inr y"
  using assms by (auto simp: bind_res_eq_Inr)

lemma bind_res_assoc: "bind_res (bind_res m f) g = bind_res m (\<lambda>x. bind_res (f x) g)"
  by (cases m) simp_all

lemma bind_res_cong: "m = m' \<Longrightarrow> (\<And>x. m' = Inr x \<Longrightarrow> f x = g x) \<Longrightarrow> bind_res m f = bind_res m' g"
  by (cases m') simp_all

definition returns :: "'a res \<Rightarrow> bool" where
  "returns m \<longleftrightarrow> (case m of Inl _ \<Rightarrow> False | Inr _ \<Rightarrow> True)"

lemma returns_simps [simp, res_simps]: "\<not> returns (Inl e)" "returns (Inr x)"
  by (simp_all add: returns_def)

lemma returns_iff: "returns m \<longleftrightarrow> (\<exists>x. m = Inr x)"
  by (cases m) simp_all

section \<open>Words\<close>

lemma unat_sub_le: "y \<le> x \<Longrightarrow> unat (x - y) = unat x - unat y" for x y :: "'a::len word"
  by (rule unat_sub)

lemma unat_add_no_wrap:
  "unat x + unat y < 2 ^ LENGTH('a) \<Longrightarrow> unat (x + y) = unat x + unat y" for x y :: "'a::len word"
  by (simp add: unat_word_ariths)

lemma unat_ucast_u64 [simp]: "unat (ucast (x :: u32) :: u64) = unat x"
  by transfer simp

lemma unat_of_nat_u32: "n < 2 ^ 32 \<Longrightarrow> unat (of_nat n :: u32) = n"
  by (simp add: unat_of_nat)

lemma of_nat_u32_eq_0: "n < 2 ^ 32 \<Longrightarrow> (of_nat n :: u32) = 0 \<longleftrightarrow> n = 0"
  using unat_of_nat_u32 [of n] by auto

section \<open>Finite sums over the indices of an array\<close>

text \<open>Changing one cell of an array changes the sum by the difference at that cell.\<close>

lemma sum_fun_upd_in:
  fixes f :: "nat \<Rightarrow> nat"
  assumes "i < n"
  shows "(\<Sum>k<n. (f(i := v)) k) + f i = (\<Sum>k<n. f k) + v"
proof -
  have i: "i \<in> {..<n}" using assms by simp
  have "(\<Sum>k<n. (f(i := v)) k) = v + (\<Sum>k\<in>{..<n} - {i}. (f(i := v)) k)"
    by (subst sum.remove [OF _ i]) simp_all
  also have "(\<Sum>k\<in>{..<n} - {i}. (f(i := v)) k) = (\<Sum>k\<in>{..<n} - {i}. f k)"
    by (rule sum.cong) auto
  finally have "(\<Sum>k<n. (f(i := v)) k) = v + (\<Sum>k\<in>{..<n} - {i}. f k)" .
  moreover have "(\<Sum>k<n. f k) = f i + (\<Sum>k\<in>{..<n} - {i}. f k)"
    by (subst sum.remove [OF _ i]) simp_all
  ultimately show ?thesis by simp
qed

text \<open>The same for a sum over any finite set of threads, in any additive monoid.\<close>

lemma sum_change_at:
  fixes f g :: "'a \<Rightarrow> 'b::comm_monoid_add"
  assumes "finite A" and "i \<in> A" and "\<And>j. j \<noteq> i \<Longrightarrow> g j = f j"
  shows "sum g A + f i = sum f A + g i"
proof -
  have "sum g (A - {i}) = sum f (A - {i})" using assms(3) by (intro sum.cong) auto
  then show ?thesis
    using sum.remove [OF assms(1,2), of g] sum.remove [OF assms(1,2), of f] by (simp add: ac_simps)
qed

section \<open>Systems that keep an invariant\<close>

text \<open>
  A component whose labelled steps may stop: the run over a list of labels gives the state
  after every step. \<open>invariant_system\<close> is the contract "every step keeps the invariant";
  \<open>accounting_system\<close> adds a quantity that every step changes by a known gain.
\<close>

fun run_steps :: "('l \<Rightarrow> 's \<Rightarrow> 's res) \<Rightarrow> 'l list \<Rightarrow> 's \<Rightarrow> 's list res" where
  "run_steps step [] s = Inr []"
| "run_steps step (l # ls) s =
     bind_res (step l s) (\<lambda>s'. bind_res (run_steps step ls s') (\<lambda>ss. Inr (s' # ss)))"

locale invariant_system =
  fixes step :: "'l \<Rightarrow> 's \<Rightarrow> 's res"
    and inv :: "'s \<Rightarrow> bool"
  assumes step_inv: "inv s \<Longrightarrow> step l s = Inr s' \<Longrightarrow> inv s'"
begin

lemma run_inv: "inv s \<Longrightarrow> run_steps step ls s = Inr ss \<Longrightarrow> t \<in> set ss \<Longrightarrow> inv t"
proof (induction ls arbitrary: s ss)
  case (Cons l ls)
  then obtain s' ss' where "step l s = Inr s'" "run_steps step ls s' = Inr ss'" "ss = s' # ss'"
    by (auto simp: bind_res_eq_Inr)
  with Cons.prems Cons.IH [of s' ss'] show ?case by (auto dest: step_inv)
qed simp

lemma run_length: "run_steps step ls s = Inr ss \<Longrightarrow> length ss = length ls"
  by (induction ls arbitrary: s ss) (auto simp: bind_res_eq_Inr)

end

locale accounting_system = invariant_system step inv
  for step :: "'l \<Rightarrow> 's \<Rightarrow> 's res" and inv :: "'s \<Rightarrow> bool" +
  fixes amount :: "'s \<Rightarrow> nat"
    and gain :: "'l \<Rightarrow> 's \<Rightarrow> nat"
  assumes step_amount: "inv s \<Longrightarrow> step l s = Inr s' \<Longrightarrow> amount s' = amount s + gain l s'"
begin

lemma run_amount:
  "inv s \<Longrightarrow> run_steps step ls s = Inr ss \<Longrightarrow>
    amount (last (s # ss)) = amount s + (\<Sum>(l, t)\<leftarrow>zip ls ss. gain l t)"
proof (induction ls arbitrary: s ss)
  case (Cons l ls)
  then obtain s' ss' where s': "step l s = Inr s'" "run_steps step ls s' = Inr ss'" "ss = s' # ss'"
    by (auto simp: bind_res_eq_Inr)
  have "amount (last (s' # ss')) = amount s' + (\<Sum>(l, t)\<leftarrow>zip ls ss'. gain l t)"
    using Cons.prems s' by (intro Cons.IH) (auto dest: step_inv)
  with s' step_amount [OF Cons.prems(1) s'(1)] show ?case by simp
qed simp

end

section \<open>Transition systems\<close>

text \<open>
  A step relation labelled with events, the states it reaches, and the contract of an
  invariant. A guarded invariant holds as long as \<open>live\<close> does, a condition that a step can
  end but not bring back; a plain invariant is guarded by nothing.
\<close>

inductive reach :: "('s \<Rightarrow> bool) \<Rightarrow> ('s \<Rightarrow> 'e \<Rightarrow> 's \<Rightarrow> bool) \<Rightarrow> 's \<Rightarrow> bool" for initial step where
  reach_init: "initial s \<Longrightarrow> reach initial step s"
| reach_step: "reach initial step s \<Longrightarrow> step s e s' \<Longrightarrow> reach initial step s'"

lemma reach_mono: "reach I step s \<Longrightarrow> (\<And>s. I s \<Longrightarrow> J s) \<Longrightarrow> reach J step s"
  by (induction rule: reach.induct) (auto intro: reach.intros)

lemma reach_trans: "reach (\<lambda>s. s = t) step u \<Longrightarrow> reach I step t \<Longrightarrow> reach I step u"
  by (induction rule: reach.induct) (auto intro: reach.intros)

locale guarded_invariant =
  fixes initial :: "'s \<Rightarrow> bool"
    and step :: "'s \<Rightarrow> 'e \<Rightarrow> 's \<Rightarrow> bool"
    and live :: "'s \<Rightarrow> bool"
    and inv :: "'s \<Rightarrow> bool"
  assumes initial_inv: "initial s \<Longrightarrow> live s \<Longrightarrow> inv s"
    and live_before: "step s e s' \<Longrightarrow> live s' \<Longrightarrow> live s"
    and guarded_step: "step s e s' \<Longrightarrow> live s' \<Longrightarrow> inv s \<Longrightarrow> inv s'"
begin

lemma reach_guarded: "reach initial step s \<Longrightarrow> live s \<Longrightarrow> inv s"
  by (induction rule: reach.induct) (auto dest: initial_inv live_before guarded_step)

end

locale transition_invariant =
  fixes initial :: "'s \<Rightarrow> bool"
    and step :: "'s \<Rightarrow> 'e \<Rightarrow> 's \<Rightarrow> bool"
    and inv :: "'s \<Rightarrow> bool"
  assumes init_inv: "initial s \<Longrightarrow> inv s"
    and step_inv: "step s e s' \<Longrightarrow> inv s \<Longrightarrow> inv s'"

sublocale transition_invariant \<subseteq> unguarded: guarded_invariant initial step "\<lambda>_. True" inv
  by unfold_locales (auto intro: init_inv step_inv)

context transition_invariant
begin

lemma reach_inv: "reach initial step s \<Longrightarrow> inv s"
  using unguarded.reach_guarded by simp

end

end
