(* ===== verification/C_Library.thy ===== *)
theory C_Library
  imports Bank_Prelude
begin

text \<open>
  The part of the C standard library the program uses on strings and numbers: strings are
  the characters before the terminating NUL, a buffer of \<open>n\<close> bytes holds a string of fewer
  than \<open>n\<close> characters, and the calls that may overrun a buffer or leave the range of
  \<open>int\<close> return a result that may stop. Round trips between printing and parsing are here.
\<close>

named_theorems c_string_simps \<open>lengths and characters of the C string routines\<close>

section \<open>Strings and buffers\<close>

abbreviation NUL :: char where "NUL \<equiv> CHR 0x00"
abbreviation newline :: char where "newline \<equiv> CHR 0x0A"

text \<open>The C string stored in the bytes of an array.\<close>

definition cstr :: "string \<Rightarrow> string" where
  "cstr bytes = takeWhile (\<lambda>c. c \<noteq> NUL) bytes"

text \<open>A string that fits an array of \<open>n + 1\<close> bytes with its terminator.\<close>

definition c_string :: "nat \<Rightarrow> string \<Rightarrow> bool" where
  "c_string n s \<longleftrightarrow> length s \<le> n \<and> NUL \<notin> set s"

text \<open>\<open>strcpy\<close> into an array of \<open>n\<close> bytes, and \<open>strcat\<close> onto the string it holds.\<close>

definition strcpy :: "nat \<Rightarrow> string \<Rightarrow> string res" where
  "strcpy n s = (if length s < n then Inr s else Inl (Undefined BufferOverflow))"

definition strcat :: "nat \<Rightarrow> string \<Rightarrow> string \<Rightarrow> string res" where
  "strcat n dst s = strcpy n (dst @ s)"

lemma strcpy_eq_Inr: "strcpy n s = Inr t \<longleftrightarrow> length s < n \<and> t = s"
  by (auto simp: strcpy_def)

lemma strcpy_fits [simp, c_string_simps]: "length s < n \<Longrightarrow> strcpy n s = Inr s"
  by (simp add: strcpy_def)

lemma strcat_fits [c_string_simps]: "length dst + length s < n \<Longrightarrow> strcat n dst s = Inr (dst @ s)"
  by (simp add: strcat_def)

lemma cstr_id [c_string_simps]: "NUL \<notin> set s \<Longrightarrow> cstr s = s"
  by (auto simp: cstr_def)

lemma cstr_append_NUL: "NUL \<notin> set s \<Longrightarrow> cstr (s @ NUL # r) = s"
  by (auto simp: cstr_def takeWhile_append)

section \<open>strtok\<close>

text \<open>
  One call of \<open>strtok\<close> on the rest \<open>s\<close> of the string: delimiters are skipped, \<open>None\<close>
  (a null pointer) when nothing is left, otherwise the token and what the next call
  continues with (the delimiter that ends the token is overwritten and skipped).
\<close>

definition strtok :: "string \<Rightarrow> string \<Rightarrow> (string \<times> string) option" where
  "strtok delims s =
     (case dropWhile (\<lambda>c. c \<in> set delims) s of
        [] \<Rightarrow> None
      | t \<Rightarrow> Some (takeWhile (\<lambda>c. c \<notin> set delims) t,
                   drop 1 (dropWhile (\<lambda>c. c \<notin> set delims) t)))"

text \<open>
  The string seen through the start of the buffer after the first call: the leading
  delimiters stay, the delimiter after the token has become the terminator.
\<close>

definition strtok_buffer :: "string \<Rightarrow> string \<Rightarrow> string" where
  "strtok_buffer delims s =
     takeWhile (\<lambda>c. c \<in> set delims) s @
     takeWhile (\<lambda>c. c \<notin> set delims) (dropWhile (\<lambda>c. c \<in> set delims) s)"

lemma strtok_shorter: "strtok d s = Some (t, r) \<Longrightarrow> length r < length s"
proof -
  assume "strtok d s = Some (t, r)"
  then obtain c u where u: "dropWhile (\<lambda>c. c \<in> set d) s = c # u"
    and r: "r = drop 1 (dropWhile (\<lambda>c. c \<notin> set d) (c # u))"
    by (auto simp: strtok_def split: list.splits)
  have c: "c \<notin> set d" using u by (simp add: dropWhile_eq_Cons_conv)
  have "length r \<le> length u"
    using c r le_trans [OF diff_le_self length_dropWhile_le] by (simp add: length_dropWhile_le)
  also have "length u < length s"
    using length_dropWhile_le [of "\<lambda>c. c \<in> set d" s] u by simp
  finally show "length r < length s" .
qed

text \<open>A token followed by a delimiter, and a token that ends the string.\<close>

lemma strtok_token:
  assumes "t \<noteq> []" and "set t \<inter> set d = {}" and "c \<in> set d"
  shows "strtok d (t @ c # r) = Some (t, r)"
proof -
  obtain x u where t: "t = x # u" using assms(1) by (cases t) auto
  have "takeWhile (\<lambda>c. c \<notin> set d) (t @ c # r) = t" "dropWhile (\<lambda>c. c \<notin> set d) (t @ c # r) = c # r"
    using assms by (auto simp: takeWhile_append dropWhile_append)
  then show ?thesis using assms(2) t by (auto simp: strtok_def)
qed

lemma strtok_last:
  assumes "t \<noteq> []" and "set t \<inter> set d = {}"
  shows "strtok d t = Some (t, [])"
proof -
  obtain x u where t: "t = x # u" using assms(1) by (cases t) auto
  have "takeWhile (\<lambda>c. c \<notin> set d) u = u" and u: "dropWhile (\<lambda>c. c \<notin> set d) u = []"
    using assms t by auto
  then show ?thesis using assms(2) t by (simp add: strtok_def u del: dropWhile_eq_Nil_conv)
qed

lemma strtok_buffer_token:
  assumes "set t \<inter> set d = {}" and "c \<in> set d" and "t \<noteq> []"
  shows "strtok_buffer d (t @ c # r) = t"
proof -
  obtain x u where t: "t = x # u" using assms(3) by (cases t) auto
  have "takeWhile (\<lambda>c. c \<notin> set d) (t @ c # r) = t"
    using assms by (auto simp: takeWhile_append)
  then show ?thesis using assms(1) t by (auto simp: strtok_buffer_def)
qed

lemma strtok_buffer_le: "length (strtok_buffer d s) \<le> length s"
proof -
  have "length (strtok_buffer d s) \<le>
        length (takeWhile (\<lambda>c. c \<in> set d) s) + length (dropWhile (\<lambda>c. c \<in> set d) s)"
    by (simp add: strtok_buffer_def length_takeWhile_le)
  also have "\<dots> = length s"
    by (metis length_append takeWhile_dropWhile_id)
  finally show ?thesis .
qed

section \<open>fgets\<close>

text \<open>
  One call of \<open>fgets\<close> that may read \<open>n\<close> characters: it stops after a newline. The program
  reads the whole output of a command into one buffer, line after line, so the buffer
  ends up holding the last line; it stays uninitialised when there is no output.
\<close>

fun fgets_line :: "nat \<Rightarrow> string \<Rightarrow> string \<times> string" where
  "fgets_line 0 s = ([], s)"
| "fgets_line (Suc n) [] = ([], [])"
| "fgets_line (Suc n) (c # s) =
     (if c = newline then ([c], s)
      else let (l, r) = fgets_line n s in (c # l, r))"

lemma fgets_line_rest_le: "length (snd (fgets_line n s)) \<le> length s"
  by (induction n s rule: fgets_line.induct) (auto simp: Let_def split: prod.splits)

lemma fgets_line_shorter: "s \<noteq> [] \<Longrightarrow> length (snd (fgets_line (Suc n) s)) < length s"
  using fgets_line_rest_le [of n "tl s"] by (cases s) (auto split: prod.splits)

text \<open>
  \<open>while (fgets (buf, n + 2, f) != NULL);\<close> into an array of \<open>size\<close> bytes: the lines are read over
  each other, each with its terminator, and each has to fit.
\<close>

function read_lines :: "nat \<Rightarrow> nat \<Rightarrow> string option \<Rightarrow> string \<Rightarrow> string res" where
  "read_lines size_a n buf out =
     (if out = [] then (case buf of None \<Rightarrow> Inl (Undefined Uninitialised) | Some l \<Rightarrow> Inr (cstr l))
      else let (l, r) = fgets_line (Suc n) out in
        bind_res (strcpy size_a l) (\<lambda>l. read_lines size_a n (Some l) r))"
  by pat_completeness auto
termination
proof (relation "measure (\<lambda>(size_a, n, buf, out). length out)")
  fix size_a n :: nat and buf :: "string option" and out l r l' :: string and p
  assume "out \<noteq> []" and "p = fgets_line (Suc n) out" and "(l, r) = p"
  moreover from this have "r = snd (fgets_line (Suc n) out)" by (metis snd_conv)
  ultimately show "((size_a, n, Some l', r), size_a, n, buf, out) \<in> measure (\<lambda>(size_a, n, buf, out). length out)"
    using fgets_line_shorter [of out n] by simp
qed simp

declare read_lines.simps [simp del]

lemma fgets_line_one:
  "newline \<notin> set l \<Longrightarrow> length l < n \<Longrightarrow> fgets_line n (l @ newline # r) = (l @ [newline], r)"
proof (induction l arbitrary: n)
  case Nil
  then show ?case by (cases n) auto
next
  case (Cons c l)
  then show ?case by (cases n) auto
qed

lemma read_lines_one:
  assumes "newline \<notin> set l" and "NUL \<notin> set l" and "length l \<le> n"
  shows "read_lines size_a n buf (l @ [newline]) =
    (if Suc (length l) < size_a then Inr (l @ [newline]) else Inl (Undefined BufferOverflow))"
proof -
  have "fgets_line (Suc n) (l @ [newline]) = (l @ [newline], [])"
    using assms(1,3) by (intro fgets_line_one) simp_all
  moreover have "cstr (l @ [newline]) = l @ [newline]" using assms(2) by (intro cstr_id) simp
  ultimately show ?thesis
    by (simp add: read_lines.simps [of _ _ buf] read_lines.simps [of _ _ "Some _"] strcpy_def)
qed

lemma read_lines_faults:
  "read_lines size_a n buf out = Inl e \<Longrightarrow> e = Undefined BufferOverflow \<or> e = Undefined Uninitialised"
proof (induction size_a n buf out rule: read_lines.induct)
  case (1 size_a n buf out)
  show ?case
  proof (cases "out = []")
    case True
    then show ?thesis using 1(2) by (auto simp: read_lines.simps split: option.splits)
  next
    case False
    obtain l r where p: "fgets_line (Suc n) out = (l, r)" by fastforce
    have "strcpy size_a l = Inl (Undefined BufferOverflow) \<or> strcpy size_a l = Inr l" by (simp add: strcpy_def)
    then show ?thesis
      using 1(2) 1(1) [OF False p [symmetric] refl] False p by (auto simp: read_lines.simps [of size_a n buf out])
  qed
qed

lemma read_lines_in_bounds [simp]:
  "read_lines size_a n buf out \<noteq> Inl (Exit s)" "read_lines size_a n buf out \<noteq> Inl (Undefined OutOfBounds)"
  "Inl (Exit s) \<noteq> read_lines size_a n buf out" "Inl (Undefined OutOfBounds) \<noteq> read_lines size_a n buf out"
  using read_lines_faults [of size_a n buf out] by (auto dest: sym)

section \<open>Numbers\<close>

text \<open>Decimal digits of a number, as \<open>%u\<close> and \<open>%d\<close> print them.\<close>

definition digit_char :: "nat \<Rightarrow> char" where
  "digit_char d = char_of (48 + d)"

definition is_digit :: "char \<Rightarrow> bool" where
  "is_digit c \<longleftrightarrow> 48 \<le> (of_char c :: nat) \<and> (of_char c :: nat) \<le> 57"

definition digit_value :: "char \<Rightarrow> nat" where
  "digit_value c = of_char c - 48"

fun dec :: "nat \<Rightarrow> string" where
  "dec n = (if n < 10 then [digit_char n] else dec (n div 10) @ [digit_char (n mod 10)])"

declare dec.simps [simp del]

definition show_int :: "int \<Rightarrow> string" where
  "show_int i = (if i < 0 then CHR ''-'' # dec (nat (- i)) else dec (nat i))"

definition digits_value :: "string \<Rightarrow> nat" where
  "digits_value s = foldl (\<lambda>a c. 10 * a + digit_value c) 0 s"

definition is_space :: "char \<Rightarrow> bool" where
  "is_space c \<longleftrightarrow> c = CHR '' '' \<or> 9 \<le> (of_char c :: nat) \<and> (of_char c :: nat) \<le> 13"

text \<open>
  \<open>atoi\<close>: leading white space, an optional sign, the digits; 0 without digits. A value that
  \<open>int\<close> cannot hold is undefined behaviour.
\<close>

definition atoi :: "string \<Rightarrow> int res" where
  "atoi s =
     (let t = dropWhile is_space s;
          neg = (t \<noteq> [] \<and> hd t = CHR ''-'');
          signed = (t \<noteq> [] \<and> (hd t = CHR ''-'' \<or> hd t = CHR ''+''));
          v = int (digits_value (takeWhile is_digit (if signed then tl t else t)));
          i = (if neg then - v else v)
      in if INT_MIN \<le> i \<and> i \<le> INT_MAX then Inr i else Inl (Undefined IntRange))"

lemma digit_char_simps [simp]:
  assumes "d < 10"
  shows "is_digit (digit_char d)" "digit_value (digit_char d) = d"
    "\<not> is_space (digit_char d)" "digit_char d \<noteq> CHR ''-''" "digit_char d \<noteq> CHR ''+''"
    "digit_char d \<noteq> NUL" "digit_char d \<noteq> CHR '' ''" "digit_char d \<noteq> newline"
proof -
  have of: "(of_char (digit_char d) :: nat) = 48 + d"
    using assms by (simp add: digit_char_def)
  show "is_digit (digit_char d)" "digit_value (digit_char d) = d"
    using assms by (simp_all add: is_digit_def digit_value_def of)
  have ne: "digit_char d \<noteq> c" if "(of_char c :: nat) < 48" for c
    using that of by auto
  show "digit_char d \<noteq> CHR ''-''" "digit_char d \<noteq> CHR ''+''" "digit_char d \<noteq> NUL"
    "digit_char d \<noteq> newline" and sp: "digit_char d \<noteq> CHR '' ''"
    by (rule ne, simp)+
  show "\<not> is_space (digit_char d)" using sp by (simp add: is_space_def of)
qed

lemma dec_nonempty [simp]: "dec n \<noteq> []"
  by (subst dec.simps) simp

lemma dec_chars: "c \<in> set (dec n) \<Longrightarrow> \<exists>d < 10. c = digit_char d"
proof (induction n rule: dec.induct)
  case (1 n)
  show ?case
  proof (cases "n < 10")
    case True
    with 1 show ?thesis by (auto simp: dec.simps [of n])
  next
    case False
    with 1(2) have "c \<in> set (dec (n div 10)) \<or> c = digit_char (n mod 10)"
      by (auto simp: dec.simps [of n])
    moreover have "n mod 10 < 10" by simp
    ultimately show ?thesis using 1(1) [OF False] by blast
  qed
qed

lemma dec_all_digits: "\<forall>c \<in> set (dec n). is_digit c"
  by (auto dest!: dec_chars)

lemma digits_value_snoc: "digits_value (s @ [c]) = 10 * digits_value s + digit_value c"
  by (simp add: digits_value_def)

lemma digits_value_dec: "digits_value (dec n) = n"
proof (induction n rule: dec.induct)
  case (1 n)
  show ?case
  proof (cases "n < 10")
    case True
    then show ?thesis by (subst dec.simps) (simp add: digits_value_def)
  next
    case False
    with 1 show ?thesis by (subst dec.simps) (simp add: digits_value_snoc)
  qed
qed

lemma dec_inj: "dec m = dec n \<longleftrightarrow> m = n"
  by (metis digits_value_dec)

text \<open>The number of digits: fewer than \<open>10 ^ k\<close> fit in \<open>k\<close> places, \<open>0 < k\<close>.\<close>

lemma length_dec_le: "n < 10 ^ Suc k \<Longrightarrow> length (dec n) \<le> Suc k"
proof (induction k arbitrary: n)
  case 0
  then show ?case by (subst dec.simps) simp
next
  case (Suc k)
  show ?case
  proof (cases "n < 10")
    case True
    then show ?thesis by (subst dec.simps) simp
  next
    case False
    have "n div 10 < 10 ^ Suc k" using Suc.prems by (simp add: less_mult_imp_div_less)
    then show ?thesis using Suc.IH False by (subst dec.simps) simp
  qed
qed

lemma length_dec_ge: "10 ^ k \<le> n \<Longrightarrow> k < length (dec n)"
proof (induction k arbitrary: n)
  case 0
  then show ?case by simp
next
  case (Suc k)
  have "(10::nat) \<le> 10 * 10 ^ k" by simp
  also have "\<dots> \<le> n" using Suc.prems by simp
  finally have "\<not> n < 10" by simp
  moreover have "10 ^ k \<le> n div 10" using Suc.prems by (simp add: less_eq_div_iff_mult_less_eq mult.commute)
  ultimately show ?case using Suc.IH by (subst dec.simps) simp
qed

theorem length_dec_le_iff: "length (dec n) \<le> Suc k \<longleftrightarrow> n < 10 ^ Suc k"
  using length_dec_le [of n k] length_dec_ge [of "Suc k" n] by force

text \<open>Printing and parsing a number of type \<open>int\<close> gives it back.\<close>

lemma takeWhile_digits_dec: "takeWhile is_digit (dec n) = dec n"
  using dec_all_digits by (simp only: takeWhile_eq_all_conv)

lemma hd_dec: "\<exists>d < 10. hd (dec n) = digit_char d"
  by (rule dec_chars) (rule hd_in_set, simp)

lemma dec_no_space: "dropWhile is_space (dec n @ r) = dec n @ r"
proof -
  obtain d where "d < 10" "hd (dec n) = digit_char d" using hd_dec by blast
  then show ?thesis by (cases "dec n") auto
qed

theorem atoi_dec: "int n \<le> INT_MAX \<Longrightarrow> atoi (dec n) = Inr (int n)"
proof -
  assume n: "int n \<le> INT_MAX"
  obtain d where "d < 10" "hd (dec n) = digit_char d" using hd_dec by blast
  then show ?thesis
    using n dec_no_space [of n "[]"]
    by (simp add: atoi_def digits_value_dec takeWhile_digits_dec)
qed

theorem atoi_show_int: "INT_MIN \<le> i \<Longrightarrow> i \<le> INT_MAX \<Longrightarrow> atoi (show_int i) = Inr i"
proof (cases "i < 0")
  case True
  assume "INT_MIN \<le> i" "i \<le> INT_MAX"
  with True show ?thesis
    by (simp add: atoi_def show_int_def digits_value_dec takeWhile_digits_dec is_space_def)
next
  case False
  assume "INT_MIN \<le> i" "i \<le> INT_MAX"
  with False show ?thesis using atoi_dec [of "nat i"] by (simp add: show_int_def)
qed

lemma dec_no_NUL: "NUL \<notin> set (dec n)"
  using dec_chars [of NUL n] digit_char_simps(6) by metis

section \<open>printf conversions\<close>

text \<open>
  A field width pads on the left, a negative width (or the flag \<open>-\<close>) on the right, and
  the flag \<open>0\<close> pads a number with zeros between its sign and its digits.
\<close>

definition pad_left :: "nat \<Rightarrow> string \<Rightarrow> string" where
  "pad_left w s = replicate (w - length s) CHR '' '' @ s"

definition pad_right :: "nat \<Rightarrow> string \<Rightarrow> string" where
  "pad_right w s = s @ replicate (w - length s) CHR '' ''"

text \<open>\<open>%*s\<close>, and \<open>%*d\<close> or \<open>%*u\<close> on the printed number.\<close>

definition fmt_width :: "int \<Rightarrow> string \<Rightarrow> string" where
  "fmt_width w s = (if w < 0 then pad_right (nat (- w)) s else pad_left (nat w) s)"

text \<open>\<open>%0*d\<close>.\<close>

definition fmt_zero :: "nat \<Rightarrow> int \<Rightarrow> string" where
  "fmt_zero w i =
     (if i < 0 then CHR ''-'' # replicate (w - 1 - length (dec (nat (- i)))) CHR ''0'' @ dec (nat (- i))
      else replicate (w - length (dec (nat i))) CHR ''0'' @ dec (nat i))"

lemma length_pad [c_string_simps]:
  "length (pad_left w s) = max w (length s)" "length (pad_right w s) = max w (length s)"
  by (simp_all add: pad_left_def pad_right_def max_def)

lemma length_fmt_zero: "0 \<le> i \<Longrightarrow> length (fmt_zero w i) = max w (length (dec (nat i)))"
  by (simp add: fmt_zero_def max_def)

end
