(* ===== verification/Bank_Types.thy ===== *)
theory Bank_Types
  imports C_Library
begin

text \<open>
  The constants of \<open>constants.h\<close> and the data types of \<open>types.h\<close>: enumerations as
  datatypes with the C enumerators, structures as records (field names carry the prefix
  of their structure), the two unions as views of one storage, and the enumerators'
  numeric values. \<open>OP_RAW\<close> and \<open>RC_RAW\<close> stand for values outside the enumerations,
  which an uninitialised variable or a message of another program can hold.
\<close>

section \<open>Constants\<close>

definition MAX_BANK_OFFICES :: int where "MAX_BANK_OFFICES = 99"
definition MAX_BANK_ACCOUNTS :: u32 where "MAX_BANK_ACCOUNTS = 4096"
definition MIN_BALANCE :: u64 where "MIN_BALANCE = 1"
definition MAX_BALANCE :: u64 where "MAX_BALANCE = 1000000000"
definition ADMIN_ACCOUNT_ID :: u32 where "ADMIN_ACCOUNT_ID = 0"
definition MAIN_THREAD_ID :: int where "MAIN_THREAD_ID = 0"
definition MIN_PASSWORD_LEN :: nat where "MIN_PASSWORD_LEN = 8"
definition MAX_PASSWORD_LEN :: nat where "MAX_PASSWORD_LEN = 20"
definition HASH_LEN :: nat where "HASH_LEN = 64"
definition SALT_LEN :: nat where "SALT_LEN = 64"

definition WIDTH_ID :: nat where "WIDTH_ID = 5"
definition WIDTH_DELAY :: nat where "WIDTH_DELAY = 5"
definition WIDTH_ACCOUNT :: nat where "WIDTH_ACCOUNT = 4"
definition WIDTH_BALANCE :: nat where "WIDTH_BALANCE = 10"
definition WIDTH_OP :: nat where "WIDTH_OP = 8"
definition WIDTH_RC :: nat where "WIDTH_RC = 12"
definition WIDTH_HASH :: nat where "WIDTH_HASH = 5"
definition WIDTH_TLV_LEN :: nat where "WIDTH_TLV_LEN = 3"
definition WIDTH_STARTEND :: nat where "WIDTH_STARTEND = 5"

definition SERVER_FIFO_PATH :: string where "SERVER_FIFO_PATH = ''/tmp/secure_srv''"
definition USER_FIFO_PATH_PREFIX :: string where "USER_FIFO_PATH_PREFIX = ''/tmp/secure_''"

text \<open>\<open>sizeof\<close> of the string literal counts its terminator.\<close>

definition USER_FIFO_PATH_LEN :: nat where
  "USER_FIFO_PATH_LEN = (length USER_FIFO_PATH_PREFIX + 1) + WIDTH_ID + 1"

lemmas bank_constants =
  MAX_BANK_OFFICES_def MAX_BANK_ACCOUNTS_def MIN_BALANCE_def MAX_BALANCE_def
  ADMIN_ACCOUNT_ID_def MAIN_THREAD_ID_def MIN_PASSWORD_LEN_def MAX_PASSWORD_LEN_def
  HASH_LEN_def SALT_LEN_def

lemmas width_constants =
  WIDTH_ID_def WIDTH_DELAY_def WIDTH_ACCOUNT_def WIDTH_BALANCE_def WIDTH_OP_def
  WIDTH_RC_def WIDTH_HASH_def WIDTH_TLV_LEN_def WIDTH_STARTEND_def

section \<open>Enumerations\<close>

datatype op_type =
    OP_CREATE_ACCOUNT
  | OP_BALANCE
  | OP_TRANSFER
  | OP_SHUTDOWN
  | OP_MAX_NUMBER
  | OP_RAW u32

datatype ret_code =
    RC_OK
  | RC_SRV_DOWN
  | RC_SRV_TIMEOUT
  | RC_USR_DOWN
  | RC_LOGIN_FAIL
  | RC_OP_NALLOW
  | RC_ID_IN_USE
  | RC_ID_NOT_FOUND
  | RC_SAME_ID
  | RC_NO_FUNDS
  | RC_TOO_HIGH
  | RC_OTHER
  | RC_MAX_NUMBER
  | RC_RAW u32

datatype sync_mech_op =
    SYNC_OP_MUTEX_LOCK
  | SYNC_OP_MUTEX_UNLOCK
  | SYNC_OP_MUTEX_TRYLOCK
  | SYNC_OP_COND_SIGNAL
  | SYNC_OP_COND_WAIT
  | SYNC_OP_SEM_INIT
  | SYNC_OP_SEM_POST
  | SYNC_OP_SEM_WAIT

datatype sync_role = SYNC_ROLE_PRODUCER | SYNC_ROLE_CONSUMER | SYNC_ROLE_ACCOUNT

fun word_of_op :: "op_type \<Rightarrow> u32" where
  "word_of_op OP_CREATE_ACCOUNT = 0"
| "word_of_op OP_BALANCE = 1"
| "word_of_op OP_TRANSFER = 2"
| "word_of_op OP_SHUTDOWN = 3"
| "word_of_op OP_MAX_NUMBER = 4"
| "word_of_op (OP_RAW w) = w"

definition op_of_word :: "u32 \<Rightarrow> op_type" where
  "op_of_word w =
     (if w = 0 then OP_CREATE_ACCOUNT else if w = 1 then OP_BALANCE
      else if w = 2 then OP_TRANSFER else if w = 3 then OP_SHUTDOWN
      else if w = 4 then OP_MAX_NUMBER else OP_RAW w)"

lemma word_of_op_of_word [simp]: "word_of_op (op_of_word w) = w"
  by (simp add: op_of_word_def)

lemma op_of_word_cases:
  "op_of_word (word_of_op t) = t \<longleftrightarrow> (\<forall>w. t = OP_RAW w \<longrightarrow> 4 < w)"
proof (cases t)
  case (OP_RAW w)
  have "4 < w \<longleftrightarrow> w \<noteq> 0 \<and> w \<noteq> 1 \<and> w \<noteq> 2 \<and> w \<noteq> 3 \<and> w \<noteq> 4" by unat_arith
  then show ?thesis using OP_RAW by (auto simp: op_of_word_def)
qed (simp_all add: op_of_word_def)

fun word_of_rc :: "ret_code \<Rightarrow> u32" where
  "word_of_rc RC_OK = 0"
| "word_of_rc RC_SRV_DOWN = 1"
| "word_of_rc RC_SRV_TIMEOUT = 2"
| "word_of_rc RC_USR_DOWN = 3"
| "word_of_rc RC_LOGIN_FAIL = 4"
| "word_of_rc RC_OP_NALLOW = 5"
| "word_of_rc RC_ID_IN_USE = 6"
| "word_of_rc RC_ID_NOT_FOUND = 7"
| "word_of_rc RC_SAME_ID = 8"
| "word_of_rc RC_NO_FUNDS = 9"
| "word_of_rc RC_TOO_HIGH = 10"
| "word_of_rc RC_OTHER = 11"
| "word_of_rc RC_MAX_NUMBER = 12"
| "word_of_rc (RC_RAW w) = w"

definition named_rcs :: "ret_code list" where
  "named_rcs = [RC_OK, RC_SRV_DOWN, RC_SRV_TIMEOUT, RC_USR_DOWN, RC_LOGIN_FAIL, RC_OP_NALLOW,
     RC_ID_IN_USE, RC_ID_NOT_FOUND, RC_SAME_ID, RC_NO_FUNDS, RC_TOO_HIGH, RC_OTHER, RC_MAX_NUMBER]"

definition rc_of_word :: "u32 \<Rightarrow> ret_code" where
  "rc_of_word w = (if unat w < length named_rcs then named_rcs ! unat w else RC_RAW w)"

text \<open>
  The list of return codes is ordered: "if there is more than one error, the first within
  this list must be returned". The order of the type is the order of the enumerators.
\<close>

fun rc_rank :: "ret_code \<Rightarrow> nat" where
  "rc_rank (RC_RAW w) = 13 + unat w"
| "rc_rank c = unat (word_of_rc c)"

lemma rc_rank_inj: "rc_rank a = rc_rank b \<Longrightarrow> a = b"
  by (cases a; cases b) (auto simp: word_unat_eq_iff)

instantiation ret_code :: linorder
begin

definition less_eq_ret_code :: "ret_code \<Rightarrow> ret_code \<Rightarrow> bool" where
  "less_eq_ret_code a b \<longleftrightarrow> rc_rank a \<le> rc_rank b"

definition less_ret_code :: "ret_code \<Rightarrow> ret_code \<Rightarrow> bool" where
  "less_ret_code a b \<longleftrightarrow> rc_rank a < rc_rank b"

instance
  by standard (auto simp: less_eq_ret_code_def less_ret_code_def intro: rc_rank_inj)

end

lemma rc_of_word_of_rc:
  "rc_of_word (word_of_rc c) = c \<longleftrightarrow> (\<forall>w. c = RC_RAW w \<longrightarrow> 12 < w)"
proof (cases c)
  case (RC_RAW w)
  have "c \<noteq> named_rcs ! unat w" if "unat w < length named_rcs"
    using nth_mem [OF that] RC_RAW by (auto simp: named_rcs_def)
  moreover have "12 < w \<longleftrightarrow> \<not> unat w < length named_rcs"
    by (simp add: named_rcs_def word_less_nat_alt) arith
  ultimately show ?thesis using RC_RAW by (auto simp: rc_of_word_def)
qed (simp_all add: rc_of_word_def named_rcs_def)

lemma word_of_rc_of_word [simp]: "word_of_rc (rc_of_word w) = w"
proof (cases "unat w < length named_rcs")
  case True
  have "map word_of_rc named_rcs = map of_nat [0..<length named_rcs]"
    by (simp add: named_rcs_def upt_rec)
  then have "word_of_rc (named_rcs ! unat w) = of_nat (unat w)"
    using True by (metis (no_types, lifting) add_0 diff_zero length_upt nth_map nth_upt)
  then show ?thesis using True by (simp add: rc_of_word_def)
qed (simp add: rc_of_word_def)

section \<open>Structures\<close>

text \<open>
  A fixed character array is represented by the C string it holds. The packed structures
  \<open>req_create_account\<close> and \<open>req_transfer\<close> share the storage of the union in
  \<open>req_value\<close>: the two words of a transfer are the first two words of an account creation,
  so the union is kept as its larger member and read through \<open>value_transfer\<close>. The three
  members of the union in \<open>rep_value\<close> are one word each, so it is one word.
\<close>

record bank_account =
  acc_account_id :: u32
  acc_hash :: string
  acc_salt :: string
  acc_balance :: u32

record req_header =
  hdr_pid :: u32
  hdr_account_id :: u32
  hdr_password :: string
  hdr_op_delay_ms :: u32

record req_create_account =
  crt_account_id :: u32
  crt_balance :: u32
  crt_password :: string

record req_transfer =
  trf_account_id :: u32
  trf_amount :: u32

record req_value =
  val_header :: req_header
  val_union :: req_create_account

abbreviation value_create :: "req_value \<Rightarrow> req_create_account" where
  "value_create v \<equiv> val_union v"

definition value_transfer :: "req_value \<Rightarrow> req_transfer" where
  "value_transfer v = \<lparr>trf_account_id = crt_account_id (val_union v), trf_amount = crt_balance (val_union v)\<rparr>"

record tlv_request =
  req_type :: op_type
  req_length :: u32
  req_val :: req_value

record rep_header =
  rhd_account_id :: u32
  rhd_ret_code :: ret_code

record rep_value =
  rep_header :: rep_header
  rep_word :: u32

record tlv_reply =
  rep_type :: op_type
  rep_length :: u32
  rep_val :: rep_value

text \<open>The members of the reply union: views of the same word.\<close>

abbreviation rep_balance :: "rep_value \<Rightarrow> u32" where "rep_balance v \<equiv> rep_word v"
abbreviation rep_transfer_balance :: "rep_value \<Rightarrow> u32" where "rep_transfer_balance v \<equiv> rep_word v"
abbreviation rep_active_offices :: "rep_value \<Rightarrow> u32" where "rep_active_offices v \<equiv> rep_word v"

text \<open>The header of a message, and the assignment \<open>ret_code = c\<close> on a reply.\<close>

abbreviation req_hdr :: "tlv_request \<Rightarrow> req_header" where
  "req_hdr r \<equiv> val_header (req_val r)"

abbreviation rep_code :: "tlv_reply \<Rightarrow> ret_code" where
  "rep_code r \<equiv> rhd_ret_code (rep_header (rep_val r))"

definition set_code :: "ret_code \<Rightarrow> rep_value \<Rightarrow> rep_value" where
  "set_code c v = v\<lparr>rep_header := (rep_header v)\<lparr>rhd_ret_code := c\<rparr>\<rparr>"

lemma set_code_simps [simp]:
  "rhd_ret_code (rep_header (set_code c v)) = c"
  "rhd_account_id (rep_header (set_code c v)) = rhd_account_id (rep_header v)"
  "rep_word (set_code c v) = rep_word v"
  by (simp_all add: set_code_def)

text \<open>A message as the client builds it: its character arrays hold terminated strings.\<close>

definition wf_request :: "tlv_request \<Rightarrow> bool" where
  "wf_request r \<longleftrightarrow>
     c_string MAX_PASSWORD_LEN (hdr_password (req_hdr r)) \<and>
     c_string MAX_PASSWORD_LEN (crt_password (val_union (req_val r)))"

text \<open>Static storage: all bytes zero.\<close>

definition zero_account :: bank_account where
  "zero_account = \<lparr>acc_account_id = 0, acc_hash = [], acc_salt = [], acc_balance = 0\<rparr>"

section \<open>Sizes\<close>

definition sizeof_enum :: nat where "sizeof_enum = 4"
definition sizeof_u32 :: nat where "sizeof_u32 = 4"

definition sizeof_req_header :: nat where
  "sizeof_req_header = sizeof_u32 + sizeof_u32 + (MAX_PASSWORD_LEN + 1) + sizeof_u32"

definition sizeof_req_create_account :: nat where
  "sizeof_req_create_account = sizeof_u32 + sizeof_u32 + (MAX_PASSWORD_LEN + 1)"

definition sizeof_req_transfer :: nat where
  "sizeof_req_transfer = sizeof_u32 + sizeof_u32"

definition sizeof_req_value :: nat where
  "sizeof_req_value = sizeof_req_header + max sizeof_req_create_account sizeof_req_transfer"

definition sizeof_tlv_request :: nat where
  "sizeof_tlv_request = sizeof_enum + sizeof_u32 + sizeof_req_value"

definition sizeof_rep_header :: nat where
  "sizeof_rep_header = sizeof_u32 + sizeof_enum"

definition sizeof_rep_value :: nat where
  "sizeof_rep_value = sizeof_rep_header + sizeof_u32"

definition sizeof_tlv_reply :: nat where
  "sizeof_tlv_reply = sizeof_enum + sizeof_u32 + sizeof_rep_value"

lemmas sizeof_defs =
  sizeof_enum_def sizeof_u32_def sizeof_req_header_def sizeof_req_create_account_def
  sizeof_req_transfer_def sizeof_req_value_def sizeof_tlv_request_def sizeof_rep_header_def
  sizeof_rep_value_def sizeof_tlv_reply_def MAX_PASSWORD_LEN_def

lemma message_sizes: "sizeof_tlv_request = 70" "sizeof_tlv_reply = 20" "sizeof_rep_value = 12"
  by (simp_all add: sizeof_defs)

text \<open>Requests for evaluation.\<close>

definition sample_request :: "op_type \<Rightarrow> u32 \<Rightarrow> string \<Rightarrow> req_create_account \<Rightarrow> tlv_request" where
  "sample_request t i p c =
     \<lparr>req_type = t, req_length = 0,
      req_val = \<lparr>val_header = \<lparr>hdr_pid = 4242, hdr_account_id = i, hdr_password = p, hdr_op_delay_ms = 5\<rparr>,
                 val_union = c\<rparr>\<rparr>"

definition balance_request :: "u32 \<Rightarrow> tlv_request" where
  "balance_request i = sample_request OP_BALANCE i ''userpass1''
     \<lparr>crt_account_id = 0, crt_balance = 0, crt_password = []\<rparr>"

definition sample_reply :: tlv_reply where
  "sample_reply =
     \<lparr>rep_type = OP_BALANCE, rep_length = 12,
      rep_val = \<lparr>rep_header = \<lparr>rhd_account_id = 1, rhd_ret_code = RC_OK\<rparr>, rep_word = 500\<rparr>\<rparr>"

end
