(* ===== verification/Bank_Utils.thy ===== *)
theory Bank_Utils
  imports Bank_Types
begin

text \<open>
  \<open>utils.h\<close> and \<open>utils.c\<close>: the macros and \<open>rand_string\<close>. The values of successive calls
  of \<open>rand\<close> are a parameter \<open>rnd\<close>, with the number of calls made so far as the state of
  the generator; they are natural numbers because \<open>rand\<close> returns no negative value.
\<close>

section \<open>Macros\<close>

definition min_macro :: "'a::ord \<Rightarrow> 'a \<Rightarrow> 'a" where
  "min_macro a b = (if a < b then a else b)"

definition between :: "'a::ord \<Rightarrow> 'a \<Rightarrow> 'a \<Rightarrow> bool" where
  "between lo num hi \<longleftrightarrow> lo \<le> num \<and> num \<le> hi"

definition is_admin :: "u32 \<Rightarrow> bool" where
  "is_admin i \<longleftrightarrow> i = 0"

section \<open>Random strings\<close>

definition charset :: string where
  "charset = ''abcdefghijklmnopqrstuvwxyzABCDEFGHIJKLMNOPQRSTUVWXYZ0123456789''"

fun rand_loop :: "(nat \<Rightarrow> nat) \<Rightarrow> nat \<Rightarrow> nat \<Rightarrow> string \<Rightarrow> string \<times> nat" where
  "rand_loop rnd pos 0 str = (str, pos)"
| "rand_loop rnd pos (Suc k) str =
     (let key = rnd pos mod length charset
      in rand_loop rnd (Suc pos) k (str @ [charset ! key]))"

text \<open>\<open>rand_string (str, size)\<close>: \<open>sz - 1\<close> characters and the terminator.\<close>

definition rand_string :: "(nat \<Rightarrow> nat) \<Rightarrow> nat \<Rightarrow> string \<Rightarrow> nat \<Rightarrow> string \<times> nat" where
  "rand_string rnd pos str sz = (if sz \<noteq> 0 then rand_loop rnd pos (sz - 1) [] else (str, pos))"

lemma length_charset: "length charset = 62"
  by (simp add: charset_def)

lemma rand_loop_eq:
  "rand_loop rnd pos k str =
     (str @ map (\<lambda>i. charset ! (rnd (pos + i) mod length charset)) [0..<k], pos + k)"
proof (induction k arbitrary: pos str)
  case (Suc k)
  have "map (\<lambda>i. charset ! (rnd (pos + i) mod length charset)) [0..<Suc k] =
    charset ! (rnd pos mod length charset) #
    map (\<lambda>i. charset ! (rnd (Suc pos + i) mod length charset)) [0..<k]"
    by (simp add: map_upt_Suc del: upt_Suc)
  then show ?case by (simp add: Suc Let_def)
qed simp

lemma rand_string_eq:
  "0 < sz \<Longrightarrow> rand_string rnd pos str sz =
     (map (\<lambda>i. charset ! (rnd (pos + i) mod length charset)) [0..<sz - 1], pos + (sz - 1))"
  by (simp add: rand_string_def rand_loop_eq)

lemma length_rand_string: "0 < sz \<Longrightarrow> length (fst (rand_string rnd pos str sz)) = sz - 1"
  by (simp add: rand_string_eq)

lemma set_rand_string: "0 < sz \<Longrightarrow> set (fst (rand_string rnd pos str sz)) \<subseteq> set charset"
  by (auto simp: rand_string_eq length_charset intro!: nth_mem)

text \<open>Letters and digits: no white space, quote or NUL, nothing the shell interprets.\<close>

definition alnum :: "string \<Rightarrow> bool" where
  "alnum s \<longleftrightarrow> set s \<subseteq> set charset"

lemma alnum_simps [simp]: "alnum []" "alnum (s @ t) \<longleftrightarrow> alnum s \<and> alnum t"
  by (auto simp: alnum_def)

lemma alnum_rand_string: "0 < sz \<Longrightarrow> alnum (fst (rand_string rnd pos str sz))"
  by (simp add: alnum_def set_rand_string)

lemma charset_chars: "CHR '' '' \<notin> set charset" "NUL \<notin> set charset" "newline \<notin> set charset"
  by (simp_all add: charset_def)

lemma alnum_chars: "alnum s \<Longrightarrow> CHR '' '' \<notin> set s \<and> NUL \<notin> set s \<and> newline \<notin> set s"
  using charset_chars by (auto simp: alnum_def)

end
