(* ===== verification/Log_File.thy ===== *)
theory Log_File
  imports Bank_Types
begin

text \<open>
  \<open>log.c\<close>: the lines of the log files. A log is the sequence of the strings written to its
  descriptor, one per call of \<open>write\<close>; \<open>pid\<close> is the value of \<open>getpid ()\<close> in the process
  that logs. An index outside one of the name tables is undefined behaviour. The static
  buffer of \<open>atomicPrintf\<close> is shared by all threads without a lock; the model gives each
  call its own.
\<close>

type_synonym log = "string list"

text \<open>\<open>PIPE_BUF\<close> of \<open>limits.h\<close> on Linux, and the UTF-8 bytes of the euro sign.\<close>

definition PIPE_BUF :: nat where "PIPE_BUF = 4096"
definition euro :: string where "euro = [CHR 0xE2, CHR 0x82, CHR 0xAC]"

section \<open>Name tables\<close>

fun OP_TYPE_STR :: "op_type \<Rightarrow> string res" where
  "OP_TYPE_STR OP_CREATE_ACCOUNT = Inr ''CREATE''"
| "OP_TYPE_STR OP_BALANCE = Inr ''BALANCE''"
| "OP_TYPE_STR OP_TRANSFER = Inr ''TRANSFER''"
| "OP_TYPE_STR OP_SHUTDOWN = Inr ''SHUTDOWN''"
| "OP_TYPE_STR _ = Inl (Undefined OutOfBounds)"

fun RC_STR :: "ret_code \<Rightarrow> string res" where
  "RC_STR RC_OK = Inr ''OK''"
| "RC_STR RC_SRV_DOWN = Inr ''SRV_DOWN''"
| "RC_STR RC_SRV_TIMEOUT = Inr ''SRV_TIMEOUT''"
| "RC_STR RC_USR_DOWN = Inr ''USR_DOWN''"
| "RC_STR RC_LOGIN_FAIL = Inr ''LOGIN_FAIL''"
| "RC_STR RC_OP_NALLOW = Inr ''OP_NALLOW''"
| "RC_STR RC_ID_IN_USE = Inr ''ID_IN_USE''"
| "RC_STR RC_ID_NOT_FOUND = Inr ''ID_NOT_FOUND''"
| "RC_STR RC_SAME_ID = Inr ''SAME_ID''"
| "RC_STR RC_NO_FUNDS = Inr ''NO_FUNDS''"
| "RC_STR RC_TOO_HIGH = Inr ''TOO_HIGH''"
| "RC_STR RC_OTHER = Inr ''OTHER''"
| "RC_STR _ = Inl (Undefined OutOfBounds)"

fun SYNC_MECH_STR :: "sync_mech_op \<Rightarrow> string" where
  "SYNC_MECH_STR SYNC_OP_MUTEX_LOCK = ''MUTEX_LOCK''"
| "SYNC_MECH_STR SYNC_OP_MUTEX_TRYLOCK = ''MUTEX_TRYLOCK''"
| "SYNC_MECH_STR SYNC_OP_MUTEX_UNLOCK = ''MUTEX_UNLOCK''"
| "SYNC_MECH_STR SYNC_OP_COND_SIGNAL = ''COND_SIGNAL''"
| "SYNC_MECH_STR SYNC_OP_COND_WAIT = ''COND_WAIT''"
| "SYNC_MECH_STR SYNC_OP_SEM_INIT = ''SEM_INIT''"
| "SYNC_MECH_STR SYNC_OP_SEM_POST = ''SEM_POST''"
| "SYNC_MECH_STR SYNC_OP_SEM_WAIT = ''SEM_WAIT''"

fun SYNC_ROLE_STR :: "sync_role \<Rightarrow> string" where
  "SYNC_ROLE_STR SYNC_ROLE_ACCOUNT = ''ACCOUNT''"
| "SYNC_ROLE_STR SYNC_ROLE_CONSUMER = ''CONSUMER''"
| "SYNC_ROLE_STR SYNC_ROLE_PRODUCER = ''PRODUCER''"

section \<open>Ancillary functions\<close>

text \<open>
  \<open>vsnprintf\<close> into a buffer of \<open>PIPE_BUF\<close> bytes, then one \<open>write\<close>: the return value is the
  length of the whole line, what is written is cut to the buffer.
\<close>

definition atomicPrintf :: "string \<Rightarrow> log \<Rightarrow> int \<times> log" where
  "atomicPrintf line lg = (int (length line), lg @ [take (PIPE_BUF - 1) line])"

definition logBaseRequestInfo :: "int \<Rightarrow> int \<Rightarrow> tlv_request \<Rightarrow> string res" where
  "logBaseRequestInfo pid i request =
     (let h = req_hdr request;
          pass_padding = int MAX_PASSWORD_LEN - int (length (hdr_password h));
          received = (i \<noteq> pid)
      in bind_res (OP_TYPE_STR (req_type request)) (\<lambda>op.
         Inr (take (PIPE_BUF - 1)
           ((if received then ''R'' else ''E'') @ '' - '' @ fmt_zero WIDTH_ID i @ '' - ['' @
            fmt_width (int WIDTH_TLV_LEN) (show_int (sint (req_length request))) @ '' bytes] '' @
            fmt_zero WIDTH_ID (sint (hdr_pid h)) @ '' ('' @
            fmt_zero WIDTH_ACCOUNT (sint (hdr_account_id h)) @ '', '' @ [CHR 0x22] @
            hdr_password h @ [CHR 0x22] @ '')'' @ fmt_width pass_padding [] @ '' ['' @
            fmt_width (int WIDTH_DELAY) (dec (unat (hdr_op_delay_ms h))) @ '' ms] '' @
            pad_right WIDTH_OP op))))"

definition logBaseReplyInfo :: "int \<Rightarrow> int \<Rightarrow> tlv_reply \<Rightarrow> string res" where
  "logBaseReplyInfo pid i reply =
     (let received = (i = pid)
      in bind_res (OP_TYPE_STR (rep_type reply)) (\<lambda>op.
         bind_res (RC_STR (rep_code reply)) (\<lambda>rc.
         Inr (take (PIPE_BUF - 1)
           ((if received then ''R'' else ''E'') @ '' - '' @ fmt_zero WIDTH_ID i @ '' - ['' @
            fmt_width (int WIDTH_TLV_LEN) (show_int (sint (rep_length reply))) @ '' bytes] '' @
            fmt_zero WIDTH_ACCOUNT (sint (rhd_account_id (rep_header (rep_val reply)))) @ '' '' @
            fmt_width (int WIDTH_OP) op @ '' '' @ fmt_width (int WIDTH_RC) rc)))))"

definition logBankOfficeInfo :: "int \<Rightarrow> nat \<Rightarrow> bool \<Rightarrow> log \<Rightarrow> int \<times> log" where
  "logBankOfficeInfo i tid opened lg =
     atomicPrintf (''I - '' @ fmt_zero WIDTH_ID i @ '' - '' @
       pad_right WIDTH_STARTEND (if opened then ''OPEN'' else ''CLOSE'') @ '' '' @ dec tid @
       [newline]) lg"

section \<open>Logging\<close>

text \<open>The request and reply arguments are pointers: \<open>None\<close> is the null pointer.\<close>

definition logRequest :: "int \<Rightarrow> int \<Rightarrow> tlv_request option \<Rightarrow> log \<Rightarrow> (int \<times> log) res" where
  "logRequest pid i req lg =
     (case req of
        None \<Rightarrow> Inr (- 1, lg)
      | Some request \<Rightarrow>
          (case req_type request of
             OP_CREATE_ACCOUNT \<Rightarrow>
               bind_res (logBaseRequestInfo pid i request) (\<lambda>base.
               Inr (atomicPrintf (base @ '' '' @
                 fmt_zero WIDTH_ACCOUNT (sint (crt_account_id (value_create (req_val request)))) @ '' '' @
                 fmt_width (int WIDTH_BALANCE) (dec (unat (crt_balance (value_create (req_val request))))) @
                 euro @ '' '' @ [CHR 0x22] @ crt_password (value_create (req_val request)) @
                 [CHR 0x22, newline]) lg))
           | OP_BALANCE \<Rightarrow>
               bind_res (logBaseRequestInfo pid i request) (\<lambda>base.
               Inr (atomicPrintf (base @ [newline]) lg))
           | OP_TRANSFER \<Rightarrow>
               bind_res (logBaseRequestInfo pid i request) (\<lambda>base.
               Inr (atomicPrintf (base @ '' '' @
                 fmt_zero WIDTH_ACCOUNT (sint (trf_account_id (value_transfer (req_val request)))) @ '' '' @
                 fmt_width (int WIDTH_BALANCE) (dec (unat (trf_amount (value_transfer (req_val request))))) @
                 euro @ [newline]) lg))
           | OP_SHUTDOWN \<Rightarrow>
               bind_res (logBaseRequestInfo pid i request) (\<lambda>base.
               Inr (atomicPrintf (base @ [newline]) lg))
           | _ \<Rightarrow> Inr (- 2, lg)))"

definition logReply :: "int \<Rightarrow> int \<Rightarrow> tlv_reply option \<Rightarrow> log \<Rightarrow> (int \<times> log) res" where
  "logReply pid i rep lg =
     (case rep of
        None \<Rightarrow> Inr (- 1, lg)
      | Some reply \<Rightarrow>
          (case rep_type reply of
             OP_CREATE_ACCOUNT \<Rightarrow>
               bind_res (logBaseReplyInfo pid i reply) (\<lambda>base.
               Inr (atomicPrintf (base @ [newline]) lg))
           | OP_BALANCE \<Rightarrow>
               bind_res (logBaseReplyInfo pid i reply) (\<lambda>base.
               Inr (atomicPrintf (base @ '' '' @ fmt_width (int WIDTH_BALANCE)
                 (show_int (sint (rep_balance (rep_val reply)))) @ euro @ [newline]) lg))
           | OP_TRANSFER \<Rightarrow>
               bind_res (logBaseReplyInfo pid i reply) (\<lambda>base.
               Inr (atomicPrintf (base @ '' '' @ fmt_width (int WIDTH_BALANCE)
                 (show_int (sint (rep_transfer_balance (rep_val reply)))) @ euro @ [newline]) lg))
           | OP_SHUTDOWN \<Rightarrow>
               bind_res (logBaseReplyInfo pid i reply) (\<lambda>base.
               Inr (atomicPrintf (base @ '' '' @
                 show_int (sint (rep_active_offices (rep_val reply))) @ [newline]) lg))
           | _ \<Rightarrow> Inr (- 2, lg)))"

definition logBankOfficeOpen :: "int \<Rightarrow> nat \<Rightarrow> log \<Rightarrow> int \<times> log" where
  "logBankOfficeOpen i tid lg = logBankOfficeInfo i tid True lg"

definition logBankOfficeClose :: "int \<Rightarrow> nat \<Rightarrow> log \<Rightarrow> int \<times> log" where
  "logBankOfficeClose i tid lg = logBankOfficeInfo i tid False lg"

text \<open>The last \<open>WIDTH_HASH\<close> characters of the hash start at index \<open>HASH_LEN - WIDTH_HASH\<close>.\<close>

definition logAccountCreation :: "int \<Rightarrow> bank_account option \<Rightarrow> log \<Rightarrow> int \<times> log" where
  "logAccountCreation i acc lg =
     (case acc of
        None \<Rightarrow> (- 1, lg)
      | Some account \<Rightarrow>
          atomicPrintf (''I - '' @ fmt_zero WIDTH_ID i @ '' - '' @
            fmt_zero WIDTH_ACCOUNT (sint (acc_account_id account)) @ '' '' @
            fmt_width (int SALT_LEN) (acc_salt account) @ '' ...'' @
            fmt_width (int WIDTH_HASH) (drop (HASH_LEN - WIDTH_HASH) (acc_hash account)) @
            [newline]) lg)"

definition logSyncMech :: "int \<Rightarrow> sync_mech_op \<Rightarrow> sync_role \<Rightarrow> int \<Rightarrow> log \<Rightarrow> int \<times> log" where
  "logSyncMech i smo role sid lg =
     atomicPrintf (''S - '' @ fmt_zero WIDTH_ID i @ '' - '' @ [SYNC_ROLE_STR role ! 0] @
       fmt_zero WIDTH_ID sid @ '' '' @ SYNC_MECH_STR smo @ [newline]) lg"

definition logSyncMechSem ::
    "int \<Rightarrow> sync_mech_op \<Rightarrow> sync_role \<Rightarrow> int \<Rightarrow> int \<Rightarrow> log \<Rightarrow> int \<times> log" where
  "logSyncMechSem i smo role sid val lg =
     atomicPrintf (''S - '' @ fmt_zero WIDTH_ID i @ '' - '' @ [SYNC_ROLE_STR role ! 0] @
       fmt_zero WIDTH_ID sid @ '' '' @ SYNC_MECH_STR smo @ '' [val='' @ show_int val @ '']'' @
       [newline]) lg"

definition logDelay :: "int \<Rightarrow> u32 \<Rightarrow> log \<Rightarrow> int \<times> log" where
  "logDelay i delay_ms lg =
     atomicPrintf (''A - '' @ fmt_zero WIDTH_ID i @ '' - ['' @
       fmt_width (int WIDTH_DELAY) (dec (unat delay_ms)) @ '' ms]'' @ [newline]) lg"

definition logSyncDelay :: "int \<Rightarrow> int \<Rightarrow> u32 \<Rightarrow> log \<Rightarrow> int \<times> log" where
  "logSyncDelay i sid delay_ms lg =
     atomicPrintf (''A - '' @ fmt_zero WIDTH_ID i @ '' - '' @
       [SYNC_ROLE_STR SYNC_ROLE_ACCOUNT ! 0] @ fmt_zero WIDTH_ID sid @ '' ['' @
       fmt_width (int WIDTH_DELAY) (dec (unat delay_ms)) @ '' ms]'' @ [newline]) lg"

end
