(* ===== verification/Accounts.thy ===== *)
theory Accounts
  imports Bank_Utils Log_File
begin

text \<open>
  The accounts of \<open>server.c\<close>: the global array with its bounds, the balance check and the
  transfer, the invariant of the array, the sum of all balances, and the ledger that the
  array represents. An access outside the 4096 elements is undefined behaviour.
\<close>

section \<open>State\<close>

text \<open>
  The globals the handlers use: the array of accounts, the position of the random
  generator, the server's log, and the time the offices have slept.
\<close>

record bank =
  accounts :: "nat \<Rightarrow> bank_account"
  rand_pos :: nat
  slog :: log
  slept_us :: nat

definition static_bank :: bank where
  "static_bank = \<lparr>accounts = (\<lambda>_. zero_account), rand_pos = 0, slog = [], slept_us = 0\<rparr>"

text \<open>\<open>accounts[i]\<close> read and written.\<close>

definition account_at :: "bank \<Rightarrow> u32 \<Rightarrow> bank_account res" where
  "account_at b i =
     (if i < MAX_BANK_ACCOUNTS then Inr (accounts b (unat i)) else Inl (Undefined OutOfBounds))"

definition set_account :: "u32 \<Rightarrow> bank_account \<Rightarrow> bank \<Rightarrow> bank" where
  "set_account i a b = b\<lparr>accounts := (accounts b)(unat i := a)\<rparr>"

section \<open>Balance and transfer\<close>

definition check_user_balance :: "u32 \<Rightarrow> rep_value \<Rightarrow> bank \<Rightarrow> rep_value res" where
  "check_user_balance i rv b =
     bind_res (account_at b i) (\<lambda>a.
       Inr (set_code RC_OK (rv\<lparr>rep_word := acc_balance a\<rparr>)))"

text \<open>
  The balance of the destination goes into the reply before its id is checked. \<open>i\<close> is the
  sender's id, which \<open>validate_user\<close> has already looked up.
\<close>

definition create_user_transfer :: "u32 \<Rightarrow> req_transfer \<Rightarrow> rep_value \<Rightarrow> bank \<Rightarrow> (rep_value \<times> bank) res" where
  "create_user_transfer i transfer rv b =
     (let dst = trf_account_id transfer; amount = trf_amount transfer in
      bind_res (account_at b dst) (\<lambda>d.
      let rv = rv\<lparr>rep_word := acc_balance d\<rparr> in
      if \<not> between 1 dst MAX_BANK_ACCOUNTS then Inr (set_code RC_OTHER rv, b)
      else if dst \<noteq> acc_account_id d then Inr (set_code RC_ID_IN_USE rv, b)
      else bind_res (account_at b i) (\<lambda>s.
      if \<not> between MIN_BALANCE (ucast amount) (ucast (acc_balance s))
      then Inr (set_code RC_NO_FUNDS rv, b)
      else if \<not> between MIN_BALANCE (ucast (amount + acc_balance d)) MAX_BALANCE
      then Inr (set_code RC_NO_FUNDS rv, b)
      else
        let b1 = set_account i (s\<lparr>acc_balance := acc_balance s - amount\<rparr>) b in
        bind_res (account_at b1 dst) (\<lambda>d1.
        let b2 = set_account dst (d1\<lparr>acc_balance := acc_balance d1 + amount\<rparr>) b1 in
        bind_res (account_at b2 i) (\<lambda>s2.
          Inr ((set_code RC_OK rv)\<lparr>rep_word := acc_balance s2\<rparr>, b2))))))"

section \<open>The array\<close>

lemma account_at_eq_Inr:
  "account_at b i = Inr a \<longleftrightarrow> i < MAX_BANK_ACCOUNTS \<and> a = accounts b (unat i)"
  by (auto simp: account_at_def)

lemma account_at_in [simp]: "i < MAX_BANK_ACCOUNTS \<Longrightarrow> account_at b i = Inr (accounts b (unat i))"
  by (simp add: account_at_def)

lemma account_at_out: "\<not> i < MAX_BANK_ACCOUNTS \<Longrightarrow> account_at b i = Inl (Undefined OutOfBounds)"
  by (simp add: account_at_def)

lemma set_account_simps [simp]:
  "accounts (set_account i a b) = (accounts b)(unat i := a)"
  "rand_pos (set_account i a b) = rand_pos b"
  "slog (set_account i a b) = slog b"
  "slept_us (set_account i a b) = slept_us b"
  by (simp_all add: set_account_def)

lemma index_less_iff: "i < MAX_BANK_ACCOUNTS \<longleftrightarrow> unat i < 4096"
  by (simp add: MAX_BANK_ACCOUNTS_def word_less_nat_alt)

lemma index_le_iff: "between 1 i MAX_BANK_ACCOUNTS \<longleftrightarrow> 0 < unat i \<and> unat i \<le> 4096"
  by (auto simp: between_def MAX_BANK_ACCOUNTS_def word_le_nat_alt)

lemma balance_between_iff:
  "between MIN_BALANCE (ucast (x :: u32)) MAX_BALANCE \<longleftrightarrow> 0 < unat x \<and> unat x \<le> 1000000000"
  "between MIN_BALANCE (ucast (x :: u32)) (ucast (y :: u32)) \<longleftrightarrow> 0 < unat x \<and> unat x \<le> unat y"
  by (auto simp: between_def MIN_BALANCE_def MAX_BALANCE_def word_le_nat_alt)

lemma of_nat_unat_u32 [simp]: "of_nat (unat (i :: u32)) = i"
  by simp

section \<open>Invariant and funds\<close>

text \<open>
  Every element is unused (id 0, nothing on it) or carries its own index as its id, and no
  balance is above the maximum. Element 0 is the administrator's.
\<close>

definition account_ok :: "nat \<Rightarrow> bank_account \<Rightarrow> bool" where
  "account_ok k a \<longleftrightarrow>
     (acc_account_id a = 0 \<and> unat (acc_balance a) = 0 \<or>
      0 < k \<and> acc_account_id a = of_nat k \<and> unat (acc_balance a) \<le> 1000000000)"

definition bank_inv :: "bank \<Rightarrow> bool" where
  "bank_inv b \<longleftrightarrow> (\<forall>k < 4096. account_ok k (accounts b k))"

definition total_funds :: "bank \<Rightarrow> nat" where
  "total_funds b = (\<Sum>k<4096. unat (acc_balance (accounts b k)))"

text \<open>The promise of the component: which accounts are open, and with how much.\<close>

type_synonym ledger = "nat \<rightharpoonup> nat"

definition ledger :: "bank \<Rightarrow> ledger" where
  "ledger b k =
     (if 0 < k \<and> k < 4096 \<and> acc_account_id (accounts b k) = of_nat k
      then Some (unat (acc_balance (accounts b k))) else None)"

definition ledger_open :: "nat \<Rightarrow> nat \<Rightarrow> ledger \<Rightarrow> ledger option" where
  "ledger_open k amount L =
     (if 0 < k \<and> k < 4096 \<and> L k = None \<and> 0 < amount \<and> amount \<le> 1000000000
      then Some (L(k \<mapsto> amount)) else None)"

definition ledger_transfer :: "nat \<Rightarrow> nat \<Rightarrow> nat \<Rightarrow> ledger \<Rightarrow> ledger option" where
  "ledger_transfer src dst amount L =
     (case (L src, L dst) of
        (Some s, Some d) \<Rightarrow>
          if 0 < amount \<and> amount \<le> s \<and> amount + d \<le> 1000000000
          then Some (if src = dst then L else L(src \<mapsto> s - amount, dst \<mapsto> d + amount))
          else None
      | _ \<Rightarrow> None)"

lemma static_bank_inv [simp]: "bank_inv static_bank"
  by (simp add: bank_inv_def static_bank_def account_ok_def zero_account_def)

lemma bank_invD: "bank_inv b \<Longrightarrow> k < 4096 \<Longrightarrow> account_ok k (accounts b k)"
  by (simp add: bank_inv_def)

lemma bank_inv_balance: "bank_inv b \<Longrightarrow> k < 4096 \<Longrightarrow> unat (acc_balance (accounts b k)) \<le> 1000000000"
  by (drule (1) bank_invD) (auto simp: account_ok_def)

lemma bank_inv_set:
  "bank_inv b \<Longrightarrow> account_ok (unat i) a \<Longrightarrow> bank_inv (set_account i a b)"
  by (simp add: bank_inv_def)

lemma bank_inv_frame [simp]:
  "bank_inv (b\<lparr>rand_pos := p\<rparr>) = bank_inv b" "bank_inv (b\<lparr>slog := l\<rparr>) = bank_inv b"
  "bank_inv (b\<lparr>slept_us := n\<rparr>) = bank_inv b"
  by (simp_all add: bank_inv_def)

lemma total_funds_frame [simp]:
  "total_funds (b\<lparr>rand_pos := p\<rparr>) = total_funds b" "total_funds (b\<lparr>slog := l\<rparr>) = total_funds b"
  "total_funds (b\<lparr>slept_us := n\<rparr>) = total_funds b"
  by (simp_all add: total_funds_def)

lemma ledger_frame [simp]:
  "ledger (b\<lparr>rand_pos := p\<rparr>) = ledger b" "ledger (b\<lparr>slog := l\<rparr>) = ledger b"
  "ledger (b\<lparr>slept_us := n\<rparr>) = ledger b"
  by (simp_all add: ledger_def fun_eq_iff)

lemma total_funds_set:
  assumes "unat i < 4096"
  shows "total_funds (set_account i a b) + unat (acc_balance (accounts b (unat i))) =
    total_funds b + unat (acc_balance a)"
proof -
  let ?f = "\<lambda>k. unat (acc_balance (accounts b k))"
  have "(\<Sum>k<4096. unat (acc_balance (((accounts b)(unat i := a)) k))) =
      (\<Sum>k<4096. (?f(unat i := unat (acc_balance a))) k)"
    by (rule sum.cong) auto
  then show ?thesis
    using sum_fun_upd_in [OF assms, of ?f "unat (acc_balance a)"]
    unfolding total_funds_def set_account_simps(1) by linarith
qed

lemma ledger_set:
  assumes "0 < unat i" and "unat i < 4096" and "acc_account_id a = i"
  shows "ledger (set_account i a b) = (ledger b)(unat i \<mapsto> unat (acc_balance a))"
  using assms by (auto simp: ledger_def fun_eq_iff)

lemma ledger_SomeD:
  "ledger b k = Some x \<Longrightarrow> 0 < k \<and> k < 4096 \<and> acc_account_id (accounts b k) = of_nat k \<and>
    x = unat (acc_balance (accounts b k))"
  by (auto simp: ledger_def split: if_splits)

text \<open>An open account is found under its id: the test \<open>id == accounts[id].account_id\<close>.\<close>

lemma ledger_dom_iff:
  "0 < unat i \<Longrightarrow> unat i < 4096 \<Longrightarrow>
    i = acc_account_id (accounts b (unat i)) \<longleftrightarrow> ledger b (unat i) \<noteq> None"
  by (auto simp: ledger_def)

section \<open>Transfers\<close>

definition transfer_verdict :: "u32 \<Rightarrow> req_transfer \<Rightarrow> bank \<Rightarrow> ret_code" where
  "transfer_verdict i t b =
     (let dst = unat (trf_account_id t); amount = unat (trf_amount t);
          s = unat (acc_balance (accounts b (unat i))); d = unat (acc_balance (accounts b dst)) in
      if dst = 0 then RC_OTHER
      else if trf_account_id t \<noteq> acc_account_id (accounts b dst) then RC_ID_IN_USE
      else if amount = 0 \<or> s < amount \<or> 1000000000 < amount + d then RC_NO_FUNDS
      else RC_OK)"

definition moved :: "u32 \<Rightarrow> req_transfer \<Rightarrow> bank \<Rightarrow> bank" where
  "moved i t b =
     (let dst = trf_account_id t; s = accounts b (unat i);
          b1 = set_account i (s\<lparr>acc_balance := acc_balance s - trf_amount t\<rparr>) b;
          d = accounts b1 (unat dst)
      in set_account dst (d\<lparr>acc_balance := acc_balance d + trf_amount t\<rparr>) b1)"

lemma sum_between_iff:
  assumes "unat (x :: u32) \<le> 1000000000" and "unat (y :: u32) \<le> 1000000000"
  shows "between MIN_BALANCE (ucast (x + y)) MAX_BALANCE \<longleftrightarrow>
    0 < unat x + unat y \<and> unat x + unat y \<le> 1000000000"
proof -
  have "unat (x + y) = unat x + unat y" using assms by (intro unat_add_no_wrap) simp
  then show ?thesis by (simp add: balance_between_iff)
qed

lemma create_user_transfer_eq:
  assumes "bank_inv b" and "unat i < 4096" and "unat (trf_account_id t) < 4096"
  shows "create_user_transfer i t rv b =
      Inr (let c = transfer_verdict i t b in
           if c = RC_OK
           then ((set_code RC_OK (rv\<lparr>rep_word := acc_balance (accounts b (unat (trf_account_id t)))\<rparr>))
                   \<lparr>rep_word := acc_balance (accounts (moved i t b) (unat i))\<rparr>, moved i t b)
           else (set_code c (rv\<lparr>rep_word := acc_balance (accounts b (unat (trf_account_id t)))\<rparr>), b))"
proof -
  let ?dst = "trf_account_id t"
  let ?x = "acc_balance (accounts b (unat i))" and ?y = "acc_balance (accounts b (unat ?dst))"
  have le: "unat ?x \<le> 1000000000" "unat ?y \<le> 1000000000"
    using assms bank_inv_balance by auto
  have at: "account_at b' i = Inr (accounts b' (unat i))" "account_at b' ?dst = Inr (accounts b' (unat ?dst))" for b'
    using assms(2,3) by (simp_all add: index_less_iff)
  have id: "between 1 ?dst MAX_BANK_ACCOUNTS \<longleftrightarrow> unat ?dst \<noteq> 0"
    using assms(3) by (simp add: index_le_iff)
  have sum: "\<not> between MIN_BALANCE (ucast (trf_amount t + ?y)) MAX_BALANCE \<longleftrightarrow>
      1000000000 < unat (trf_amount t) + unat ?y"
    if "between MIN_BALANCE (ucast (trf_amount t)) (ucast ?x)"
    using sum_between_iff [of "trf_amount t" ?y] le that by (simp add: balance_between_iff) linarith
  note defs = create_user_transfer_def transfer_verdict_def moved_def Let_def at id bind_res_Inr
  show ?thesis
  proof (cases "unat ?dst = 0 \<or> ?dst \<noteq> acc_account_id (accounts b (unat ?dst))")
    case True
    then show ?thesis unfolding defs by (simp split del: if_split cong: if_cong) auto
  next
    case False
    show ?thesis
    proof (cases "between MIN_BALANCE (ucast (trf_amount t)) (ucast ?x)")
      case True
      then have "unat (trf_amount t) \<noteq> 0" "\<not> unat ?x < unat (trf_amount t)"
        by (simp_all add: balance_between_iff)
      with False True show ?thesis unfolding defs by (simp add: sum [OF True])
    next
      case b: False
      then have "unat (trf_amount t) = 0 \<or> unat ?x < unat (trf_amount t)"
        by (auto simp: balance_between_iff)
      with False b show ?thesis unfolding defs by auto
    qed
  qed
qed

lemma transfer_verdict_OK:
  "transfer_verdict i t b = RC_OK \<longleftrightarrow>
     0 < unat (trf_account_id t) \<and>
     trf_account_id t = acc_account_id (accounts b (unat (trf_account_id t))) \<and>
     0 < unat (trf_amount t) \<and> unat (trf_amount t) \<le> unat (acc_balance (accounts b (unat i))) \<and>
     unat (trf_amount t) + unat (acc_balance (accounts b (unat (trf_account_id t)))) \<le> 1000000000"
  by (auto simp: transfer_verdict_def Let_def)

lemma transfer_verdict_cases:
  "transfer_verdict i t b \<in> {RC_OTHER, RC_ID_IN_USE, RC_NO_FUNDS, RC_OK}"
  by (simp add: transfer_verdict_def Let_def)

text \<open>Where the money goes: one balance falls by the amount and the other rises by it.\<close>

lemma moved_balances:
  assumes "transfer_verdict i t b = RC_OK" and "i \<noteq> trf_account_id t"
  shows "unat (acc_balance (accounts (moved i t b) (unat i))) =
      unat (acc_balance (accounts b (unat i))) - unat (trf_amount t)"
    and "unat (acc_balance (accounts (moved i t b) (unat (trf_account_id t)))) =
      unat (acc_balance (accounts b (unat (trf_account_id t)))) + unat (trf_amount t)"
  using assms by (simp_all add: moved_def Let_def transfer_verdict_OK word_unat_eq_iff
      unat_sub_le word_le_nat_alt unat_add_no_wrap)

lemma moved_self: "moved i \<lparr>trf_account_id = i, trf_amount = x\<rparr> b = b"
  by (simp add: moved_def Let_def set_account_def)

lemma moved_ids [simp]: "acc_account_id (accounts (moved i t b) k) = acc_account_id (accounts b k)"
  by (simp add: moved_def Let_def)

lemma moved_other: "k \<noteq> unat i \<Longrightarrow> k \<noteq> unat (trf_account_id t) \<Longrightarrow> accounts (moved i t b) k = accounts b k"
  by (simp add: moved_def Let_def)

lemma moved_self_balance:
  "i = trf_account_id t \<Longrightarrow> acc_balance (accounts (moved i t b) k) = acc_balance (accounts b k)"
  by (simp add: moved_def Let_def)

lemma moved_balance:
  assumes "transfer_verdict i t b = RC_OK"
  shows "unat (acc_balance (accounts (moved i t b) k)) =
    (if i = trf_account_id t then unat (acc_balance (accounts b k))
     else if k = unat i then unat (acc_balance (accounts b k)) - unat (trf_amount t)
     else if k = unat (trf_account_id t) then unat (acc_balance (accounts b k)) + unat (trf_amount t)
     else unat (acc_balance (accounts b k)))"
  using moved_balances [OF assms] moved_self_balance moved_other [of k i t b] by auto

lemma moved_inv:
  assumes "bank_inv b" and "transfer_verdict i t b = RC_OK"
    and "ledger b (unat i) \<noteq> None" and "unat (trf_account_id t) < 4096"
  shows "bank_inv (moved i t b)"
  unfolding bank_inv_def
proof (intro allI impI)
  fix k :: nat assume "k < 4096"
  then have "account_ok k (accounts b k)" using assms(1) by (rule bank_invD [rotated])
  moreover have "ledger b (unat (trf_account_id t)) \<noteq> None"
    using assms(2,4) ledger_dom_iff [of "trf_account_id t" b] by (simp add: transfer_verdict_OK)
  ultimately show "account_ok k (accounts (moved i t b) k)"
    using assms(2,3) moved_balance [OF assms(2), of k]
    by (auto simp: account_ok_def transfer_verdict_OK dest!: ledger_SomeD split: if_splits)
qed

lemma moved_funds:
  assumes "transfer_verdict i t b = RC_OK" and "unat i < 4096" and "unat (trf_account_id t) < 4096"
  shows "total_funds (moved i t b) = total_funds b"
proof -
  let ?dst = "trf_account_id t" and ?x = "trf_amount t" and ?s = "accounts b (unat i)"
  define b1 where "b1 = set_account i (?s\<lparr>acc_balance := acc_balance ?s - ?x\<rparr>) b"
  let ?d = "accounts b1 (unat ?dst)"
  have m: "moved i t b = set_account ?dst (?d\<lparr>acc_balance := acc_balance ?d + ?x\<rparr>) b1"
    by (simp add: moved_def b1_def Let_def)
  have ok: "unat ?x \<le> unat (acc_balance ?s)"
    "unat ?x + unat (acc_balance (accounts b (unat ?dst))) \<le> 1000000000"
    using assms(1) by (auto simp: transfer_verdict_OK)
  then have sub: "unat (acc_balance ?s - ?x) = unat (acc_balance ?s) - unat ?x"
    by (simp add: unat_sub_le word_le_nat_alt)
  have "unat (acc_balance ?d + ?x) = unat (acc_balance ?d) + unat ?x"
  proof (rule unat_add_no_wrap)
    have "unat (acc_balance ?d) \<le> unat (acc_balance (accounts b (unat ?dst)))"
      using sub by (auto simp: b1_def)
    then show "unat (acc_balance ?d) + unat ?x < 2 ^ LENGTH(32)" using ok by simp
  qed
  then show ?thesis
    using total_funds_set [OF assms(2), of "?s\<lparr>acc_balance := acc_balance ?s - ?x\<rparr>" b, folded b1_def]
      total_funds_set [OF assms(3), of "?d\<lparr>acc_balance := acc_balance ?d + ?x\<rparr>" b1, folded m] sub ok
    by simp
qed

lemma moved_ledger:
  assumes "transfer_verdict i t b = RC_OK" and "ledger b (unat i) \<noteq> None"
    and "unat (trf_account_id t) < 4096"
  shows "ledger_transfer (unat i) (unat (trf_account_id t)) (unat (trf_amount t)) (ledger b) =
    Some (ledger (moved i t b))"
proof -
  let ?dst = "trf_account_id t"
  have v: "0 < unat ?dst" "?dst = acc_account_id (accounts b (unat ?dst))" "0 < unat (trf_amount t)"
    "unat (trf_amount t) \<le> unat (acc_balance (accounts b (unat i)))"
    "unat (trf_amount t) + unat (acc_balance (accounts b (unat ?dst))) \<le> 1000000000"
    using assms(1) by (auto simp: transfer_verdict_OK)
  have s: "ledger b (unat i) = Some (unat (acc_balance (accounts b (unat i))))"
    using assms(2) by (auto simp: ledger_def split: if_splits)
  have d: "ledger b (unat ?dst) = Some (unat (acc_balance (accounts b (unat ?dst))))"
    using assms(3) v by (auto simp: ledger_def)
  have "ledger (moved i t b) k =
     (if i = ?dst then ledger b k
      else if k = unat ?dst then Some (unat (acc_balance (accounts b (unat ?dst))) + unat (trf_amount t))
      else if k = unat i then Some (unat (acc_balance (accounts b (unat i))) - unat (trf_amount t))
      else ledger b k)" for k
    using s d moved_balance [OF assms(1), of k]
    by (auto simp: ledger_def word_unat_eq_iff split: if_splits)
  then show ?thesis
    using s d v by (auto simp: ledger_transfer_def fun_eq_iff word_unat_eq_iff add.commute)
qed

lemma refused_ledger:
  assumes "transfer_verdict i t b \<noteq> RC_OK" and "unat (trf_account_id t) < 4096"
  shows "ledger_transfer (unat i) (unat (trf_account_id t)) (unat (trf_amount t)) (ledger b) = None"
  using assms
  by (auto simp: ledger_transfer_def transfer_verdict_OK split: option.splits dest!: ledger_SomeD)

section \<open>Properties\<close>

text \<open>Two open accounts for evaluation: 500 on account 1 and 20 on account 2.\<close>

definition two_accounts :: bank where
  "two_accounts =
     set_account 1 \<lparr>acc_account_id = 1, acc_hash = [], acc_salt = [], acc_balance = 500\<rparr>
    (set_account 2 \<lparr>acc_account_id = 2, acc_hash = [], acc_salt = [], acc_balance = 20\<rparr> static_bank)"

lemma two_accounts [simp]:
  "bank_inv two_accounts" "ledger two_accounts (Suc 0) = Some 500" "ledger two_accounts 2 = Some 20"
  by (auto simp: two_accounts_def ledger_def account_ok_def intro!: bank_inv_set)

text \<open>
  What \<open>types.h\<close> documents for a transfer of \<open>x\<close> from an open account: the first of the codes in
  its list that applies (\<open>RC_ID_NOT_FOUND\<close>, \<open>RC_SAME_ID\<close>, \<open>RC_NO_FUNDS\<close> when the final balance would
  be less than \<open>MIN_BALANCE\<close>, \<open>RC_TOO_HIGH\<close> when the destination's would be greater than
  \<open>MAX_BALANCE\<close>), and where the code answers or does something else.
\<close>

definition documented_transfer :: "nat \<Rightarrow> nat \<Rightarrow> nat \<Rightarrow> ledger \<Rightarrow> ret_code \<times> ledger" where
  "documented_transfer src dst x L =
     (case L dst of
        None \<Rightarrow> (RC_ID_NOT_FOUND, L)
      | Some y \<Rightarrow>
          if src = dst then (RC_SAME_ID, L)
          else if the (L src) \<le> x then (RC_NO_FUNDS, L)
          else if 1000000000 < y + x then (RC_TOO_HIGH, L)
          else (RC_OK, L(src \<mapsto> the (L src) - x, dst \<mapsto> y + x)))"

definition transfer_departure :: "nat \<Rightarrow> nat \<Rightarrow> nat \<Rightarrow> ledger \<Rightarrow> (ret_code \<times> ledger) option" where
  "transfer_departure src dst x L =
     (if dst = 0 then Some (RC_OTHER, L)
      else case L dst of
        None \<Rightarrow> Some (RC_ID_IN_USE, L)
      | Some y \<Rightarrow>
          (let s = the (L src) in
           if src = dst then Some (if 0 < x \<and> x \<le> s \<and> s + x \<le> 1000000000 then RC_OK else RC_NO_FUNDS, L)
           else if s < x \<or> s = 0 then None
           else if x = 0 \<or> x < s \<and> 1000000000 < y + x then Some (RC_NO_FUNDS, L)
           else if x = s \<and> y + x \<le> 1000000000 then Some (RC_OK, L(src \<mapsto> 0, dst \<mapsto> y + x))
           else None))"

lemma departure_differs:
  assumes "L 0 = None" and "transfer_departure src dst x L = Some r"
  shows "r \<noteq> documented_transfer src dst x L"
proof (cases "L dst")
  case None
  then show ?thesis using assms(2) by (auto simp: transfer_departure_def documented_transfer_def split: if_splits)
next
  case (Some y)
  then have "dst \<noteq> 0" using assms(1) by (metis option.distinct(1))
  then show ?thesis
    using assms(2) Some by (simp add: transfer_departure_def documented_transfer_def Let_def split: if_splits) auto
qed

lemma verdict_documented:
  assumes "bank_inv b" and "ledger b (unat i) = Some s" and "unat (trf_account_id t) < 4096"
    and "dst = unat (trf_account_id t)" and "x = unat (trf_amount t)"
  shows "(transfer_verdict i t b, if transfer_verdict i t b = RC_OK then ledger (moved i t b) else ledger b) =
    (case transfer_departure (unat i) dst x (ledger b) of
       None \<Rightarrow> documented_transfer (unat i) dst x (ledger b) | Some r \<Rightarrow> r)"
proof -
  have s: "unat (acc_balance (accounts b (unat i))) = s" using assms(2) by (auto dest: ledger_SomeD)
  have L0: "ledger b 0 = None" by (simp add: ledger_def)
  show ?thesis
  proof (cases "ledger b dst")
    case None
    have "transfer_verdict i t b = (if dst = 0 then RC_OTHER else RC_ID_IN_USE)"
    proof (cases "dst = 0")
      case False
      then have "trf_account_id t \<noteq> acc_account_id (accounts b dst)"
        using None assms(3,4) ledger_dom_iff [of "trf_account_id t" b] by simp
      with False show ?thesis unfolding transfer_verdict_def Let_def assms(4) [symmetric] by simp
    qed (simp add: transfer_verdict_def Let_def assms(4) [symmetric])
    then show ?thesis using None by (simp add: transfer_departure_def)
  next
    case (Some y)
    then have y: "0 < dst" "acc_account_id (accounts b dst) = trf_account_id t" "unat (acc_balance (accounts b dst)) = y"
      using assms(4) by (auto dest: ledger_SomeD)
    have v: "transfer_verdict i t b = (if x = 0 \<or> s < x \<or> 1000000000 < x + y then RC_NO_FUNDS else RC_OK)"
      using y s assms(4,5) by (simp add: transfer_verdict_def Let_def)
    have L: "ledger_transfer (unat i) dst x (ledger b) = Some (ledger (moved i t b))" if "transfer_verdict i t b = RC_OK"
      using moved_ledger [OF that] assms by simp
    show ?thesis
    proof (cases "transfer_verdict i t b = RC_OK")
      case True
      then have "ledger (moved i t b) = (if unat i = dst then ledger b else (ledger b)(unat i \<mapsto> s - x, dst \<mapsto> y + x))"
        using v L [OF True] Some assms(2) by (simp add: ledger_transfer_def add.commute split: if_splits)
      then show ?thesis
        using True v Some assms(2) y(1)
        by (simp add: transfer_departure_def documented_transfer_def add.commute split: if_splits)
    next
      case False
      then show ?thesis
        using v Some assms(2) y(1)
        by (auto simp: transfer_departure_def documented_transfer_def add.commute split: if_splits)
    qed
  qed
qed

text \<open>
  C2: A transfer does what types.h documents, except in the cases of transfer_departure. With
  the accounts in order, an open sender and a destination inside the array, create_user_transfer returns, nothing wraps
  around, and code and new ledger are the documented ones unless the destination is 0
  (RC_OTHER) or not open (RC_ID_IN_USE instead of RC_ID_NOT_FOUND), sender and destination are
  the same (RC_OK or RC_NO_FUNDS instead of RC_SAME_ID), the amount is 0 (RC_NO_FUNDS), the
  destination would pass MAX_BALANCE (RC_NO_FUNDS instead of RC_TOO_HIGH), or the sender would be left with
  nothing, less than MIN_BALANCE (accepted instead of RC_NO_FUNDS); in these cases it is the
  result named there, which is never the documented one.
\<close>

theorem transfer_refines_ledger:
  assumes "bank_inv b" and "ledger b (unat i) \<noteq> None" and "unat (trf_account_id t) < 4096"
    and "dst = unat (trf_account_id t)" and "x = unat (trf_amount t)"
  shows "\<exists>rv' b'. create_user_transfer i t rv b = Inr (rv', b') \<and>
    (case transfer_departure (unat i) dst x (ledger b) of
       None \<Rightarrow> (rhd_ret_code (rep_header rv'), ledger b') = documented_transfer (unat i) dst x (ledger b)
     | Some r \<Rightarrow> (rhd_ret_code (rep_header rv'), ledger b') = r \<and> r \<noteq> documented_transfer (unat i) dst x (ledger b)) \<and>
    (rhd_ret_code (rep_header rv') \<noteq> RC_OK \<longrightarrow> b' = b)"
proof -
  obtain s where s: "ledger b (unat i) = Some s" using assms(2) by blast
  have i: "unat i < 4096" using s by (auto dest: ledger_SomeD)
  have "ledger b 0 = None" by (simp add: ledger_def)
  note differs = departure_differs [where L = "ledger b", OF this]
  let ?v = "transfer_verdict i t b"
  obtain rv' b' where r: "create_user_transfer i t rv b = Inr (rv', b')" "rhd_ret_code (rep_header rv') = ?v"
    "b' = (if ?v = RC_OK then moved i t b else b)"
    using create_user_transfer_eq [OF assms(1) i assms(3), of rv] by (auto simp: Let_def set_code_def split: if_splits)
  have "(?v, ledger b') = (case transfer_departure (unat i) dst x (ledger b) of
      None \<Rightarrow> documented_transfer (unat i) dst x (ledger b) | Some r \<Rightarrow> r)"
    using verdict_documented [OF assms(1) s assms(3-5)] unfolding r(3) by (simp only: if_distrib [of ledger])
  then show ?thesis
    using r differs [of "unat i" dst x] by (intro exI [of _ rv'] exI [of _ b']) (auto split: option.splits)
qed

theorem transfer_refines_ledger_witness:
  "\<exists>rv' b'. create_user_transfer 1 \<lparr>trf_account_id = 2, trf_amount = 30\<rparr> (rep_val sample_reply) two_accounts = Inr (rv', b') \<and>
    ledger b' 1 = Some 470 \<and> ledger b' 2 = Some 50"
proof -
  have e: "transfer_departure (unat (1 :: u32)) 2 30 (ledger two_accounts) = None"
    and d: "documented_transfer (unat (1 :: u32)) 2 30 (ledger two_accounts) = (RC_OK, (ledger two_accounts)(1 \<mapsto> 470, 2 \<mapsto> 50))"
    by (simp_all add: transfer_departure_def documented_transfer_def)
  moreover have "bank_inv two_accounts" "ledger two_accounts (unat (1 :: u32)) \<noteq> None"
    "unat (trf_account_id \<lparr>trf_account_id = 2, trf_amount = 30\<rparr>) < 4096"
    "2 = unat (trf_account_id \<lparr>trf_account_id = 2, trf_amount = 30\<rparr>)"
    "30 = unat (trf_amount \<lparr>trf_account_id = 2, trf_amount = 30\<rparr>)" by simp_all
  note transfer_refines_ledger [OF this, of "rep_val sample_reply"]
  ultimately obtain rv' b' where r: "create_user_transfer 1 \<lparr>trf_account_id = 2, trf_amount = 30\<rparr> (rep_val sample_reply) two_accounts = Inr (rv', b')"
    "(rhd_ret_code (rep_header rv'), ledger b') = (RC_OK, (ledger two_accounts)(1 \<mapsto> 470, 2 \<mapsto> 50))"
    unfolding d by (elim exE conjE) (simp only: option.case)
  then have "ledger b' = (ledger two_accounts)(1 \<mapsto> 470, 2 \<mapsto> 50)" by blast
  then have "ledger b' 1 = Some 470" "ledger b' 2 = Some 50" by (simp_all only: fun_upd_apply) simp_all
  with r(1) show ?thesis by blast
qed

text \<open>
  C3: Transfers neither create nor destroy money: whatever create_user_transfer replies,
  the sum of all 4096 balances, taken without wrap-around, is the same as before, the
  invariant of the array is kept, and no account other than sender and destination changes.
\<close>

theorem transfer_conserves_funds:
  assumes "create_user_transfer i t rv b = Inr (rv', b')" and "bank_inv b" and "ledger b (unat i) \<noteq> None"
  shows "total_funds b' = total_funds b \<and> bank_inv b' \<and>
    (\<forall>k. k \<noteq> unat i \<and> k \<noteq> unat (trf_account_id t) \<longrightarrow> accounts b' k = accounts b k)"
proof -
  have i: "unat i < 4096" using assms(3) by (auto dest: ledger_SomeD)
  have dst: "unat (trf_account_id t) < 4096"
    using assms(1) by (auto simp: create_user_transfer_def bind_res_eq_Inr account_at_eq_Inr index_less_iff Let_def)
  show ?thesis
  proof (cases "transfer_verdict i t b = RC_OK")
    case True
    then have "b' = moved i t b"
      using assms(1) create_user_transfer_eq [OF assms(2) i dst, of rv] by (simp add: Let_def)
    then show ?thesis
      using moved_funds [OF True i dst] moved_inv [OF assms(2) True assms(3) dst] moved_other by simp
  next
    case False
    then have "b' = b"
      using assms(1) create_user_transfer_eq [OF assms(2) i dst, of rv] by (simp add: Let_def)
    then show ?thesis using assms(2) by simp
  qed
qed

theorem transfer_conserves_funds_witness:
  "\<exists>rv' b'. create_user_transfer 1 \<lparr>trf_account_id = 2, trf_amount = 30\<rparr> (rep_val sample_reply) two_accounts = Inr (rv', b') \<and>
    total_funds b' = total_funds two_accounts \<and> b' \<noteq> two_accounts"
proof -
  let ?t = "\<lparr>trf_account_id = 2, trf_amount = 30\<rparr>"
  have "transfer_verdict 1 ?t two_accounts = RC_OK"
    by (simp add: transfer_verdict_def two_accounts_def)
  then obtain rv' where r: "create_user_transfer 1 ?t (rep_val sample_reply) two_accounts = Inr (rv', moved 1 ?t two_accounts)"
    using create_user_transfer_eq [of two_accounts 1 ?t "rep_val sample_reply"] by (simp add: Let_def)
  have "acc_balance (accounts (moved 1 ?t two_accounts) 1) \<noteq> acc_balance (accounts two_accounts 1)"
    by (simp add: moved_def two_accounts_def)
  then show ?thesis using r transfer_conserves_funds [OF r] by auto
qed

text \<open>
  The destination's balance is read before its id is checked: the transfer indexes the
  4096 accounts with the id of the request as it came. It leaves the array exactly for ids
  of 4096 and more, and in no other case; the range check RC_OTHER that follows is reached
  by id 0 only.
\<close>

theorem transfer_bounds:
  assumes "bank_inv b" and "unat i < 4096"
  shows "(create_user_transfer i t rv b = Inl (Undefined OutOfBounds) \<longleftrightarrow> 4096 \<le> unat (trf_account_id t)) \<and>
    (returns (create_user_transfer i t rv b) \<longleftrightarrow> unat (trf_account_id t) < 4096) \<and>
    (\<forall>rv' b'. create_user_transfer i t rv b = Inr (rv', b') \<longrightarrow>
       (rhd_ret_code (rep_header rv') = RC_OTHER \<longleftrightarrow> trf_account_id t = 0))"
proof (cases "unat (trf_account_id t) < 4096")
  case True
  have "transfer_verdict i t b = RC_OTHER \<longleftrightarrow> trf_account_id t = 0"
    by (auto simp: transfer_verdict_def Let_def word_unat_eq_iff)
  with True show ?thesis
    using create_user_transfer_eq [OF assms True, of rv] by (auto simp: Let_def returns_iff split: if_splits)
next
  case False
  then show ?thesis
    by (simp add: create_user_transfer_def account_at_out index_less_iff Let_def)
qed

theorem transfer_bounds_witness:
  "create_user_transfer 1 \<lparr>trf_account_id = 4096, trf_amount = 30\<rparr> (rep_val sample_reply) two_accounts = Inl (Undefined OutOfBounds)"
  using transfer_bounds [of two_accounts 1 "\<lparr>trf_account_id = 4096, trf_amount = 30\<rparr>" "rep_val sample_reply"] by simp

text \<open>
  What a transfer answers. An accepted transfer returns the sender's new balance; every
  refused one returns the balance of the destination it names. The only codes are RC_OK,
  RC_OTHER, RC_ID_IN_USE for a destination that is not open, and RC_NO_FUNDS for an
  uncovered amount and for a destination that would pass MAX_BALANCE: RC_ID_NOT_FOUND,
  RC_SAME_ID and RC_TOO_HIGH of types.h are never used here.
\<close>

theorem transfer_reply:
  assumes "create_user_transfer i t rv b = Inr (rv', b')" and "bank_inv b" and "unat i < 4096"
  shows "let c = rhd_ret_code (rep_header rv'); dst = unat (trf_account_id t) in
    c \<in> {RC_OK, RC_OTHER, RC_ID_IN_USE, RC_NO_FUNDS} \<and>
    rep_word rv' = (if c = RC_OK then acc_balance (accounts b' (unat i)) else acc_balance (accounts b dst)) \<and>
    (0 < dst \<and> ledger b dst = None \<longrightarrow> c = RC_ID_IN_USE) \<and>
    (0 < dst \<and> ledger b dst \<noteq> None \<and> 1000000000 < unat (trf_amount t) + the (ledger b dst) \<longrightarrow> c = RC_NO_FUNDS)"
proof -
  have dst: "unat (trf_account_id t) < 4096"
    using assms(1) by (auto simp: create_user_transfer_def bind_res_eq_Inr account_at_eq_Inr index_less_iff Let_def)
  let ?c = "transfer_verdict i t b"
  have eq: "rhd_ret_code (rep_header rv') = ?c"
    "rep_word rv' = (if ?c = RC_OK then acc_balance (accounts b' (unat i)) else acc_balance (accounts b (unat (trf_account_id t))))"
    using assms(1) create_user_transfer_eq [OF assms(2,3) dst, of rv]
    by (auto simp: Let_def set_code_def split: if_splits)
  have "0 < unat (trf_account_id t) \<and> ledger b (unat (trf_account_id t)) = None \<Longrightarrow> ?c = RC_ID_IN_USE"
    using dst ledger_dom_iff [of "trf_account_id t" b] by (auto simp: transfer_verdict_def Let_def)
  moreover have "?c = RC_NO_FUNDS" if room: "ledger b (unat (trf_account_id t)) \<noteq> None"
    "1000000000 < unat (trf_amount t) + the (ledger b (unat (trf_account_id t)))"
  proof -
    obtain y where y: "ledger b (unat (trf_account_id t)) = Some y" using room(1) by blast
    from ledger_SomeD [OF y] room(2) y show ?thesis by (auto simp: transfer_verdict_def Let_def)
  qed
  ultimately show ?thesis
    unfolding Let_def eq using transfer_verdict_cases [of i t b] by auto
qed

theorem transfer_reply_witness:
  "\<exists>rv' b'. create_user_transfer 1 \<lparr>trf_account_id = 2, trf_amount = 501\<rparr> (rep_val sample_reply) two_accounts = Inr (rv', b') \<and>
    rhd_ret_code (rep_header rv') = RC_NO_FUNDS \<and> rep_word rv' = 20"
proof -
  let ?t = "\<lparr>trf_account_id = 2, trf_amount = 501\<rparr>"
  have "transfer_verdict 1 ?t two_accounts = RC_NO_FUNDS"
    by (simp add: transfer_verdict_def two_accounts_def)
  then obtain rv' where r: "create_user_transfer 1 ?t (rep_val sample_reply) two_accounts = Inr (rv', two_accounts)"
    "rhd_ret_code (rep_header rv') = RC_NO_FUNDS"
    using create_user_transfer_eq [of two_accounts 1 ?t "rep_val sample_reply"] by (simp add: Let_def)
  have "acc_balance (accounts two_accounts 2) = 20" by (simp add: two_accounts_def)
  then show ?thesis using r transfer_reply [OF r(1)] by (auto simp: Let_def)
qed

text \<open>
  The sender's remaining balance is not checked. A transfer of a sender's whole balance
  to another open account with room for it is accepted and leaves 0, below the MIN_BALANCE
  that account creation enforces; a transfer of any covered amount to oneself is accepted
  and changes nothing.
\<close>

theorem transfer_can_empty_account:
  assumes "bank_inv b" and "ledger b (unat i) = Some x" and "0 < x" and "ledger b (unat j) = Some y"
    and "x + y \<le> 1000000000"
  shows "\<exists>rv' b'. create_user_transfer i \<lparr>trf_account_id = j, trf_amount = of_nat x\<rparr> rv b = Inr (rv', b') \<and>
    rhd_ret_code (rep_header rv') = RC_OK \<and>
    (if i = j then b' = b else ledger b' = (ledger b)(unat i \<mapsto> 0, unat j \<mapsto> x + y))"
proof -
  let ?t = "\<lparr>trf_account_id = j, trf_amount = of_nat x :: u32\<rparr>"
  have i: "unat i < 4096" "x = unat (acc_balance (accounts b (unat i)))"
    and j: "unat j < 4096" "0 < unat j" "acc_account_id (accounts b (unat j)) = j"
      "y = unat (acc_balance (accounts b (unat j)))"
    using assms(2,4) by (auto dest: ledger_SomeD)
  have x: "unat (of_nat x :: u32) = x" using assms(5) by (intro unat_of_nat_u32) simp
  have v: "transfer_verdict i ?t b = RC_OK"
    using i j x assms(3,5) by (simp add: transfer_verdict_OK)
  have L: "ledger_transfer (unat i) (unat j) x (ledger b) = Some (ledger (moved i ?t b))"
    using moved_ledger [OF v] assms(2) j x by simp
  have "i = j \<Longrightarrow> moved i ?t b = b" using moved_self by simp
  moreover have "i \<noteq> j \<Longrightarrow> ledger (moved i ?t b) = (ledger b)(unat i \<mapsto> 0, unat j \<mapsto> x + y)"
    using L assms(2-5) by (auto simp: ledger_transfer_def word_unat_eq_iff add.commute)
  moreover have "\<exists>rv'. create_user_transfer i ?t rv b = Inr (rv', moved i ?t b) \<and>
      rhd_ret_code (rep_header rv') = RC_OK"
    using create_user_transfer_eq [OF assms(1) i(1), of ?t rv] j v by (simp add: Let_def)
  ultimately show ?thesis by auto
qed

theorem transfer_can_empty_account_witness:
  "\<exists>rv' b'. create_user_transfer 1 \<lparr>trf_account_id = 2, trf_amount = 500\<rparr> (rep_val sample_reply) two_accounts = Inr (rv', b') \<and>
    rhd_ret_code (rep_header rv') = RC_OK \<and> ledger b' 1 = Some 0"
  using transfer_can_empty_account [of two_accounts 1 500 2 20 "rep_val sample_reply"] by auto

end
