(* ===== verification/Credentials.thy ===== *)
theory Credentials
  imports Accounts
begin

text \<open>
  Passwords, hashes and account creation of \<open>server.c\<close>. \<open>sh\<close> is the shell that \<open>popen\<close>
  starts, \<open>rnd\<close> gives the values of successive calls of \<open>rand\<close>. The line read into
  \<open>char hash[HASH_LEN + 4]\<close> needs one byte more than the array has
  (\<open>hash_buffer_overflow\<close> in \<open>Bank_Properties\<close>), so that whatever comes after a hash is
  about a server with an unused byte behind the array.
\<close>

section \<open>Hashes\<close>

text \<open>
  What a command prints, and the number of bytes the compiler leaves unused behind the array
  \<open>hash\<close>; the language promises none.
\<close>

record shell =
  sh_output :: "string \<Rightarrow> string"
  sh_spare :: nat

text \<open>
  The command line is built in an array of \<open>MAX_PASSWORD_LEN + SALT_LEN + 24\<close> bytes that
  starts with the text of \<open>echo\<close>. The lines the command prints are read over each other.
\<close>

definition COMMAND_SIZE :: nat where
  "COMMAND_SIZE = MAX_PASSWORD_LEN + SALT_LEN + 24"

definition REQ_HASH_SIZE :: nat where
  "REQ_HASH_SIZE = MAX_PASSWORD_LEN + SALT_LEN + 1"

definition HASH_BUFFER_SIZE :: nat where
  "HASH_BUFFER_SIZE = HASH_LEN + 4"

definition hash_command :: "string \<Rightarrow> string \<Rightarrow> string \<Rightarrow> string \<Rightarrow> string res" where
  "hash_command start password salt end_part =
     bind_res (strcat COMMAND_SIZE start password) (\<lambda>c.
     bind_res (strcat COMMAND_SIZE c salt) (\<lambda>c.
     strcat COMMAND_SIZE c end_part))"

definition echo_quoted :: "string \<Rightarrow> string \<Rightarrow> string res" where
  "echo_quoted password salt =
     hash_command (''echo -n '' @ [CHR 0x22]) password salt ([CHR 0x22] @ '' | sha256sum'')"

definition echo_plain :: "string \<Rightarrow> string \<Rightarrow> string res" where
  "echo_plain password salt = hash_command ''echo -n '' password salt '' | sha256sum''"

text \<open>\<open>while (fgets (hash, 10000, f) != NULL);\<close>\<close>

definition popen_line :: "shell \<Rightarrow> string \<Rightarrow> string res" where
  "popen_line sh command = read_lines (HASH_BUFFER_SIZE + sh_spare sh) 9998 None (sh_output sh command)"

text \<open>\<open>strcpy (dst, strtok (hash, " "))\<close> into an array of \<open>n\<close> bytes.\<close>

definition copy_token :: "nat \<Rightarrow> string \<Rightarrow> string res" where
  "copy_token n hash =
     (case strtok '' '' hash of
        None \<Rightarrow> Inl (Undefined NullDeref)
      | Some (tok, _) \<Rightarrow> strcpy n tok)"

section \<open>Validation\<close>

text \<open>
  The common tail of both validations: the hash of the given password with the account's
  salt against the stored hash. The result is what the function returns (1 is \<open>True\<close>) and
  the header of the reply.
\<close>

definition check_password :: "shell \<Rightarrow> bank_account \<Rightarrow> req_header \<Rightarrow> rep_value \<Rightarrow>
    (bool \<times> rep_value) res" where
  "check_password sh account req_header rv =
     bind_res (echo_quoted (hdr_password req_header) (acc_salt account)) (\<lambda>command.
     bind_res (popen_line sh command) (\<lambda>hash.
     bind_res (copy_token REQ_HASH_SIZE hash) (\<lambda>req_hash.
       if req_hash \<noteq> acc_hash account then Inr (False, set_code RC_LOGIN_FAIL rv)
       else Inr (True, set_code RC_OK rv))))"

definition validate_user :: "shell \<Rightarrow> bank \<Rightarrow> req_header \<Rightarrow> rep_value \<Rightarrow>
    (bool \<times> rep_value) res" where
  "validate_user sh b req_header rv =
     (if is_admin (hdr_account_id req_header) then Inr (False, set_code RC_OP_NALLOW rv)
      else if \<not> between 1 (hdr_account_id req_header) MAX_BANK_ACCOUNTS
      then Inr (False, set_code RC_OTHER rv)
      else bind_res (account_at b (hdr_account_id req_header)) (\<lambda>account.
        if hdr_account_id req_header \<noteq> acc_account_id account
        then Inr (False, set_code RC_ID_NOT_FOUND rv)
        else check_password sh account req_header rv))"

definition validate_admin :: "shell \<Rightarrow> bank \<Rightarrow> req_header \<Rightarrow> rep_value \<Rightarrow>
    (bool \<times> rep_value) res" where
  "validate_admin sh b req_header rv =
     (if \<not> is_admin (hdr_account_id req_header) then Inr (False, set_code RC_OP_NALLOW rv)
      else bind_res (account_at b (hdr_account_id req_header)) (\<lambda>account.
        check_password sh account req_header rv))"

section \<open>Creating accounts\<close>

definition create_admin_account :: "shell \<Rightarrow> (nat \<Rightarrow> nat) \<Rightarrow> string \<Rightarrow> bank \<Rightarrow> bank res" where
  "create_admin_account sh rnd password b =
     (let password_length = length password in
      if \<not> between MIN_PASSWORD_LEN password_length MAX_PASSWORD_LEN then Inl (Exit 1)
      else let password = strtok_buffer '' '' password in
      if length password \<noteq> password_length then Inl (Exit 1)
      else let (salt, pos) = rand_string rnd (rand_pos b) [] SALT_LEN in
      bind_res (account_at b ADMIN_ACCOUNT_ID) (\<lambda>a.
      bind_res (strcpy (SALT_LEN + 1) salt) (\<lambda>acc_salt'.
      bind_res (echo_quoted password salt) (\<lambda>command.
      bind_res (popen_line sh command) (\<lambda>hash.
      bind_res (copy_token (HASH_LEN + 1) hash) (\<lambda>acc_hash'.
        Inr ((set_account ADMIN_ACCOUNT_ID
          (a\<lparr>acc_account_id := ADMIN_ACCOUNT_ID, acc_balance := 0,
             acc_salt := acc_salt', acc_hash := acc_hash'\<rparr>) b)\<lparr>rand_pos := pos\<rparr>)))))))"

text \<open>
  The result of \<open>create_user_account\<close>: the returned number (1, \<open>True\<close>, on every error
  and 0, \<open>False\<close>, when the account was created), the reply and the bank.
\<close>

definition create_user_account :: "shell \<Rightarrow> (nat \<Rightarrow> nat) \<Rightarrow> req_create_account \<Rightarrow>
    rep_value \<Rightarrow> bank \<Rightarrow> (bool \<times> rep_value \<times> bank) res" where
  "create_user_account sh rnd create rv b =
     (let i = crt_account_id create; password = crt_password create in
      if \<not> between 1 i MAX_BANK_ACCOUNTS then Inr (True, set_code RC_OTHER rv, b)
      else bind_res (account_at b i) (\<lambda>a.
      if i = acc_account_id a then Inr (True, set_code RC_ID_IN_USE rv, b)
      else if \<not> between MIN_BALANCE (ucast (crt_balance create)) MAX_BALANCE
      then Inr (True, set_code RC_OTHER rv, b)
      else let password_length = length password in
      if \<not> between MIN_PASSWORD_LEN password_length MAX_PASSWORD_LEN
      then Inr (True, set_code RC_OTHER rv, b)
      else if CHR '' '' \<in> set password then Inr (True, set_code RC_OTHER rv, b)
      else let (salt, pos) = rand_string rnd (rand_pos b) [] SALT_LEN in
      bind_res (strcpy (SALT_LEN + 1) salt) (\<lambda>acc_salt'.
      bind_res (echo_plain password salt) (\<lambda>command.
      bind_res (popen_line sh command) (\<lambda>hash.
      bind_res (strcpy (HASH_LEN + 1) (strtok_buffer '' '' hash)) (\<lambda>acc_hash'.
        Inr (False, set_code RC_OK rv,
          (set_account i
            (a\<lparr>acc_account_id := i, acc_balance := crt_balance create,
               acc_salt := acc_salt', acc_hash := acc_hash'\<rparr>) b)\<lparr>rand_pos := pos\<rparr>)))))))"

section \<open>Commands and hashes\<close>

text \<open>
  What the program relies on: for a word of letters and digits, quoted or not, \<open>echo -n\<close>
  piped into \<open>sha256sum\<close> prints one line, the 64 hexadecimal digits of the digest, two
  spaces, a dash and a newline.
\<close>

definition sha256_line :: "string \<Rightarrow> string" where
  "sha256_line d = d @ ''  -'' @ [newline]"

definition quoted_command :: "string \<Rightarrow> string" where
  "quoted_command s = ''echo -n '' @ [CHR 0x22] @ s @ [CHR 0x22] @ '' | sha256sum''"

definition plain_command :: "string \<Rightarrow> string" where
  "plain_command s = ''echo -n '' @ s @ '' | sha256sum''"

definition sha256_output :: "(string \<Rightarrow> string) \<Rightarrow> (string \<Rightarrow> string) \<Rightarrow> bool" where
  "sha256_output run digest \<longleftrightarrow>
     (\<forall>s. alnum s \<longrightarrow>
        length (digest s) = 64 \<and> alnum (digest s) \<and>
        run (quoted_command s) = sha256_line (digest s) \<and>
        run (plain_command s) = sha256_line (digest s))"

text \<open>The shell prints that, and there is a byte behind \<open>hash\<close> for the terminator of the line.\<close>

definition sha256_shell :: "shell \<Rightarrow> (string \<Rightarrow> string) \<Rightarrow> bool" where
  "sha256_shell sh digest \<longleftrightarrow> sha256_output (sh_output sh) digest \<and> 1 \<le> sh_spare sh"

lemma sha256_outputD:
  assumes "sha256_output run digest" and "alnum s"
  shows "length (digest s) = 64" "alnum (digest s)"
    "run (quoted_command s) = sha256_line (digest s)"
    "run (plain_command s) = sha256_line (digest s)"
  using assms by (auto simp: sha256_output_def)

lemma sha256_shellD:
  assumes "sha256_shell sh digest" and "alnum s"
  shows "length (digest s) = 64" "alnum (digest s)"
    "sh_output sh (quoted_command s) = sha256_line (digest s)"
    "sh_output sh (plain_command s) = sha256_line (digest s)" "1 \<le> sh_spare sh"
  using assms sha256_outputD by (auto simp: sha256_shell_def)

lemma popen_line_eq:
  assumes "sh_output sh cmd = sha256_line d" and "length d = 64" and "alnum d"
  shows "popen_line sh cmd = (if 1 \<le> sh_spare sh then Inr (sha256_line d) else Inl (Undefined BufferOverflow))"
  using read_lines_one [of "d @ ''  -''" 9998 "HASH_BUFFER_SIZE + sh_spare sh" None] assms alnum_chars [of d]
  by (auto simp: popen_line_def sha256_line_def HASH_BUFFER_SIZE_def HASH_LEN_def)

lemma popen_sha256:
  "sh_output sh cmd = sha256_line d \<Longrightarrow> length d = 64 \<Longrightarrow> alnum d \<Longrightarrow> 1 \<le> sh_spare sh \<Longrightarrow>
    popen_line sh cmd = Inr (sha256_line d)"
  by (simp add: popen_line_eq)

lemma sha256_tokens:
  assumes "length d = 64" and "alnum d"
  shows "copy_token n (sha256_line d) = strcpy n d" "strtok_buffer '' '' (sha256_line d) = d"
proof -
  have d: "d \<noteq> []" "set d \<inter> set '' '' = {}" using assms alnum_chars [of d] by auto
  have line: "sha256_line d = d @ CHR '' '' # '' -'' @ [newline]" by (simp add: sha256_line_def)
  show "copy_token n (sha256_line d) = strcpy n d"
    unfolding copy_token_def line by (subst strtok_token) (use d in simp_all)
  show "strtok_buffer '' '' (sha256_line d) = d"
    unfolding line by (rule strtok_buffer_token) (use d in simp_all)
qed

text \<open>Passwords and salts of the lengths in use fit the command array.\<close>

lemma echo_fits:
  assumes "length p \<le> MAX_PASSWORD_LEN" and "length salt < SALT_LEN"
  shows "echo_quoted p salt = Inr (quoted_command (p @ salt))"
    and "echo_plain p salt = Inr (plain_command (p @ salt))"
  using assms
  by (simp_all add: echo_quoted_def echo_plain_def hash_command_def COMMAND_SIZE_def
      MAX_PASSWORD_LEN_def SALT_LEN_def strcat_fits quoted_command_def plain_command_def)

lemma check_password_eq:
  assumes "sha256_shell sh digest" and "alnum (hdr_password h)" and "alnum (acc_salt a)"
    and "length (hdr_password h) \<le> MAX_PASSWORD_LEN" and "length (acc_salt a) < SALT_LEN"
  shows "check_password sh a h rv =
    Inr (if digest (hdr_password h @ acc_salt a) = acc_hash a
         then (True, set_code RC_OK rv) else (False, set_code RC_LOGIN_FAIL rv))"
proof -
  let ?s = "hdr_password h @ acc_salt a"
  have al: "alnum ?s" using assms(2,3) by simp
  note d = sha256_shellD [OF assms(1) al]
  have "copy_token REQ_HASH_SIZE (sha256_line (digest ?s)) = Inr (digest ?s)"
    using d(1) by (simp add: sha256_tokens(1) [OF d(1,2)] REQ_HASH_SIZE_def MAX_PASSWORD_LEN_def SALT_LEN_def)
  moreover have "popen_line sh (quoted_command ?s) = Inr (sha256_line (digest ?s))"
    by (rule popen_sha256) (use d in auto)
  ultimately show ?thesis
    unfolding check_password_def echo_fits(1) [OF assms(4,5)] by auto
qed

section \<open>Account creation\<close>

text \<open>The verdict of the checks of \<open>create_user_account\<close>, and the account it stores.\<close>

definition create_verdict :: "req_create_account \<Rightarrow> bank \<Rightarrow> ret_code" where
  "create_verdict create b =
     (let k = unat (crt_account_id create) in
      if k = 0 \<or> 4096 < k then RC_OTHER
      else if crt_account_id create = acc_account_id (accounts b k) then RC_ID_IN_USE
      else if unat (crt_balance create) = 0 \<or> 1000000000 < unat (crt_balance create) then RC_OTHER
      else if length (crt_password create) < 8 \<or> 20 < length (crt_password create) then RC_OTHER
      else if CHR '' '' \<in> set (crt_password create) then RC_OTHER
      else RC_OK)"

definition created :: "req_create_account \<Rightarrow> string \<Rightarrow> string \<Rightarrow> nat \<Rightarrow> bank \<Rightarrow> bank" where
  "created create salt hash pos b =
     (set_account (crt_account_id create)
       ((accounts b (unat (crt_account_id create)))
          \<lparr>acc_account_id := crt_account_id create, acc_balance := crt_balance create,
           acc_salt := salt, acc_hash := hash\<rparr>) b)\<lparr>rand_pos := pos\<rparr>"

definition new_salt :: "(nat \<Rightarrow> nat) \<Rightarrow> bank \<Rightarrow> string" where
  "new_salt rnd b = fst (rand_string rnd (rand_pos b) [] SALT_LEN)"

lemma rand_string_salt: "rand_string rnd (rand_pos b) [] SALT_LEN = (new_salt rnd b, rand_pos b + 63)"
  by (simp add: new_salt_def rand_string_eq SALT_LEN_def)

lemma new_salt [simp]: "length (new_salt rnd b) = 63" "alnum (new_salt rnd b)"
  by (simp_all add: new_salt_def length_rand_string alnum_rand_string SALT_LEN_def)

lemma password_between_iff: "between MIN_PASSWORD_LEN n MAX_PASSWORD_LEN \<longleftrightarrow> \<not> (n < 8 \<or> 20 < n)"
  by (auto simp: between_def MIN_PASSWORD_LEN_def MAX_PASSWORD_LEN_def)

lemma create_user_account_eq:
  assumes "crt_account_id create \<noteq> MAX_BANK_ACCOUNTS"
  shows "create_user_account sh rnd create rv b =
    (let c = create_verdict create b in
     if c \<noteq> RC_OK then Inr (True, set_code c rv, b)
     else bind_res (echo_plain (crt_password create) (new_salt rnd b)) (\<lambda>command.
          bind_res (popen_line sh command) (\<lambda>hash.
          bind_res (strcpy (HASH_LEN + 1) (strtok_buffer '' '' hash)) (\<lambda>h.
            Inr (False, set_code RC_OK rv, created create (new_salt rnd b) h (rand_pos b + 63) b)))))"
proof -
  let ?i = "crt_account_id create"
  have ne: "unat ?i \<noteq> 4096" using assms by (simp add: MAX_BANK_ACCOUNTS_def word_unat_eq_iff)
  show ?thesis
  proof (cases "unat ?i = 0 \<or> 4096 < unat ?i")
    case True
    then have "\<not> between 1 ?i MAX_BANK_ACCOUNTS" by (auto simp: index_le_iff)
    with True show ?thesis by (auto simp: create_user_account_def create_verdict_def)
  next
    case False
    with ne have "?i < MAX_BANK_ACCOUNTS" "between 1 ?i MAX_BANK_ACCOUNTS"
      by (simp_all add: index_less_iff index_le_iff)
    moreover have salt: "strcpy (SALT_LEN + 1) (new_salt rnd b) = Inr (new_salt rnd b)"
      by (simp add: SALT_LEN_def)
    ultimately show ?thesis
      using False unfolding create_user_account_def create_verdict_def created_def Let_def
        balance_between_iff password_between_iff rand_string_salt
      by (simp add: salt del: One_nat_def add_Suc_right)
  qed
qed

lemma create_verdict_OK:
  "create_verdict create b = RC_OK \<longleftrightarrow>
     0 < unat (crt_account_id create) \<and> unat (crt_account_id create) \<le> 4096 \<and>
     crt_account_id create \<noteq> acc_account_id (accounts b (unat (crt_account_id create))) \<and>
     0 < unat (crt_balance create) \<and> unat (crt_balance create) \<le> 1000000000 \<and>
     8 \<le> length (crt_password create) \<and> length (crt_password create) \<le> 20 \<and>
     CHR '' '' \<notin> set (crt_password create)"
  by (auto simp: create_verdict_def Let_def)

lemma create_verdict_cases: "create_verdict create b \<in> {RC_OTHER, RC_ID_IN_USE, RC_OK}"
  by (simp add: create_verdict_def Let_def)

text \<open>The one id the range check lets through although the array has no such element.\<close>

lemma create_user_account_4096:
  "crt_account_id create = MAX_BANK_ACCOUNTS \<Longrightarrow>
    create_user_account sh rnd create rv b = Inl (Undefined OutOfBounds)"
  by (simp add: create_user_account_def account_at_def between_def MAX_BANK_ACCOUNTS_def)

lemma created_simps [simp]:
  "accounts (created create salt h pos b) (unat (crt_account_id create)) =
     (accounts b (unat (crt_account_id create)))
       \<lparr>acc_account_id := crt_account_id create, acc_balance := crt_balance create,
        acc_salt := salt, acc_hash := h\<rparr>"
  "k \<noteq> unat (crt_account_id create) \<Longrightarrow> accounts (created create salt h pos b) k = accounts b k"
  by (simp_all add: created_def)

lemma created_effect:
  assumes "bank_inv b" and "create_verdict create b = RC_OK" and "unat (crt_account_id create) < 4096"
  shows "bank_inv (created create salt h pos b)"
    and "total_funds (created create salt h pos b) = total_funds b + unat (crt_balance create)"
    and "ledger_open (unat (crt_account_id create)) (unat (crt_balance create)) (ledger b) =
      Some (ledger (created create salt h pos b))"
proof -
  let ?k = "unat (crt_account_id create)"
  note v = assms(2) [unfolded create_verdict_OK]
  have unused: "unat (acc_balance (accounts b ?k)) = 0"
    using bank_invD [OF assms(1,3)] v by (auto simp: account_ok_def)
  show "bank_inv (created create salt h pos b)"
    unfolding created_def bank_inv_frame
    by (rule bank_inv_set [OF assms(1)]) (use v in \<open>simp add: account_ok_def\<close>)
  show "total_funds (created create salt h pos b) = total_funds b + unat (crt_balance create)"
    unfolding created_def total_funds_frame using total_funds_set [OF assms(3), of _ b] unused by simp
  have "ledger b ?k = None" using v assms(3) ledger_dom_iff [of "crt_account_id create" b] by auto
  then show "ledger_open ?k (unat (crt_balance create)) (ledger b) = Some (ledger (created create salt h pos b))"
    unfolding created_def ledger_frame using v assms(3) by (simp add: ledger_set ledger_open_def)
qed

lemma create_user_account_Inr:
  assumes "create_user_account sh rnd create rv b = Inr (failed, rv', b')"
  obtains
    (refused) "create_verdict create b \<noteq> RC_OK" "failed" "b' = b" "rv' = set_code (create_verdict create b) rv"
  | (stored) h where "create_verdict create b = RC_OK" "\<not> failed" "rv' = set_code RC_OK rv"
      "b' = created create (new_salt rnd b) h (rand_pos b + 63) b" "unat (crt_account_id create) < 4096"
proof -
  have ne: "crt_account_id create \<noteq> MAX_BANK_ACCOUNTS"
    using assms create_user_account_4096 by fastforce
  have le: "unat (crt_account_id create) < 4096" if "create_verdict create b = RC_OK"
    using that ne by (auto simp: create_verdict_OK MAX_BANK_ACCOUNTS_def word_unat_eq_iff)
  from assms show thesis
    unfolding create_user_account_eq [OF ne]
    using refused stored le by (auto simp: Let_def bind_res_eq_Inr split: if_splits)
qed

lemma create_user_account_stores:
  assumes "sha256_shell sh digest" and "alnum (crt_password create)"
    and "create_verdict create b = RC_OK" and "unat (crt_account_id create) < 4096"
  shows "create_user_account sh rnd create rv b =
    Inr (False, set_code RC_OK rv,
      created create (new_salt rnd b) (digest (crt_password create @ new_salt rnd b)) (rand_pos b + 63) b)"
proof -
  let ?s = "crt_password create @ new_salt rnd b"
  note d = sha256_shellD [OF assms(1), of ?s]
  have al: "alnum ?s" using assms(2) by simp
  have fits: "echo_plain (crt_password create) (new_salt rnd b) = Inr (plain_command ?s)"
    using assms(3) by (intro echo_fits) (simp_all add: create_verdict_OK MAX_PASSWORD_LEN_def SALT_LEN_def)
  have "popen_line sh (plain_command ?s) = Inr (sha256_line (digest ?s))"
    by (rule popen_sha256) (use d al in auto)
  moreover have "strcpy (HASH_LEN + 1) (strtok_buffer '' '' (sha256_line (digest ?s))) = Inr (digest ?s)"
    using sha256_tokens(2) [OF d(1) [OF al] d(2) [OF al]] d(1) [OF al] by (simp add: HASH_LEN_def)
  moreover have "crt_account_id create \<noteq> MAX_BANK_ACCOUNTS"
    using assms(4) by (auto simp: MAX_BANK_ACCOUNTS_def)
  ultimately show ?thesis using assms(3) fits by (simp add: create_user_account_eq Let_def)
qed

section \<open>The administrator's account\<close>

definition admin_account :: "string \<Rightarrow> string \<Rightarrow> bank_account \<Rightarrow> bank_account" where
  "admin_account salt hash a =
     a\<lparr>acc_account_id := ADMIN_ACCOUNT_ID, acc_balance := 0, acc_salt := salt, acc_hash := hash\<rparr>"

lemma strtok_buffer_alnum:
  assumes "alnum p"
  shows "strtok_buffer '' '' p = p"
proof -
  have "takeWhile (\<lambda>c. c \<in> set '' '') p = []" "dropWhile (\<lambda>c. c \<in> set '' '') p = p"
    using alnum_chars [OF assms] by (cases p; auto)+
  then show ?thesis using alnum_chars [OF assms] by (auto simp: strtok_buffer_def)
qed

lemma create_admin_account_eq:
  assumes "sha256_shell sh digest" and "alnum p" and "8 \<le> length p" and "length p \<le> 20"
  shows "create_admin_account sh rnd p b =
    Inr ((set_account ADMIN_ACCOUNT_ID
      (admin_account (new_salt rnd b) (digest (p @ new_salt rnd b)) (accounts b 0)) b)
        \<lparr>rand_pos := rand_pos b + 63\<rparr>)"
proof -
  let ?s = "p @ new_salt rnd b"
  note d = sha256_shellD [OF assms(1), of ?s]
  have al: "alnum ?s" using assms(2) by simp
  have buf: "strtok_buffer '' '' p = p" using assms(2) by (rule strtok_buffer_alnum)
  have at: "account_at b ADMIN_ACCOUNT_ID = Inr (accounts b 0)"
    by (simp add: ADMIN_ACCOUNT_ID_def MAX_BANK_ACCOUNTS_def)
  have fits: "echo_quoted p (new_salt rnd b) = Inr (quoted_command ?s)"
    using assms(4) by (intro echo_fits) (simp_all add: MAX_PASSWORD_LEN_def SALT_LEN_def)
  have "popen_line sh (quoted_command ?s) = Inr (sha256_line (digest ?s))"
    by (rule popen_sha256) (use d al in auto)
  moreover have "copy_token (HASH_LEN + 1) (sha256_line (digest ?s)) = Inr (digest ?s)"
    using d(1) [OF al] by (simp add: sha256_tokens(1) [OF d(1) [OF al] d(2) [OF al]] HASH_LEN_def)
  moreover have "strcpy (SALT_LEN + 1) (new_salt rnd b) = Inr (new_salt rnd b)"
    by (simp add: SALT_LEN_def)
  ultimately show ?thesis
    using assms(3,4) unfolding create_admin_account_def Let_def password_between_iff buf
      rand_string_salt prod.case at bind_res_Inr fits
    by (simp add: admin_account_def)
qed

section \<open>Salts\<close>

text \<open>Every stored salt is shorter than \<open>SALT_LEN\<close> and made of letters and digits.\<close>

definition salts_ok :: "bank \<Rightarrow> bool" where
  "salts_ok b \<longleftrightarrow> (\<forall>k < 4096. alnum (acc_salt (accounts b k)) \<and> length (acc_salt (accounts b k)) < SALT_LEN)"

lemma salts_okD:
  "salts_ok b \<Longrightarrow> k < 4096 \<Longrightarrow> alnum (acc_salt (accounts b k)) \<and> length (acc_salt (accounts b k)) < SALT_LEN"
  by (simp add: salts_ok_def)

lemma salts_ok_frame [simp]:
  "salts_ok (b\<lparr>rand_pos := p\<rparr>) = salts_ok b" "salts_ok (b\<lparr>slog := l\<rparr>) = salts_ok b"
  "salts_ok (b\<lparr>slept_us := n\<rparr>) = salts_ok b"
  by (simp_all add: salts_ok_def)

lemma salts_ok_static [simp]: "salts_ok static_bank"
  by (simp add: salts_ok_def static_bank_def zero_account_def SALT_LEN_def)

lemma salts_ok_set:
  "salts_ok b \<Longrightarrow> alnum (acc_salt a) \<Longrightarrow> length (acc_salt a) < SALT_LEN \<Longrightarrow> salts_ok (set_account i a b)"
  by (simp add: salts_ok_def)

lemma salts_ok_created: "salts_ok b \<Longrightarrow> salts_ok (created c (new_salt rnd b') h p b)"
  unfolding created_def salts_ok_frame by (rule salts_ok_set) (simp_all add: SALT_LEN_def)

lemma moved_salts [simp]: "acc_salt (accounts (moved i t b) k) = acc_salt (accounts b k)"
  by (simp add: moved_def Let_def)

lemma salts_ok_moved [simp]: "salts_ok (moved i t b) = salts_ok b"
  by (simp add: salts_ok_def)

section \<open>Validations\<close>

lemma validate_user_eq:
  assumes "sha256_shell sh digest" and "salts_ok b" and "alnum (hdr_password h)"
    and "length (hdr_password h) \<le> MAX_PASSWORD_LEN" and "hdr_account_id h \<noteq> MAX_BANK_ACCOUNTS"
  shows "validate_user sh b h rv = Inr (
    let k = unat (hdr_account_id h); a = accounts b k in
    if k = 0 then (False, set_code RC_OP_NALLOW rv)
    else if 4096 < k then (False, set_code RC_OTHER rv)
    else if ledger b k = None then (False, set_code RC_ID_NOT_FOUND rv)
    else if digest (hdr_password h @ acc_salt a) = acc_hash a then (True, set_code RC_OK rv)
    else (False, set_code RC_LOGIN_FAIL rv))"
proof -
  let ?i = "hdr_account_id h"
  have ne: "unat ?i \<noteq> 4096" using assms(5) by (simp add: MAX_BANK_ACCOUNTS_def word_unat_eq_iff)
  show ?thesis
  proof (cases "unat ?i = 0 \<or> 4096 < unat ?i")
    case True
    then show ?thesis
      by (auto simp: validate_user_def is_admin_def index_le_iff word_unat_eq_iff)
  next
    case False
    with ne have k: "0 < unat ?i" "unat ?i < 4096" by auto
    then have "account_at b ?i = Inr (accounts b (unat ?i))" "between 1 ?i MAX_BANK_ACCOUNTS"
      "\<not> is_admin ?i"
      by (auto simp: index_less_iff index_le_iff is_admin_def)
    then show ?thesis
      using False ledger_dom_iff [OF k, of b] salts_okD [OF assms(2) k(2)]
      by (simp add: validate_user_def check_password_eq [OF assms(1,3) _ assms(4)] Let_def)
  qed
qed

lemma validate_admin_eq:
  assumes "sha256_shell sh digest" and "salts_ok b" and "alnum (hdr_password h)"
    and "length (hdr_password h) \<le> MAX_PASSWORD_LEN"
  shows "validate_admin sh b h rv = Inr (
    if hdr_account_id h \<noteq> 0 then (False, set_code RC_OP_NALLOW rv)
    else if digest (hdr_password h @ acc_salt (accounts b 0)) = acc_hash (accounts b 0)
      then (True, set_code RC_OK rv)
    else (False, set_code RC_LOGIN_FAIL rv))"
  using salts_okD [OF assms(2), of 0]
  by (simp add: validate_admin_def is_admin_def check_password_eq [OF assms(1,3) _ assms(4)]
      account_at_def MAX_BANK_ACCOUNTS_def)

lemma check_password_word: "check_password sh a h rv = Inr (ok, rv') \<Longrightarrow>
    rv' = set_code (if ok then RC_OK else RC_LOGIN_FAIL) rv"
  by (auto simp: check_password_def bind_res_eq_Inr split: if_splits)

lemma validate_user_Inr:
  "validate_user sh b h rv = Inr (ok, rv') \<Longrightarrow>
     (ok \<longrightarrow> ledger b (unat (hdr_account_id h)) \<noteq> None) \<and>
     (\<exists>c \<in> {RC_OK, RC_OP_NALLOW, RC_OTHER, RC_ID_NOT_FOUND, RC_LOGIN_FAIL}.
        rv' = set_code c rv \<and> (ok \<longleftrightarrow> c = RC_OK))"
  using check_password_word [of sh _ h rv ok rv'] ledger_dom_iff [of "hdr_account_id h" b]
  by (force simp: validate_user_def is_admin_def index_less_iff unat_gt_0 bind_res_eq_Inr account_at_eq_Inr split: if_splits)

lemma validate_admin_Inr:
  "validate_admin sh b h rv = Inr (ok, rv') \<Longrightarrow>
     (ok \<longrightarrow> hdr_account_id h = 0) \<and>
     (\<exists>c \<in> {RC_OK, RC_OP_NALLOW, RC_LOGIN_FAIL}. rv' = set_code c rv \<and> (ok \<longleftrightarrow> c = RC_OK))"
  using check_password_word [of sh _ h rv ok rv']
  by (force simp: validate_admin_def is_admin_def bind_res_eq_Inr account_at_eq_Inr split: if_splits)

end
