(* ===== verification/Requests.thy ===== *)
theory Requests
  imports Credentials
begin

text \<open>
  The processing of one request by \<open>server.c\<close>: validation by kind of operation, the
  dispatch of \<open>acknowledge_request\<close> with its log entry, and sequences of requests. The
  reply is state: \<open>acknowledge_request\<close> overwrites parts of the reply it is given, and what
  it does not assign keeps the value of the previous request.
\<close>

section \<open>Handlers\<close>

definition validate_request :: "shell \<Rightarrow> bank \<Rightarrow> tlv_request \<Rightarrow> tlv_reply \<Rightarrow>
    (bool \<times> tlv_reply) res" where
  "validate_request sh b req reply =
     (case req_type req of
        OP_CREATE_ACCOUNT \<Rightarrow>
          bind_res (validate_admin sh b (req_hdr req) (rep_val reply)) (\<lambda>(ok, rv). Inr (ok, reply\<lparr>rep_val := rv\<rparr>))
      | OP_SHUTDOWN \<Rightarrow>
          bind_res (validate_admin sh b (req_hdr req) (rep_val reply)) (\<lambda>(ok, rv). Inr (ok, reply\<lparr>rep_val := rv\<rparr>))
      | OP_BALANCE \<Rightarrow>
          bind_res (validate_user sh b (req_hdr req) (rep_val reply)) (\<lambda>(ok, rv). Inr (ok, reply\<lparr>rep_val := rv\<rparr>))
      | OP_TRANSFER \<Rightarrow>
          bind_res (validate_user sh b (req_hdr req) (rep_val reply)) (\<lambda>(ok, rv). Inr (ok, reply\<lparr>rep_val := rv\<rparr>))
      | _ \<Rightarrow> Inr (False, reply))"

text \<open>\<open>usleep\<close> waits its argument in microseconds.\<close>

definition usleep :: "u32 \<Rightarrow> bank \<Rightarrow> bank" where
  "usleep us b = b\<lparr>slept_us := slept_us b + unat us\<rparr>"

definition set_account_id :: "u32 \<Rightarrow> rep_value \<Rightarrow> rep_value" where
  "set_account_id i v = v\<lparr>rep_header := (rep_header v)\<lparr>rhd_account_id := i\<rparr>\<rparr>"

text \<open>
  The log entry is written when \<open>create_user_account\<close> returns 1, and reads the element of
  the array that the request names.
\<close>

definition perform :: "shell \<Rightarrow> (nat \<Rightarrow> nat) \<Rightarrow> int \<Rightarrow> tlv_request \<Rightarrow> tlv_reply \<Rightarrow>
    bank \<Rightarrow> (tlv_reply \<times> bank) res" where
  "perform sh rnd office_id req reply b =
     (case req_type req of
        OP_CREATE_ACCOUNT \<Rightarrow>
          bind_res (create_user_account sh rnd (value_create (req_val req)) (rep_val reply) b) (\<lambda>(r, rv, b).
          if r then
            bind_res (account_at b (crt_account_id (value_create (req_val req)))) (\<lambda>account.
              Inr (reply\<lparr>rep_val := rv\<rparr>, b\<lparr>slog := snd (logAccountCreation office_id (Some account) (slog b))\<rparr>))
          else Inr (reply\<lparr>rep_val := rv\<rparr>, b))
      | OP_BALANCE \<Rightarrow>
          bind_res (check_user_balance (hdr_account_id (req_hdr req)) (rep_val reply) b) (\<lambda>rv.
            Inr (reply\<lparr>rep_val := rv\<rparr>, b))
      | OP_TRANSFER \<Rightarrow>
          bind_res (create_user_transfer (hdr_account_id (req_hdr req)) (value_transfer (req_val req))
              (rep_val reply) b) (\<lambda>(rv, b).
            Inr (reply\<lparr>rep_val := rv\<rparr>, b))
      | OP_SHUTDOWN \<Rightarrow> Inr (reply, b)
      | _ \<Rightarrow> Inr (reply, b))"

definition acknowledge_request :: "shell \<Rightarrow> (nat \<Rightarrow> nat) \<Rightarrow> int \<Rightarrow> tlv_request \<Rightarrow>
    tlv_reply \<Rightarrow> bank \<Rightarrow> (tlv_reply \<times> bank) res" where
  "acknowledge_request sh rnd office_id req reply b =
     (let b = usleep (hdr_op_delay_ms (req_hdr req)) b;
          reply = reply\<lparr>rep_type := req_type req\<rparr>;
          reply = reply\<lparr>rep_val := set_account_id (hdr_account_id (req_hdr req)) (rep_val reply)\<rparr>
      in bind_res (validate_request sh b req reply) (\<lambda>(ok, reply).
         bind_res (if ok then perform sh rnd office_id req reply b else Inr (reply, b)) (\<lambda>(reply, b).
           Inr (reply\<lparr>rep_length := of_nat sizeof_rep_value\<rparr>, b))))"

section \<open>Effects of one request\<close>

text \<open>The facts the system keeps about the bank, as one invariant.\<close>

definition bank_ok :: "bank \<Rightarrow> bool" where
  "bank_ok b \<longleftrightarrow> bank_inv b \<and> salts_ok b"

lemma bank_ok_frame [simp]:
  "bank_ok (b\<lparr>slog := l\<rparr>) = bank_ok b" "bank_ok (b\<lparr>slept_us := n\<rparr>) = bank_ok b"
  "bank_ok (usleep us b) = bank_ok b" "ledger (usleep us b) = ledger b"
  "total_funds (usleep us b) = total_funds b" "accounts (usleep us b) = accounts b"
  "rand_pos (usleep us b) = rand_pos b" "slog (usleep us b) = slog b"
  by (simp_all add: bank_ok_def usleep_def)

lemma bank_ok_static [simp]: "bank_ok static_bank"
  by (simp add: bank_ok_def)

definition deposit :: "tlv_request \<Rightarrow> tlv_reply \<Rightarrow> nat" where
  "deposit req reply =
     (if req_type req = OP_CREATE_ACCOUNT \<and> rep_code reply = RC_OK
      then unat (crt_balance (value_create (req_val req))) else 0)"

lemma create_user_transfer_Inr:
  assumes "create_user_transfer i t rv b = Inr (rv', b')" and "bank_ok b" and "ledger b (unat i) \<noteq> None"
  obtains
    (refused) "transfer_verdict i t b \<noteq> RC_OK" "b' = b" "unat (trf_account_id t) < 4096"
      "rv' = set_code (transfer_verdict i t b) (rv\<lparr>rep_word := acc_balance (accounts b (unat (trf_account_id t)))\<rparr>)"
  | (executed) "transfer_verdict i t b = RC_OK" "b' = moved i t b" "unat (trf_account_id t) < 4096"
      "rv' = (set_code RC_OK rv)\<lparr>rep_word := acc_balance (accounts (moved i t b) (unat i))\<rparr>"
proof -
  have dst: "unat (trf_account_id t) < 4096"
    using assms(1) by (auto simp: create_user_transfer_def bind_res_eq_Inr account_at_eq_Inr index_less_iff Let_def)
  have "bank_inv b" "unat i < 4096" using assms(2,3) by (auto simp: bank_ok_def dest: ledger_SomeD)
  from create_user_transfer_eq [OF this dst, of rv] assms(1) dst refused executed show thesis
    by (auto simp: Let_def set_code_def split: if_splits)
qed

lemma moved_ok:
  "bank_ok b \<Longrightarrow> transfer_verdict i t b = RC_OK \<Longrightarrow> ledger b (unat i) \<noteq> None \<Longrightarrow>
    unat (trf_account_id t) < 4096 \<Longrightarrow>
    bank_ok (moved i t b) \<and> total_funds (moved i t b) = total_funds b"
  using moved_inv [of b i t] moved_funds [of i t b] by (auto simp: bank_ok_def dest: ledger_SomeD)

lemma created_ok:
  "bank_ok b \<Longrightarrow> create_verdict c b = RC_OK \<Longrightarrow> unat (crt_account_id c) < 4096 \<Longrightarrow>
    bank_ok (created c (new_salt rnd b) h p b) \<and>
    total_funds (created c (new_salt rnd b) h p b) = total_funds b + unat (crt_balance c)"
  using created_effect(1,2) [of b c] by (simp add: bank_ok_def salts_ok_created)

lemma perform_effect:
  assumes "perform sh rnd office_id req reply b = Inr (reply', b')" and "bank_ok b"
    and "req_type req = OP_TRANSFER \<Longrightarrow> ledger b (unat (hdr_account_id (req_hdr req))) \<noteq> None"
  shows "bank_ok b' \<and> total_funds b' = total_funds b + deposit req reply' \<and>
    rep_type reply' = rep_type reply \<and>
    rhd_account_id (rep_header (rep_val reply')) = rhd_account_id (rep_header (rep_val reply))"
proof (cases "req_type req")
  case OP_CREATE_ACCOUNT
  with assms(1) obtain r rv b1 where
    c: "create_user_account sh rnd (value_create (req_val req)) (rep_val reply) b = Inr (r, rv, b1)"
    and k: "(if r then bind_res (account_at b1 (crt_account_id (value_create (req_val req)))) (\<lambda>account.
              Inr (reply\<lparr>rep_val := rv\<rparr>, b1\<lparr>slog := snd (logAccountCreation office_id (Some account) (slog b1))\<rparr>))
          else Inr (reply\<lparr>rep_val := rv\<rparr>, b1)) = Inr (reply', b')"
    by (auto simp: perform_def bind_res_eq_Inr)
  have self: "\<exists>l. b1 = b1\<lparr>slog := l\<rparr>" by (rule exI [of _ "slog b1"]) simp
  from k have rest: "reply' = reply\<lparr>rep_val := rv\<rparr>" "\<exists>l. b' = b1\<lparr>slog := l\<rparr>"
    using self by (cases r; auto simp: bind_res_eq_Inr)+
  from c show ?thesis
  proof (cases rule: create_user_account_Inr)
    case refused
    then show ?thesis using rest assms(2) OP_CREATE_ACCOUNT by (auto simp: deposit_def)
  next
    case (stored h)
    then show ?thesis
      using rest OP_CREATE_ACCOUNT created_ok [OF assms(2) stored(1,5)] by (auto simp: deposit_def)
  qed
next
  case OP_BALANCE
  with assms show ?thesis
    by (auto simp: perform_def deposit_def check_user_balance_def bind_res_eq_Inr set_code_def)
next
  case OP_TRANSFER
  with assms(1) obtain rv b1 where
    t: "create_user_transfer (hdr_account_id (req_hdr req)) (value_transfer (req_val req)) (rep_val reply) b = Inr (rv, b1)"
    and rest: "reply' = reply\<lparr>rep_val := rv\<rparr>" "b' = b1"
    by (auto simp: perform_def bind_res_eq_Inr)
  note led = assms(3) [OF OP_TRANSFER]
  from t assms(2) led show ?thesis
    by (cases rule: create_user_transfer_Inr)
      (use rest assms(2) OP_TRANSFER moved_ok [OF assms(2) _ led] in \<open>auto simp: deposit_def set_code_def\<close>)
qed (use assms in \<open>auto simp: perform_def deposit_def\<close>)

lemma validate_request_Inr:
  assumes "validate_request sh b req reply = Inr (ok, reply')"
  shows "(ok \<longrightarrow> req_type req \<in> {OP_BALANCE, OP_TRANSFER} \<longrightarrow> ledger b (unat (hdr_account_id (req_hdr req))) \<noteq> None)"
    and "(ok \<longrightarrow> req_type req \<in> {OP_CREATE_ACCOUNT, OP_SHUTDOWN} \<longrightarrow> hdr_account_id (req_hdr req) = 0)"
    and "reply' = reply \<and> \<not> ok \<or> (\<exists>c. reply' = reply\<lparr>rep_val := set_code c (rep_val reply)\<rparr> \<and> (ok \<longleftrightarrow> c = RC_OK))"
  using assms
  by (auto simp: validate_request_def bind_res_eq_Inr dest!: validate_user_Inr validate_admin_Inr
      split: op_type.splits)

lemma acknowledge_effect:
  assumes "acknowledge_request sh rnd office_id req reply b = Inr (reply', b')" and "bank_ok b"
  shows "bank_ok b' \<and> total_funds b' = total_funds b + deposit req reply' \<and>
    rep_type reply' = req_type req \<and> rep_length reply' = of_nat sizeof_rep_value \<and>
    rhd_account_id (rep_header (rep_val reply')) = hdr_account_id (req_hdr req)"
proof -
  let ?b = "usleep (hdr_op_delay_ms (req_hdr req)) b"
  let ?r = "reply\<lparr>rep_type := req_type req, rep_val := set_account_id (hdr_account_id (req_hdr req)) (rep_val reply)\<rparr>"
  from assms(1) obtain ok r1 r2 where
    v: "validate_request sh ?b req ?r = Inr (ok, r1)"
    and p: "(if ok then perform sh rnd office_id req r1 ?b else Inr (r1, ?b)) = Inr (r2, b')"
    and r': "reply' = r2\<lparr>rep_length := of_nat sizeof_rep_value\<rparr>"
    by (auto simp: acknowledge_request_def bind_res_eq_Inr Let_def)
  note v' = validate_request_Inr [OF v]
  have r1: "rep_type r1 = req_type req"
    "rhd_account_id (rep_header (rep_val r1)) = hdr_account_id (req_hdr req)"
    using v'(3) by (auto simp: set_account_id_def)
  have code: "rep_code reply' = rep_code r2" using r' by simp
  show ?thesis
  proof (cases ok)
    case True
    with p have "perform sh rnd office_id req r1 ?b = Inr (r2, b')" by simp
    from perform_effect [OF this] v'(1) True assms(2) r' r1 show ?thesis
      by (auto simp: deposit_def)
  next
    case False
    have "deposit req reply' = 0"
    proof (cases "req_type req = OP_CREATE_ACCOUNT")
      case True
      with v False have "rep_code r1 \<noteq> RC_OK"
        by (auto simp: validate_request_def bind_res_eq_Inr dest!: validate_admin_Inr)
      then show ?thesis using p False code by (simp add: deposit_def)
    qed (simp add: deposit_def)
    then show ?thesis using p False r' r1 assms(2) by auto
  qed
qed

section \<open>Sequences of requests\<close>

text \<open>
  One office's steps on its reply variable and the bank, labelled with the request; the
  contract of an accounting system makes every sequence of requests balance.
\<close>

definition office_step :: "shell \<Rightarrow> (nat \<Rightarrow> nat) \<Rightarrow> int \<Rightarrow> tlv_request \<Rightarrow>
    tlv_reply \<times> bank \<Rightarrow> (tlv_reply \<times> bank) res" where
  "office_step sh rnd office_id req s = acknowledge_request sh rnd office_id req (fst s) (snd s)"

interpretation office: accounting_system "office_step sh rnd office_id" "\<lambda>s. bank_ok (snd s)"
  "\<lambda>s. total_funds (snd s)" "\<lambda>req s. deposit req (fst s)" for sh rnd office_id
proof unfold_locales
  fix s :: "tlv_reply \<times> bank" and l s'
  assume "bank_ok (snd s)" "office_step sh rnd office_id l s = Inr s'"
  then have "acknowledge_request sh rnd office_id l (fst s) (snd s) = Inr (fst s', snd s')"
    by (simp add: office_step_def)
  from acknowledge_effect [OF this \<open>bank_ok (snd s)\<close>]
  show "bank_ok (snd s')" "total_funds (snd s') = total_funds (snd s) + deposit l (fst s')"
    by simp_all
qed

section \<open>The promise of the server\<close>

text \<open>
  What a request is answered and how the ledger changes, given a test \<open>auth\<close> of passwords:
  the specification that \<open>acknowledge_request\<close> refines.
\<close>

definition spec_login_user :: "(nat \<Rightarrow> string \<Rightarrow> bool) \<Rightarrow> req_header \<Rightarrow> ledger \<Rightarrow> ret_code" where
  "spec_login_user auth h L =
     (let k = unat (hdr_account_id h) in
      if k = 0 then RC_OP_NALLOW
      else if 4096 < k then RC_OTHER
      else if L k = None then RC_ID_NOT_FOUND
      else if auth k (hdr_password h) then RC_OK else RC_LOGIN_FAIL)"

definition spec_login_admin :: "(nat \<Rightarrow> string \<Rightarrow> bool) \<Rightarrow> req_header \<Rightarrow> ret_code" where
  "spec_login_admin auth h =
     (if hdr_account_id h \<noteq> 0 then RC_OP_NALLOW
      else if auth 0 (hdr_password h) then RC_OK else RC_LOGIN_FAIL)"

definition spec_create :: "req_create_account \<Rightarrow> ledger \<Rightarrow> ret_code" where
  "spec_create c L =
     (let k = unat (crt_account_id c); amount = unat (crt_balance c); p = crt_password c in
      if k = 0 then RC_OTHER
      else if L k \<noteq> None then RC_ID_IN_USE
      else if amount = 0 \<or> 1000000000 < amount \<or> length p < 8 \<or> 20 < length p \<or> CHR '' '' \<in> set p
      then RC_OTHER else RC_OK)"

definition spec_transfer :: "nat \<Rightarrow> req_transfer \<Rightarrow> ledger \<Rightarrow> ret_code \<times> ledger" where
  "spec_transfer src t L =
     (let dst = unat (trf_account_id t) in
      if dst = 0 then (RC_OTHER, L)
      else if L dst = None then (RC_ID_IN_USE, L)
      else (case ledger_transfer src dst (unat (trf_amount t)) L of
              None \<Rightarrow> (RC_NO_FUNDS, L) | Some L' \<Rightarrow> (RC_OK, L')))"

definition spec_request :: "(nat \<Rightarrow> string \<Rightarrow> bool) \<Rightarrow> tlv_request \<Rightarrow> ledger \<Rightarrow> ret_code \<times> ledger" where
  "spec_request auth req L =
     (let h = req_hdr req; c = value_create (req_val req) in
      case req_type req of
        OP_CREATE_ACCOUNT \<Rightarrow>
          if spec_login_admin auth h \<noteq> RC_OK then (spec_login_admin auth h, L)
          else (spec_create c L,
                if spec_create c L = RC_OK then L(unat (crt_account_id c) \<mapsto> unat (crt_balance c)) else L)
      | OP_TRANSFER \<Rightarrow>
          if spec_login_user auth h L \<noteq> RC_OK then (spec_login_user auth h L, L)
          else spec_transfer (unat (hdr_account_id h)) (value_transfer (req_val req)) L
      | OP_BALANCE \<Rightarrow> (spec_login_user auth h L, L)
      | OP_SHUTDOWN \<Rightarrow> (spec_login_admin auth h, L)
      | _ \<Rightarrow> (RC_OTHER, L))"

text \<open>The passwords the stored hashes accept.\<close>

definition accepts :: "(string \<Rightarrow> string) \<Rightarrow> bank \<Rightarrow> nat \<Rightarrow> string \<Rightarrow> bool" where
  "accepts digest b k p \<longleftrightarrow> digest (p @ acc_salt (accounts b k)) = acc_hash (accounts b k)"

text \<open>
  Requests the code handles without leaving defined behaviour: passwords of letters and
  digits in their fields, and every id that indexes the array inside it.
\<close>

definition request_ok :: "tlv_request \<Rightarrow> bool" where
  "request_ok req \<longleftrightarrow>
     req_type req \<in> {OP_CREATE_ACCOUNT, OP_BALANCE, OP_TRANSFER, OP_SHUTDOWN} \<and>
     alnum (hdr_password (req_hdr req)) \<and> length (hdr_password (req_hdr req)) \<le> MAX_PASSWORD_LEN \<and>
     hdr_account_id (req_hdr req) \<noteq> MAX_BANK_ACCOUNTS \<and>
     (req_type req = OP_CREATE_ACCOUNT \<longrightarrow> alnum (crt_password (value_create (req_val req)))) \<and>
     (req_type req \<in> {OP_CREATE_ACCOUNT, OP_TRANSFER} \<longrightarrow>
        unat (crt_account_id (val_union (req_val req))) < 4096)"

lemma ledger_openD: "ledger_open k amount L = Some L' \<Longrightarrow> L' = L(k \<mapsto> amount)"
  by (auto simp: ledger_open_def split: if_splits)

lemma create_verdict_spec:
  "unat (crt_account_id c) < 4096 \<Longrightarrow> create_verdict c b = spec_create c (ledger b)"
  using ledger_dom_iff [of "crt_account_id c" b]
  by (simp add: create_verdict_def spec_create_def Let_def)

lemma transfer_verdict_spec:
  assumes "ledger b (unat i) \<noteq> None" and "unat (trf_account_id t) < 4096"
  shows "spec_transfer (unat i) t (ledger b) =
    (transfer_verdict i t b, if transfer_verdict i t b = RC_OK then ledger (moved i t b) else ledger b)"
proof (cases "transfer_verdict i t b = RC_OK")
  case True
  have "ledger b (unat (trf_account_id t)) \<noteq> None" "0 < unat (trf_account_id t)"
    using True assms(2) ledger_dom_iff [of "trf_account_id t" b] by (auto simp: transfer_verdict_OK)
  then show ?thesis using True moved_ledger [OF True assms] by (simp add: spec_transfer_def Let_def)
next
  case False
  note ref = refused_ledger [OF False assms(2)]
  show ?thesis
    using False ref assms(2) ledger_dom_iff [of "trf_account_id t" b]
    by (auto simp: spec_transfer_def transfer_verdict_def Let_def split: if_splits)
qed

lemma spec_transfer_documented:
  assumes "bank_inv b" and "ledger b (unat (i :: u32)) \<noteq> None" and "unat (trf_account_id t) < 4096"
    and "transfer_departure (unat i) (unat (trf_account_id t)) (unat (trf_amount t)) (ledger b) = None"
  shows "spec_transfer (unat i) t (ledger b) =
    documented_transfer (unat i) (unat (trf_account_id t)) (unat (trf_amount t)) (ledger b)"
proof -
  obtain s where "ledger b (unat i) = Some s" using assms(2) by blast
  from verdict_documented [OF assms(1) this assms(3) refl refl] show ?thesis
    unfolding transfer_verdict_spec [OF assms(2,3)] assms(4) by simp
qed

lemma perform_refines:
  assumes "sha256_shell sh digest" and "bank_ok b" and "request_ok req"
    and "req_type req = OP_CREATE_ACCOUNT \<Longrightarrow> spec_login_admin auth (req_hdr req) = RC_OK"
    and "req_type req \<in> {OP_BALANCE, OP_TRANSFER} \<Longrightarrow> spec_login_user auth (req_hdr req) (ledger b) = RC_OK"
    and "req_type req = OP_SHUTDOWN \<Longrightarrow> spec_login_admin auth (req_hdr req) = RC_OK \<and> rep_code reply = RC_OK"
  shows "\<exists>reply' b'. perform sh rnd office_id req reply b = Inr (reply', b') \<and>
    (rep_code reply', ledger b') = spec_request auth req (ledger b)"
proof -
  let ?c = "value_create (req_val req)" and ?t = "value_transfer (req_val req)"
  let ?i = "hdr_account_id (req_hdr req)"
  have user: "ledger b (unat ?i) \<noteq> None" "?i < MAX_BANK_ACCOUNTS"
    if "req_type req \<in> {OP_BALANCE, OP_TRANSFER}"
    using assms(5) [OF that]
    by (auto simp: spec_login_user_def Let_def index_less_iff split: if_splits dest!: ledger_SomeD)
  consider "req_type req = OP_CREATE_ACCOUNT" | "req_type req = OP_BALANCE"
    | "req_type req = OP_TRANSFER" | "req_type req = OP_SHUTDOWN"
    using assms(3) by (auto simp: request_ok_def)
  then show ?thesis
  proof cases
    case 1
    then have k: "unat (crt_account_id ?c) < 4096" and p: "alnum (crt_password ?c)"
      using assms(3) by (auto simp: request_ok_def)
    have at: "account_at b (crt_account_id ?c) = Inr (accounts b (unat (crt_account_id ?c)))"
      and ne: "crt_account_id ?c \<noteq> MAX_BANK_ACCOUNTS"
      using k by (auto simp: account_at_eq_Inr index_less_iff) (simp add: MAX_BANK_ACCOUNTS_def)
    show ?thesis
    proof (cases "create_verdict ?c b = RC_OK")
      case True
      have "ledger (created ?c s h p b) = (ledger b)(unat (crt_account_id ?c) \<mapsto> unat (crt_balance ?c))"
        for s h p
        using ledger_openD [OF created_effect(3) [OF _ True k]] assms(2) by (simp add: bank_ok_def)
      with True show ?thesis
        using 1 assms(4) k create_user_account_stores [OF assms(1) p True k]
        by (simp add: perform_def spec_request_def create_verdict_spec Let_def)
    next
      case False
      then show ?thesis
        using 1 assms(4) k at
        by (simp add: perform_def spec_request_def create_user_account_eq [OF ne] create_verdict_spec Let_def)
    qed
  next
    case 2
    then show ?thesis using assms(5) user
      by (simp add: perform_def check_user_balance_def spec_request_def)
  next
    case 3
    then have dst: "unat (trf_account_id ?t) < 4096"
      using assms(3) by (auto simp: request_ok_def value_transfer_def)
    have "unat ?i < 4096" using user 3 by (simp add: index_less_iff)
    with 3 show ?thesis
      using assms(2,5) user dst create_user_transfer_eq [of b ?i ?t "rep_val reply"]
        transfer_verdict_spec [of b ?i ?t]
      by (auto simp: perform_def spec_request_def bank_ok_def Let_def set_code_def)
  next
    case 4
    then show ?thesis using assms(6) by (simp add: perform_def spec_request_def)
  qed
qed

lemma validate_request_eq:
  assumes "sha256_shell sh digest" and "bank_ok b" and "request_ok req"
  shows "validate_request sh b req reply =
    (let c = (if req_type req \<in> {OP_CREATE_ACCOUNT, OP_SHUTDOWN}
              then spec_login_admin (accepts digest b) (req_hdr req)
              else spec_login_user (accepts digest b) (req_hdr req) (ledger b))
     in Inr (c = RC_OK, reply\<lparr>rep_val := set_code c (rep_val reply)\<rparr>))"
proof -
  have r: "salts_ok b" "alnum (hdr_password (req_hdr req))"
    "length (hdr_password (req_hdr req)) \<le> MAX_PASSWORD_LEN"
    "hdr_account_id (req_hdr req) \<noteq> MAX_BANK_ACCOUNTS"
    "req_type req \<in> {OP_CREATE_ACCOUNT, OP_BALANCE, OP_TRANSFER, OP_SHUTDOWN}"
    using assms(2,3) by (auto simp: bank_ok_def request_ok_def)
  show ?thesis
    using r(5) validate_user_eq [OF assms(1) r(1-4)] validate_admin_eq [OF assms(1) r(1-3)]
    by (auto simp: validate_request_def spec_login_admin_def spec_login_user_def accepts_def Let_def)
qed

lemma acknowledge_refines:
  assumes "sha256_shell sh digest" and "bank_ok b" and "request_ok req"
  shows "\<exists>reply' b'. acknowledge_request sh rnd office_id req reply b = Inr (reply', b') \<and>
    (rep_code reply', ledger b') = spec_request (accepts digest b) req (ledger b)"
proof -
  let ?b = "usleep (hdr_op_delay_ms (req_hdr req)) b"
  let ?r = "reply\<lparr>rep_type := req_type req, rep_val := set_account_id (hdr_account_id (req_hdr req)) (rep_val reply)\<rparr>"
  let ?c = "if req_type req \<in> {OP_CREATE_ACCOUNT, OP_SHUTDOWN}
              then spec_login_admin (accepts digest b) (req_hdr req)
              else spec_login_user (accepts digest b) (req_hdr req) (ledger b)"
  let ?r1 = "?r\<lparr>rep_val := set_code ?c (rep_val ?r)\<rparr>"
  have same: "accepts digest ?b = accepts digest b" by (simp add: accepts_def fun_eq_iff)
  have v: "validate_request sh ?b req ?r = Inr (?c = RC_OK, ?r1)"
    using validate_request_eq [OF assms(1) _ assms(3), of ?b ?r] assms(2) by (simp add: same Let_def)
  show ?thesis
  proof (cases "?c = RC_OK")
    case True
    have "\<exists>reply' b'. perform sh rnd office_id req ?r1 ?b = Inr (reply', b') \<and>
        (rep_code reply', ledger b') = spec_request (accepts digest b) req (ledger ?b)"
      by (rule perform_refines [OF assms(1) _ assms(3)]) (use True assms(2) in auto)
    with v True show ?thesis by (auto simp: acknowledge_request_def Let_def)
  next
    case False
    moreover have "spec_request (accepts digest b) req (ledger b) = (?c, ledger b)"
      using False assms(3) by (auto simp: spec_request_def request_ok_def Let_def)
    ultimately show ?thesis using v by (simp add: acknowledge_request_def Let_def)
  qed
qed

section \<open>The balance in a reply\<close>

lemma perform_balance:
  assumes "perform sh rnd office_id req reply b = Inr (reply', b')" and "bank_ok b"
    and "req_type req \<in> {OP_BALANCE, OP_TRANSFER}" and "ledger b (unat (hdr_account_id (req_hdr req))) \<noteq> None"
    and "rep_code reply' = RC_OK"
  shows "ledger b' (unat (hdr_account_id (req_hdr req))) = Some (unat (rep_word (rep_val reply')))"
proof (cases "req_type req = OP_BALANCE")
  case True
  with assms show ?thesis
    by (auto simp: perform_def check_user_balance_def bind_res_eq_Inr account_at_eq_Inr dest: ledger_SomeD)
next
  case False
  with assms(1,3) obtain rv where
    t: "create_user_transfer (hdr_account_id (req_hdr req)) (value_transfer (req_val req)) (rep_val reply) b = Inr (rv, b')"
    and r: "reply' = reply\<lparr>rep_val := rv\<rparr>"
    by (auto simp: perform_def bind_res_eq_Inr)
  from t assms(2,4) show ?thesis
  proof (cases rule: create_user_transfer_Inr)
    case refused
    then show ?thesis using r assms(5) by simp
  next
    case executed
    then show ?thesis using r assms(4) by (auto simp: ledger_def split: if_splits)
  qed
qed

lemma acknowledge_balance:
  assumes "acknowledge_request sh rnd office_id req reply b = Inr (reply', b')" and "bank_ok b"
    and "req_type req \<in> {OP_BALANCE, OP_TRANSFER}" and "rep_code reply' = RC_OK"
  shows "ledger b' (unat (hdr_account_id (req_hdr req))) = Some (unat (rep_word (rep_val reply')))"
proof -
  let ?b = "usleep (hdr_op_delay_ms (req_hdr req)) b"
  let ?r = "reply\<lparr>rep_type := req_type req, rep_val := set_account_id (hdr_account_id (req_hdr req)) (rep_val reply)\<rparr>"
  from assms(1) obtain ok r1 r2 where
    v: "validate_request sh ?b req ?r = Inr (ok, r1)"
    and p: "(if ok then perform sh rnd office_id req r1 ?b else Inr (r1, ?b)) = Inr (r2, b')"
    and r': "reply' = r2\<lparr>rep_length := of_nat sizeof_rep_value\<rparr>"
    by (auto simp: acknowledge_request_def bind_res_eq_Inr Let_def)
  have ok
  proof (rule ccontr)
    assume "\<not> ok"
    then have "rep_code r1 \<noteq> RC_OK" using v assms(3)
      by (auto simp: validate_request_def bind_res_eq_Inr dest!: validate_user_Inr)
    then show False using p r' assms(4) \<open>\<not> ok\<close> by simp
  qed
  then show ?thesis
    using perform_balance [of sh rnd office_id req r1 ?b r2 b'] validate_request_Inr(1) [OF v] p r' assms(2-4)
    by auto
qed

section \<open>The passwords accepted\<close>

text \<open>
  What a request promises of the passwords that accounts accept: an accepted creation makes
  the new account accept those with the digest of the password requested, under one salt, and nothing else changes.
\<close>

definition spec_auth :: "(string \<Rightarrow> string) \<Rightarrow> string \<Rightarrow> tlv_request \<Rightarrow> ret_code \<Rightarrow>
    (nat \<Rightarrow> string \<Rightarrow> bool) \<Rightarrow> nat \<Rightarrow> string \<Rightarrow> bool" where
  "spec_auth digest salt r code auth =
     (let c = value_create (req_val r) in
      if req_type r = OP_CREATE_ACCOUNT \<and> code = RC_OK
      then auth(unat (crt_account_id c) := (\<lambda>p. digest (p @ salt) = digest (crt_password c @ salt)))
      else auth)"

lemma accepts_accounts: "accounts b = accounts b' \<Longrightarrow> accepts digest b = accepts digest b'"
  by (simp add: accepts_def fun_eq_iff)

lemma accepts_frame [simp]:
  "accepts digest (b\<lparr>slog := l\<rparr>) = accepts digest b" "accepts digest (usleep us b) = accepts digest b"
  "accepts digest (moved i t b) = accepts digest b"
  by (simp_all add: accepts_def fun_eq_iff moved_def Let_def)

lemma accepts_created:
  "accepts digest (created c salt (digest (crt_password c @ salt)) pos b) =
    (accepts digest b)(unat (crt_account_id c) := (\<lambda>p. digest (p @ salt) = digest (crt_password c @ salt)))"
  by (simp add: accepts_def created_def fun_eq_iff)

lemma perform_auth:
  assumes "perform sh rnd office_id req reply b = Inr (reply', b')" and "bank_ok b"
    and "sha256_shell sh digest" and "request_ok req"
    and "req_type req = OP_TRANSFER \<Longrightarrow> ledger b (unat (hdr_account_id (req_hdr req))) \<noteq> None"
  shows "accepts digest b' = spec_auth digest (new_salt rnd b) req (rep_code reply') (accepts digest b)"
proof -
  let ?c = "value_create (req_val req)"
  consider "req_type req = OP_CREATE_ACCOUNT" | "req_type req = OP_TRANSFER"
    | "req_type req \<in> {OP_BALANCE, OP_SHUTDOWN}"
    using assms(4) by (auto simp: request_ok_def)
  then show ?thesis
  proof cases
    case 1
    then have k: "unat (crt_account_id ?c) < 4096" "alnum (crt_password ?c)" "crt_account_id ?c \<noteq> MAX_BANK_ACCOUNTS"
      using assms(4) by (auto simp: request_ok_def MAX_BANK_ACCOUNTS_def)
    show ?thesis
    proof (cases "create_verdict ?c b = RC_OK")
      case True
      then show ?thesis
        using assms(1) 1 create_user_account_stores [OF assms(3) k(2) True k(1)]
        by (auto simp: perform_def spec_auth_def accepts_created Let_def)
    next
      case False
      then show ?thesis
        using assms(1) 1 create_user_account_eq [OF k(3)]
        by (auto simp: perform_def spec_auth_def bind_res_eq_Inr Let_def)
    qed
  next
    case 2
    then obtain rv where "create_user_transfer (hdr_account_id (req_hdr req)) (value_transfer (req_val req))
        (rep_val reply) b = Inr (rv, b')"
      using assms(1) by (auto simp: perform_def bind_res_eq_Inr)
    from this assms(2) assms(5) [OF 2] have "accepts digest b' = accepts digest b"
      by (cases rule: create_user_transfer_Inr) simp_all
    then show ?thesis using 2 by (simp add: spec_auth_def)
  next
    case 3
    then show ?thesis using assms(1) by (auto simp: perform_def spec_auth_def bind_res_eq_Inr)
  qed
qed

lemma acknowledge_auth:
  assumes "acknowledge_request sh rnd office_id req reply b = Inr (reply', b')" and "bank_ok b"
    and "sha256_shell sh digest" and "request_ok req"
  shows "accepts digest b' = spec_auth digest (new_salt rnd b) req (rep_code reply') (accepts digest b)"
proof -
  let ?b = "usleep (hdr_op_delay_ms (req_hdr req)) b"
  let ?r = "reply\<lparr>rep_type := req_type req, rep_val := set_account_id (hdr_account_id (req_hdr req)) (rep_val reply)\<rparr>"
  from assms(1) obtain ok r1 r2 where
    v: "validate_request sh ?b req ?r = Inr (ok, r1)"
    and p: "(if ok then perform sh rnd office_id req r1 ?b else Inr (r1, ?b)) = Inr (r2, b')"
    and r': "reply' = r2\<lparr>rep_length := of_nat sizeof_rep_value\<rparr>"
    by (auto simp: acknowledge_request_def bind_res_eq_Inr Let_def)
  show ?thesis
  proof (cases ok)
    case True
    then have "perform sh rnd office_id req r1 ?b = Inr (r2, b')" using p by simp
    from perform_auth [OF this _ assms(3,4)] assms(2) validate_request_Inr(1) [OF v] True
    show ?thesis by (simp add: r' new_salt_def)
  next
    case False
    have "req_type req = OP_CREATE_ACCOUNT \<Longrightarrow> rep_code r1 \<noteq> RC_OK"
      using v False by (auto simp: validate_request_def bind_res_eq_Inr dest!: validate_admin_Inr)
    then show ?thesis using p False by (auto simp: r' spec_auth_def Let_def)
  qed
qed

end
