(* ===== verification/Bank_Properties.thy ===== *)
theory Bank_Properties
  imports Requests
begin

text \<open>
  The properties of account creation, login and request processing, with a concrete shell
  and bank to evaluate them on.
\<close>

section \<open>A concrete shell\<close>

text \<open>
  A stand-in digest, the first 64 characters of the text padded with zeros, and a shell that
  finds the word after \<open>echo -n\<close>, quoted or not.
\<close>

definition sample_digest :: "string \<Rightarrow> string" where
  "sample_digest s = take 64 (s @ replicate 64 CHR ''0'')"

definition sample_output :: "string \<Rightarrow> string" where
  "sample_output cmd =
     (let rest = dropWhile (\<lambda>c. c = CHR 0x22) (drop 8 cmd)
      in sha256_line (sample_digest (takeWhile (\<lambda>c. c \<in> set charset) rest)))"

definition sample_shell :: shell where
  "sample_shell = \<lparr>sh_output = sample_output, sh_spare = 1\<rparr>"


lemma alnum_take: "alnum s \<Longrightarrow> alnum (take n s)"
  using set_take_subset [of n s] by (auto simp: alnum_def)

lemma alnum_zeros: "alnum (replicate n CHR ''0'')"
proof -
  have "CHR ''0'' \<in> set charset" by (simp add: charset_def)
  then show ?thesis by (cases n) (auto simp: alnum_def)
qed

lemma sample_digest: "alnum s \<Longrightarrow> alnum (sample_digest s)" "length (sample_digest s) = 64"
  unfolding sample_digest_def by (simp_all add: alnum_take alnum_zeros)

lemma quote_not_alnum: "CHR 0x22 \<notin> set charset"
  by (simp add: charset_def)

lemma drop_quotes:
  assumes "alnum s" and "c \<noteq> CHR 0x22"
  shows "dropWhile (\<lambda>c. c = CHR 0x22) (s @ c # t) = s @ c # t"
  using assms quote_not_alnum by (cases s) (auto simp: alnum_def)

lemma take_word:
  assumes "alnum s" and "c \<notin> set charset"
  shows "takeWhile (\<lambda>c. c \<in> set charset) (s @ c # t) = s"
  using assms by (simp add: alnum_def takeWhile_append subset_iff)

lemma sample_shell_plain: "alnum s \<Longrightarrow> sample_output (plain_command s) = sha256_line (sample_digest s)"
  using drop_quotes [of s "CHR '' ''" "''| sha256sum''"] take_word [of s "CHR '' ''" "''| sha256sum''"]
    charset_chars
  by (simp add: sample_output_def plain_command_def Let_def)

lemma sample_shell_quoted: "alnum s \<Longrightarrow> sample_output (quoted_command s) = sha256_line (sample_digest s)"
proof -
  assume s: "alnum s"
  have "takeWhile (\<lambda>c. c \<in> set charset) (dropWhile (\<lambda>c. c = CHR 0x22) (s @ CHR 0x22 # '' | sha256sum'')) = s"
  proof (cases s)
    case Nil
    then show ?thesis using charset_chars by simp
  next
    case (Cons x xs)
    then have "x \<noteq> CHR 0x22" using s quote_not_alnum by (auto simp: alnum_def)
    then show ?thesis using Cons take_word [OF s quote_not_alnum] by simp
  qed
  then show ?thesis by (simp add: sample_output_def quoted_command_def Let_def)
qed

lemma sample_output: "sha256_output sample_output sample_digest"
  by (simp add: sha256_output_def sample_digest sample_shell_plain sample_shell_quoted)

lemma sample_shell: "sha256_shell sample_shell sample_digest"
  by (simp add: sha256_shell_def sample_shell_def sample_output)

text \<open>
  The bank after the start: the administrator with password \<open>adminpass1\<close>, two users with
  \<open>userpass1\<close> and \<open>userpass2\<close>, and short salts.
\<close>

definition sample_account :: "u32 \<Rightarrow> string \<Rightarrow> u32 \<Rightarrow> bank_account" where
  "sample_account i p x =
     \<lparr>acc_account_id = i, acc_hash = sample_digest (p @ ''salt''), acc_salt = ''salt'', acc_balance = x\<rparr>"

definition sample_bank :: bank where
  "sample_bank = set_account 0 (sample_account 0 ''adminpass1'' 0)
     (set_account 1 (sample_account 1 ''userpass1'' 500)
     (set_account 2 (sample_account 2 ''userpass2'' 20) static_bank))"

lemma sample_words: "alnum ''salt''" "alnum ''adminpass1''" "alnum ''userpass1''" "alnum ''userpass2''"
  by (simp_all add: alnum_def charset_def)

lemma sample_bank: "bank_ok sample_bank" "ledger sample_bank 1 = Some 500" "ledger sample_bank 2 = Some 20"
  using sample_words(1)
  by (auto simp: bank_ok_def sample_bank_def sample_account_def account_ok_def SALT_LEN_def ledger_def
      intro!: bank_inv_set salts_ok_set)

section \<open>One request\<close>

definition transfer_request :: "u32 \<Rightarrow> string \<Rightarrow> u32 \<Rightarrow> u32 \<Rightarrow> tlv_request" where
  "transfer_request i p j x =
     sample_request OP_TRANSFER i p \<lparr>crt_account_id = j, crt_balance = x, crt_password = []\<rparr>"

definition create_request :: "string \<Rightarrow> u32 \<Rightarrow> u32 \<Rightarrow> string \<Rightarrow> tlv_request" where
  "create_request p j x q =
     sample_request OP_CREATE_ACCOUNT 0 p \<lparr>crt_account_id = j, crt_balance = x, crt_password = q\<rparr>"

lemma sample_requests_ok:
  "request_ok (transfer_request 1 ''userpass1'' 2 30)"
  "request_ok (create_request ''adminpass1'' 3 70 ''userpass3'')"
  by (simp_all add: request_ok_def transfer_request_def create_request_def sample_request_def
      MAX_PASSWORD_LEN_def MAX_BANK_ACCOUNTS_def alnum_def charset_def)

lemma sample_transfer_spec:
  "spec_request (accepts sample_digest sample_bank) (transfer_request 1 ''userpass1'' 2 30) (ledger sample_bank) =
    (RC_OK, (ledger sample_bank)(1 \<mapsto> 470, 2 \<mapsto> 50))"
  using sample_bank
  by (simp add: spec_request_def transfer_request_def sample_request_def spec_login_user_def accepts_def
      spec_transfer_def value_transfer_def ledger_transfer_def Let_def)
    (simp add: sample_bank_def sample_account_def)

text \<open>
  C1: The server answers a request as its specification says. For a bank whose accounts and salts
  are in order and every well-formed request (one of the four operations, passwords of letters
  and digits that fit their fields, ids inside the array), with a shell that prints sha256sum's line and an unused byte
  behind the array hash, which that line overruns by one (see hash_buffer_overflow), acknowledge_request returns; the
  return code and the new ledger are those of spec_request under the passwords the stored
  hashes accept; the reply carries the operation, its length and the requester's id,
  and the accounts and salts stay in order. spec_request has the codes
  of the code, not of types.h, where the two differ: a transfer that gets past the login is
  what types.h documents only outside the cases of transfer_departure (C2), a role is refused
  with RC_OP_NALLOW before the password is looked at, and an id without an account at login is
  RC_ID_NOT_FOUND.
\<close>

theorem acknowledge_request_refines:
  assumes "sha256_shell sh digest" and "bank_ok b" and "request_ok req"
  shows "\<exists>reply' b'. acknowledge_request sh rnd office_id req reply b = Inr (reply', b') \<and>
    (rep_code reply', ledger b') = spec_request (accepts digest b) req (ledger b) \<and>
    (req_type req = OP_TRANSFER \<and> spec_login_user (accepts digest b) (req_hdr req) (ledger b) = RC_OK \<and>
      transfer_departure (unat (hdr_account_id (req_hdr req))) (unat (trf_account_id (value_transfer (req_val req))))
        (unat (trf_amount (value_transfer (req_val req)))) (ledger b) = None \<longrightarrow>
      (rep_code reply', ledger b') =
        documented_transfer (unat (hdr_account_id (req_hdr req))) (unat (trf_account_id (value_transfer (req_val req))))
          (unat (trf_amount (value_transfer (req_val req)))) (ledger b)) \<and>
    rep_type reply' = req_type req \<and> rep_length reply' = 12 \<and>
    rhd_account_id (rep_header (rep_val reply')) = hdr_account_id (req_hdr req) \<and> bank_ok b'"
proof -
  let ?i = "hdr_account_id (req_hdr req)" and ?t = "value_transfer (req_val req)"
  have "spec_request (accepts digest b) req (ledger b) =
      documented_transfer (unat ?i) (unat (trf_account_id ?t)) (unat (trf_amount ?t)) (ledger b)"
    if "req_type req = OP_TRANSFER" and login: "spec_login_user (accepts digest b) (req_hdr req) (ledger b) = RC_OK"
      and "transfer_departure (unat ?i) (unat (trf_account_id ?t)) (unat (trf_amount ?t)) (ledger b) = None"
  proof -
    have "ledger b (unat ?i) \<noteq> None" using login by (auto simp: spec_login_user_def Let_def split: if_splits)
    moreover have "unat (trf_account_id ?t) < 4096" using assms(3) that(1) by (simp add: request_ok_def value_transfer_def)
    ultimately show ?thesis
      using spec_transfer_documented [of b ?i ?t] assms(2) that by (simp add: spec_request_def bank_ok_def)
  qed
  then show ?thesis
    using acknowledge_refines [OF assms, of rnd office_id reply] acknowledge_effect [OF _ assms(2)]
    by (fastforce simp: message_sizes)
qed

theorem acknowledge_request_refines_witness:
  "\<exists>reply' b'. acknowledge_request sample_shell id 1 (transfer_request 1 ''userpass1'' 2 30) sample_reply sample_bank =
      Inr (reply', b') \<and>
    rep_code reply' = RC_OK \<and> ledger b' 1 = Some 470 \<and> ledger b' 2 = Some 50"
proof -
  show ?thesis
    using sample_transfer_spec acknowledge_request_refines [OF sample_shell sample_bank(1) sample_requests_ok(1), of id 1 sample_reply]
    by auto
qed

text \<open>
  Money comes from account creations only. Whatever sequence of requests an office
  processes, well-formed or not, as long as it returns the accounts and salts stay in order
  and the sum of all balances is the initial one plus the initial balances of the accounts
  whose creation was answered RC_OK.
\<close>

theorem requests_balance_the_books:
  assumes "bank_ok b" and "run_steps (office_step sh rnd office_id) reqs (reply, b) = Inr ss"
  shows "total_funds (snd (last ((reply, b) # ss))) =
      total_funds b + (\<Sum>(req, s)\<leftarrow>zip reqs ss. deposit req (fst s)) \<and>
    (\<forall>s\<in>set ss. bank_ok (snd s))"
  using office.run_amount [OF _ assms(2)] office.run_inv [OF _ assms(2)] assms(1) by simp

lemma office_step_returns:
  assumes "bank_ok (snd s)" and "request_ok req"
  shows "\<exists>s'. office_step sample_shell rnd office_id req s = Inr s' \<and> bank_ok (snd s')"
  using acknowledge_refines [OF sample_shell assms, of rnd office_id "fst s"] acknowledge_effect [OF _ assms(1)]
  by (fastforce simp: office_step_def)

lemma run_steps_returns:
  "bank_ok (snd s) \<Longrightarrow> \<forall>r\<in>set reqs. request_ok r \<Longrightarrow>
    \<exists>ss. run_steps (office_step sample_shell rnd office_id) reqs s = Inr ss"
proof (induction reqs arbitrary: s)
  case (Cons r reqs)
  then obtain s' where "office_step sample_shell rnd office_id r s = Inr s'" "bank_ok (snd s')"
    using office_step_returns [of s r rnd office_id] by auto
  then show ?case using Cons.IH [of s'] Cons.prems by auto
qed simp

theorem requests_balance_the_books_witness:
  "\<exists>ss. run_steps (office_step sample_shell id 1)
      [create_request ''adminpass1'' 3 70 ''userpass3'', transfer_request 1 ''userpass1'' 2 30]
      (sample_reply, sample_bank) = Inr ss \<and>
    total_funds (snd (last ss)) = total_funds sample_bank +
      (\<Sum>(req, s)\<leftarrow>zip [create_request ''adminpass1'' 3 70 ''userpass3'', transfer_request 1 ''userpass1'' 2 30] ss.
         deposit req (fst s))"
proof -
  let ?reqs = "[create_request ''adminpass1'' 3 70 ''userpass3'', transfer_request 1 ''userpass1'' 2 30]"
  obtain ss where ss: "run_steps (office_step sample_shell id 1) ?reqs (sample_reply, sample_bank) = Inr ss"
    using run_steps_returns [of "(sample_reply, sample_bank)" ?reqs id 1] sample_bank(1) sample_requests_ok by auto
  then have "ss \<noteq> []" using office.run_length [OF ss] by auto
  then show ?thesis using requests_balance_the_books [OF sample_bank(1) ss] ss by auto
qed

text \<open>
  C4: Only the owner pays, and only the administrator opens accounts. Let the bank and the request be
  well-formed, the shell as in C1, and let processing the request change what the ledger says
  of an account. If the account was open, the request is a transfer, answered RC_OK, whose
  sender is not the administrator and gives a password that the sender's stored hash accepts; the account is the sender's,
  or its balance has risen. If it was not open, the request is a creation of exactly this
  account with id 0 and a password that the administrator's stored hash accepts, answered
  RC_OK, and the account is open with the balance requested.
\<close>

theorem only_the_owner_pays:
  assumes "sha256_shell sh digest" and "bank_ok b" and "request_ok req"
    and "acknowledge_request sh rnd office_id req reply b = Inr (reply', b')"
    and "ledger b' k \<noteq> ledger b k"
  shows "rep_code reply' = RC_OK \<and>
    accepts digest b (unat (hdr_account_id (req_hdr req))) (hdr_password (req_hdr req)) \<and>
    (case ledger b k of
       Some x \<Rightarrow> req_type req = OP_TRANSFER \<and> hdr_account_id (req_hdr req) \<noteq> 0 \<and>
         (k = unat (hdr_account_id (req_hdr req)) \<or> (\<exists>y > x. ledger b' k = Some y))
     | None \<Rightarrow> req_type req = OP_CREATE_ACCOUNT \<and> hdr_account_id (req_hdr req) = 0 \<and>
         k = unat (crt_account_id (value_create (req_val req))) \<and>
         ledger b' k = Some (unat (crt_balance (value_create (req_val req)))))"
proof -
  have spec: "(rep_code reply', ledger b') = spec_request (accepts digest b) req (ledger b)"
    using acknowledge_refines [OF assms(1-3), of rnd office_id reply] assms(4) by auto
  then have L: "rep_code reply' = fst (spec_request (accepts digest b) req (ledger b))"
    "ledger b' = snd (spec_request (accepts digest b) req (ledger b))"
    by (metis fst_conv, metis snd_conv)
  let ?i = "unat (hdr_account_id (req_hdr req))" and ?t = "value_transfer (req_val req)"
  from assms(3,5) consider (create) "req_type req = OP_CREATE_ACCOUNT" | (transfer) "req_type req = OP_TRANSFER"
    unfolding L by (auto simp: request_ok_def spec_request_def Let_def)
  then show ?thesis
  proof cases
    case create
    then show ?thesis
      using assms(5) unfolding L
      by (auto simp: spec_request_def spec_create_def spec_login_admin_def Let_def split: if_splits option.split)
  next
    case transfer
    have login: "spec_login_user (accepts digest b) (req_hdr req) (ledger b) = RC_OK"
      using transfer assms(5) unfolding L by (auto simp: spec_request_def Let_def split: if_splits)
    then have auth: "accepts digest b ?i (hdr_password (req_hdr req))" "hdr_account_id (req_hdr req) \<noteq> 0"
      by (auto simp: spec_login_user_def Let_def split: if_splits)
    obtain L' where L': "ledger_transfer ?i (unat (trf_account_id ?t)) (unat (trf_amount ?t)) (ledger b) = Some L'"
      "ledger b' = L'" "rep_code reply' = RC_OK"
      using transfer login assms(5) unfolding L
      by (auto simp: spec_request_def spec_transfer_def Let_def split: if_splits option.splits)
    have "\<exists>x. ledger b k = Some x \<and> (k = ?i \<or> (\<exists>y > x. ledger b' k = Some y))"
      using L'(1) assms(5) unfolding L'(2)
      by (auto simp: ledger_transfer_def split: option.splits if_splits)
    with transfer auth L'(3) show ?thesis by auto
  qed
qed

theorem only_the_owner_pays_witness:
  "\<exists>reply' b'. acknowledge_request sample_shell id 1 (transfer_request 1 ''userpass1'' 2 30) sample_reply sample_bank =
      Inr (reply', b') \<and> ledger b' 1 \<noteq> Some 500 \<and> accepts sample_digest sample_bank 1 ''userpass1''"
proof -
  let ?r = "transfer_request 1 ''userpass1'' 2 30"
  obtain reply' b' where r: "acknowledge_request sample_shell id 1 ?r sample_reply sample_bank = Inr (reply', b')"
    "ledger b' 1 = Some 470"
    using sample_transfer_spec acknowledge_refines [OF sample_shell sample_bank(1) sample_requests_ok(1), of id 1 sample_reply]
    by auto
  then show ?thesis
    using only_the_owner_pays [OF sample_shell sample_bank(1) sample_requests_ok(1) r(1), of 1] sample_bank(2)
    by (auto simp: transfer_request_def sample_request_def)
qed

section \<open>Accounts and logins\<close>

text \<open>
  C36: Creating an account does what the ledger promises. For a bank in order, a password of
  letters and digits and an id inside the array, with a shell that prints sha256sum's line and an unused
  byte behind the array hash (the line overruns it by one, see hash_buffer_overflow),
  create_user_account returns; it reports failure (1)
  exactly when the specification refuses, with the specification's code and nothing
  changed, and otherwise the ledger gains the account, empty before, with its balance.
\<close>

theorem create_user_account_refines:
  assumes "sha256_shell sh digest" and "bank_ok b" and "alnum (crt_password c)"
    and "unat (crt_account_id c) < 4096"
  shows "\<exists>failed rv' b'. create_user_account sh rnd c rv b = Inr (failed, rv', b') \<and>
    rhd_ret_code (rep_header rv') = spec_create c (ledger b) \<and>
    (failed \<longleftrightarrow> spec_create c (ledger b) \<noteq> RC_OK) \<and>
    (if failed then b' = b
     else ledger_open (unat (crt_account_id c)) (unat (crt_balance c)) (ledger b) = Some (ledger b') \<and> bank_ok b')"
proof -
  have v: "create_verdict c b = spec_create c (ledger b)" using assms(4) by (rule create_verdict_spec)
  have ne: "crt_account_id c \<noteq> MAX_BANK_ACCOUNTS" using assms(4) by (auto simp: MAX_BANK_ACCOUNTS_def)
  have ok: "bank_inv b" "salts_ok b" using assms(2) by (simp_all add: bank_ok_def)
  show ?thesis
  proof (cases "create_verdict c b = RC_OK")
    case True
    show ?thesis
      using create_user_account_stores [OF assms(1,3) True assms(4), of rnd rv] v True
        created_effect(1,3) [OF ok(1) True assms(4)] salts_ok_created [OF ok(2)]
      by (intro exI [of _ False]) (simp add: bank_ok_def)
  next
    case False
    then show ?thesis
      using create_user_account_eq [OF ne, of sh rnd rv b] v by (intro exI [of _ True]) (simp add: Let_def)
  qed
qed

definition sample_create :: "u32 \<Rightarrow> u32 \<Rightarrow> string \<Rightarrow> req_create_account" where
  "sample_create i x p = \<lparr>crt_account_id = i, crt_balance = x, crt_password = p\<rparr>"

lemma sample_create_3:
  "spec_create (sample_create 3 70 ''userpass3'') (ledger sample_bank) = RC_OK"
  "alnum (crt_password (sample_create 3 70 ''userpass3''))"
  "create_verdict (sample_create 3 70 ''userpass3'') sample_bank = RC_OK"
  by (simp_all add: spec_create_def sample_create_def Let_def ledger_def alnum_def charset_def
      create_verdict_def sample_bank_def static_bank_def zero_account_def)

theorem create_user_account_refines_witness:
  "\<exists>rv' b'. create_user_account sample_shell id (sample_create 3 70 ''userpass3'') (rep_val sample_reply) sample_bank =
      Inr (False, rv', b') \<and> ledger b' 3 = Some 70"
proof -
  obtain rv' b' where r: "create_user_account sample_shell id (sample_create 3 70 ''userpass3'') (rep_val sample_reply) sample_bank =
      Inr (False, rv', b')" "ledger_open 3 70 (ledger sample_bank) = Some (ledger b')"
    using create_user_account_refines [OF sample_shell sample_bank(1) sample_create_3(2), of id "rep_val sample_reply"] sample_create_3(1)
    by (auto simp: sample_create_def)
  from ledger_openD [OF r(2)] have "ledger b' 3 = Some 70" by simp
  with r(1) show ?thesis by blast
qed

lemma in_bounds:
  "strcpy n t \<noteq> Inl (Undefined OutOfBounds)" "strcat n t u \<noteq> Inl (Undefined OutOfBounds)"
  "echo_plain p u \<noteq> Inl (Undefined OutOfBounds)" "echo_quoted p u \<noteq> Inl (Undefined OutOfBounds)"
  "popen_line sh t \<noteq> Inl (Undefined OutOfBounds)" "copy_token n t \<noteq> Inl (Undefined OutOfBounds)"
  by (auto simp: strcpy_def strcat_def echo_plain_def echo_quoted_def hash_command_def popen_line_def
      copy_token_def bind_res_eq_Inl split: if_splits option.splits)

text \<open>
  C38: The range checks of ids admit 4096, for which accounts has no element: creating
  account 4096, and the login of a user 4096, index one past the end. That is the only id
  for which creation leaves the array, and the only one for which login does.
\<close>

theorem id_4096_out_of_bounds:
  "(create_user_account sh rnd c rv b = Inl (Undefined OutOfBounds) \<longleftrightarrow> crt_account_id c = 4096) \<and>
   (validate_user sh b h rv = Inl (Undefined OutOfBounds) \<longleftrightarrow> hdr_account_id h = 4096)"
proof
  have "create_user_account sh rnd c rv b \<noteq> Inl (Undefined OutOfBounds)" if "crt_account_id c \<noteq> MAX_BANK_ACCOUNTS"
    unfolding create_user_account_eq [OF that] Let_def
    by (auto simp: in_bounds bind_res_eq_Inl)
  then show "create_user_account sh rnd c rv b = Inl (Undefined OutOfBounds) \<longleftrightarrow> crt_account_id c = 4096"
    using create_user_account_4096 [of c sh rnd rv b] by (auto simp: MAX_BANK_ACCOUNTS_def)
  have check: "check_password sh a h rv \<noteq> Inl (Undefined OutOfBounds)" for a
    unfolding check_password_def by (auto simp: in_bounds bind_res_eq_Inl)
  show "validate_user sh b h rv = Inl (Undefined OutOfBounds) \<longleftrightarrow> hdr_account_id h = 4096"
  proof (cases "hdr_account_id h < MAX_BANK_ACCOUNTS")
    case True
    then show ?thesis using check by (auto simp: validate_user_def MAX_BANK_ACCOUNTS_def)
  next
    case False
    have "between 1 (hdr_account_id h) MAX_BANK_ACCOUNTS \<longleftrightarrow> hdr_account_id h = 4096"
      using False by (auto simp: between_def MAX_BANK_ACCOUNTS_def)
    then show ?thesis using False by (auto simp: validate_user_def is_admin_def account_at_out)
  qed
qed

text \<open>
  C37: Login round trip for passwords of letters and digits. With a shell that prints sha256sum's line and
  an unused byte behind the array hash (see hash_buffer_overflow), in a bank in order,
  create_user_account stores an account that it does not refuse, for any such password; then
  validate_user for its id accepts a password of at most 20 letters and digits exactly when
  its digest with the account's salt is the digest of the password given at creation, although
  the two commands differ (unquoted there, quoted here). In particular the password itself
  logs in, and another one only by a collision. Of passwords with other characters, which
  the shell interprets in the unquoted command, nothing is said.
\<close>

theorem login_after_creation:
  assumes "sha256_shell sh digest" and "bank_ok b" and "alnum (crt_password c)"
    and "create_verdict c b = RC_OK" and "unat (crt_account_id c) < 4096"
    and "hdr_account_id h = crt_account_id c" and "alnum (hdr_password h)" and "length (hdr_password h) \<le> 20"
  shows "\<exists>rv' b'. create_user_account sh rnd c rv b = Inr (False, rv', b') \<and>
    validate_user sh b' h rv =
      Inr (if digest (hdr_password h @ new_salt rnd b) = digest (crt_password c @ new_salt rnd b)
           then (True, set_code RC_OK rv) else (False, set_code RC_LOGIN_FAIL rv))"
proof -
  let ?b' = "created c (new_salt rnd b) (digest (crt_password c @ new_salt rnd b)) (rand_pos b + 63) b"
  have salts: "salts_ok ?b'" using assms(2) by (simp add: bank_ok_def salts_ok_created)
  have ids: "unat (crt_account_id c) \<noteq> 0" "hdr_account_id h \<noteq> MAX_BANK_ACCOUNTS"
    using assms(4,5,6) by (auto simp: create_verdict_OK MAX_BANK_ACCOUNTS_def)
  have len: "length (hdr_password h) \<le> MAX_PASSWORD_LEN" using assms(8) by (simp add: MAX_PASSWORD_LEN_def)
  have L: "ledger ?b' (unat (crt_account_id c)) = None \<longleftrightarrow> False"
    using ids(1) assms(5) by (simp add: ledger_def)
  have "validate_user sh ?b' h rv =
      Inr (if digest (hdr_password h @ new_salt rnd b) = digest (crt_password c @ new_salt rnd b)
           then (True, set_code RC_OK rv) else (False, set_code RC_LOGIN_FAIL rv))"
    using validate_user_eq [OF assms(1) salts assms(7) len ids(2), of rv] assms(5,6) ids(1)
    by (simp add: Let_def L)
  with create_user_account_stores [OF assms(1,3,4,5), of rnd rv] show ?thesis by blast
qed

theorem login_after_creation_witness:
  "\<exists>rv' b'. create_user_account sample_shell id (sample_create 3 70 ''userpass3'') (rep_val sample_reply) sample_bank = Inr (False, rv', b') \<and>
    validate_user sample_shell b'
      \<lparr>hdr_pid = 1, hdr_account_id = 3, hdr_password = ''userpass3'', hdr_op_delay_ms = 0\<rparr> (rep_val sample_reply) =
      Inr (True, set_code RC_OK (rep_val sample_reply))"
  using login_after_creation [OF sample_shell sample_bank(1) sample_create_3(2,3),
      of "\<lparr>hdr_pid = 1, hdr_account_id = 3, hdr_password = ''userpass3'', hdr_op_delay_ms = 0\<rparr>" id "rep_val sample_reply"]
  by (simp add: sample_create_def alnum_def charset_def)

text \<open>
  The start of the server sets the administrator's password. For a password of letters
  and digits, create_admin_account ends the process with status 1 exactly when its length is
  not in 8..20; otherwise account 0 has id and balance 0, no other account changes, and
  validate_admin accepts exactly the passwords with the same digest.
\<close>

theorem admin_account_login:
  assumes "sha256_shell sh digest" and "bank_ok b" and "alnum p"
    and "hdr_account_id h = 0" and "alnum (hdr_password h)" and "length (hdr_password h) \<le> 20"
  shows "if 8 \<le> length p \<and> length p \<le> 20
    then \<exists>b'. create_admin_account sh rnd p b = Inr b' \<and> bank_ok b' \<and>
      acc_account_id (accounts b' 0) = 0 \<and> acc_balance (accounts b' 0) = 0 \<and>
      (\<forall>k \<noteq> 0. accounts b' k = accounts b k) \<and>
      validate_admin sh b' h rv =
        Inr (if digest (hdr_password h @ new_salt rnd b) = digest (p @ new_salt rnd b)
             then (True, set_code RC_OK rv) else (False, set_code RC_LOGIN_FAIL rv))
    else create_admin_account sh rnd p b = Inl (Exit 1)"
proof (cases "8 \<le> length p \<and> length p \<le> 20")
  case True
  let ?a = "admin_account (new_salt rnd b) (digest (p @ new_salt rnd b)) (accounts b 0)"
  let ?b' = "(set_account ADMIN_ACCOUNT_ID ?a b)\<lparr>rand_pos := rand_pos b + 63\<rparr>"
  have ok: "bank_inv ?b'" "salts_ok ?b'"
    using assms(2) unfolding bank_ok_def bank_inv_frame salts_ok_frame
    by (auto intro!: bank_inv_set salts_ok_set simp: account_ok_def admin_account_def ADMIN_ACCOUNT_ID_def SALT_LEN_def)
  have len: "length (hdr_password h) \<le> MAX_PASSWORD_LEN" using assms(6) by (simp add: MAX_PASSWORD_LEN_def)
  have "create_admin_account sh rnd p b = Inr ?b'"
    using create_admin_account_eq [OF assms(1,3)] True by blast
  moreover have "validate_admin sh ?b' h rv =
      Inr (if digest (hdr_password h @ new_salt rnd b) = digest (p @ new_salt rnd b)
           then (True, set_code RC_OK rv) else (False, set_code RC_LOGIN_FAIL rv))"
    using validate_admin_eq [OF assms(1) ok(2) assms(5) len, of rv] assms(4)
    by (simp add: admin_account_def ADMIN_ACCOUNT_ID_def)
  ultimately show ?thesis
    using True ok by (simp add: bank_ok_def admin_account_def ADMIN_ACCOUNT_ID_def)
next
  case False
  then have "\<not> between MIN_PASSWORD_LEN (length p) MAX_PASSWORD_LEN" by (auto simp: password_between_iff)
  with False show ?thesis by (auto simp: create_admin_account_def Let_def)
qed

theorem admin_account_login_witness:
  "\<exists>b'. create_admin_account sample_shell id ''adminpass1'' static_bank = Inr b' \<and>
    validate_admin sample_shell b'
      \<lparr>hdr_pid = 1, hdr_account_id = 0, hdr_password = ''adminpass1'', hdr_op_delay_ms = 0\<rparr> (rep_val sample_reply) =
      Inr (True, set_code RC_OK (rep_val sample_reply))"
  using admin_account_login [OF sample_shell bank_ok_static sample_words(2),
      of "\<lparr>hdr_pid = 1, hdr_account_id = 0, hdr_password = ''adminpass1'', hdr_op_delay_ms = 0\<rparr>" id "rep_val sample_reply"]
    sample_words(2)
  by auto

lemma spaces_kept: "CHR '' '' \<notin> set w \<Longrightarrow> strtok_buffer '' '' (replicate n CHR '' '' @ w) = replicate n CHR '' '' @ w"
proof -
  assume w: "CHR '' '' \<notin> set w"
  then have "takeWhile (\<lambda>c. c = CHR '' '') w = []" "dropWhile (\<lambda>c. c = CHR '' '') w = w"
    "takeWhile (\<lambda>c. c \<noteq> CHR '' '') w = w"
    by (cases w; auto)+
  then show ?thesis by (simp add: strtok_buffer_def takeWhile_append dropWhile_append)
qed

text \<open>
  The check for spaces in the administrator's password misses leading ones. strtok cuts
  the password at the first space after a word, so a password of spaces followed by a word,
  or of spaces only, passes create_admin_account's test (no exit) when its length is right.
\<close>

theorem admin_password_with_spaces:
  assumes "CHR '' '' \<notin> set w" and "8 \<le> n + length w" and "n + length w \<le> 20"
  shows "create_admin_account sh rnd (replicate n CHR '' '' @ w) b \<noteq> Inl (Exit s)"
proof -
  let ?p = "replicate n CHR '' '' @ w"
  have p: "between MIN_PASSWORD_LEN (length ?p) MAX_PASSWORD_LEN" "strtok_buffer '' '' ?p = ?p"
    using assms by (auto simp: password_between_iff spaces_kept)
  have "m \<noteq> Inl (Exit s)"
    if "m \<in> {strcpy k t, echo_quoted t u, popen_line sh t, copy_token k t}" for m :: "string res" and k t u
    using that by (auto simp: strcpy_def strcat_def echo_quoted_def hash_command_def popen_line_def
        copy_token_def bind_res_eq_Inl split: if_splits option.splits)
  then show ?thesis
    unfolding create_admin_account_def Let_def p(2) rand_string_salt prod.case
    using p(1) by (auto simp: bind_res_eq_Inl account_at_def)
qed

theorem admin_password_with_spaces_witness:
  "create_admin_account sample_shell id ''        '' static_bank \<noteq> Inl (Exit 1)"
  using admin_password_with_spaces [of "[]" 8 sample_shell id static_bank 1] by (simp add: eval_nat_numeral)

section \<open>Errors and side effects\<close>

text \<open>
  The kind of user is checked before the password. Whatever the password, a request for
  an administrator's operation by a user, and a user's operation by the administrator, is
  refused with RC_OP_NALLOW, although RC_LOGIN_FAIL comes first in the list of types.h that
  says to return the first error; no shell command is run.
\<close>

theorem role_checked_before_password:
  assumes "req_type req \<in> {OP_CREATE_ACCOUNT, OP_SHUTDOWN} \<and> hdr_account_id (req_hdr req) \<noteq> 0 \<or>
    req_type req \<in> {OP_BALANCE, OP_TRANSFER} \<and> hdr_account_id (req_hdr req) = 0"
  shows "validate_request sh b req reply =
      Inr (False, reply\<lparr>rep_val := set_code RC_OP_NALLOW (rep_val reply)\<rparr>) \<and>
    RC_LOGIN_FAIL < RC_OP_NALLOW"
  using assms
  by (auto simp: validate_request_def validate_admin_def validate_user_def is_admin_def less_ret_code_def)

theorem role_checked_before_password_witness:
  "validate_request sample_shell sample_bank (balance_request 0) sample_reply =
    Inr (False, sample_reply\<lparr>rep_val := set_code RC_OP_NALLOW (rep_val sample_reply)\<rparr>)"
  using role_checked_before_password [of "balance_request 0"]
  by (simp add: balance_request_def sample_request_def)

text \<open>
  A request of an unknown operation is answered with the code of another request.
  acknowledge_request sets no return code for it: the reply, which the office reuses, keeps
  the code and the value it had, RC_OK included, and no account changes.
\<close>

theorem unknown_operation_keeps_old_code:
  assumes "req_type req \<notin> {OP_CREATE_ACCOUNT, OP_BALANCE, OP_TRANSFER, OP_SHUTDOWN}"
  shows "\<exists>reply' b'. acknowledge_request sh rnd office_id req reply b = Inr (reply', b') \<and>
    rep_code reply' = rep_code reply \<and> rep_word (rep_val reply') = rep_word (rep_val reply) \<and>
    accounts b' = accounts b"
  using assms
  by (cases "req_type req")
    (auto simp: acknowledge_request_def validate_request_def set_account_id_def Let_def)

theorem unknown_operation_keeps_old_code_witness:
  "\<exists>reply' b'. acknowledge_request sample_shell id 1
      ((balance_request 1)\<lparr>req_type := OP_RAW 77\<rparr>) (sample_reply\<lparr>rep_val := set_code RC_OK (rep_val sample_reply)\<rparr>) sample_bank =
      Inr (reply', b') \<and> rep_code reply' = RC_OK"
  using unknown_operation_keeps_old_code [of "(balance_request 1)\<lparr>req_type := OP_RAW 77\<rparr>" sample_shell id 1
      "sample_reply\<lparr>rep_val := set_code RC_OK (rep_val sample_reply)\<rparr>" sample_bank]
  by auto

text \<open>
  The log of account creations is inverted. create_user_account returns 1 on failure, and
  acknowledge_request logs on 1: a request of the administrator that creates an account adds
  nothing to the log, one that is refused adds one line, about the account as it is stored.
\<close>

theorem creation_logged_on_failure_only:
  assumes "sha256_shell sh digest" and "bank_ok b" and "request_ok req"
    and "req_type req = OP_CREATE_ACCOUNT" and "spec_login_admin (accepts digest b) (req_hdr req) = RC_OK"
  shows "\<exists>reply' b'. acknowledge_request sh rnd office_id req reply b = Inr (reply', b') \<and>
    slog b' = (if spec_create (value_create (req_val req)) (ledger b) = RC_OK then slog b
      else snd (logAccountCreation office_id
        (Some (accounts b (unat (crt_account_id (value_create (req_val req)))))) (slog b)))"
proof -
  let ?c = "value_create (req_val req)"
  let ?k = "unat (crt_account_id ?c)"
  let ?b = "usleep (hdr_op_delay_ms (req_hdr req)) b"
  let ?r = "reply\<lparr>rep_type := req_type req, rep_val := set_account_id (hdr_account_id (req_hdr req)) (rep_val reply)\<rparr>"
  have k: "?k < 4096" and p: "alnum (crt_password ?c)" using assms(3,4) by (auto simp: request_ok_def)
  have ne: "crt_account_id ?c \<noteq> MAX_BANK_ACCOUNTS" using k by (auto simp: MAX_BANK_ACCOUNTS_def)
  have at: "account_at ?b (crt_account_id ?c) = Inr (accounts b ?k)"
    using k by (simp add: index_less_iff)
  have auth: "accepts digest ?b = accepts digest b" by (simp add: accepts_def fun_eq_iff)
  have v: "\<exists>r1. validate_request sh ?b req ?r = Inr (True, r1)"
    using validate_request_eq [OF assms(1) _ assms(3), of ?b ?r] assms(2,4,5) auth by (simp add: Let_def)
  have cv: "create_verdict ?c ?b = spec_create ?c (ledger b)" using create_verdict_spec [OF k, of ?b] by simp
  have p: "\<exists>r2 b2. perform sh rnd office_id req r1 ?b = Inr (r2, b2) \<and>
    slog b2 = (if spec_create ?c (ledger b) = RC_OK then slog b
      else snd (logAccountCreation office_id (Some (accounts b ?k)) (slog b)))" for r1
  proof (cases "create_verdict ?c ?b = RC_OK")
    case True
    show ?thesis
      using create_user_account_stores [OF assms(1) p True k, of rnd "rep_val r1"] True cv assms(4)
      by (simp add: perform_def created_def)
  next
    case False
    then show ?thesis
      using create_user_account_eq [OF ne, of sh rnd "rep_val r1" ?b] cv assms(4) at
      by (simp add: perform_def Let_def)
  qed
  obtain r1 where r1: "validate_request sh ?b req ?r = Inr (True, r1)" using v by blast
  from p [of r1] r1 show ?thesis by (auto simp: acknowledge_request_def Let_def)
qed

theorem creation_logged_on_failure_only_witness:
  "\<exists>reply' b'. acknowledge_request sample_shell id 1 (create_request ''adminpass1'' 3 70 ''userpass3'') sample_reply sample_bank =
      Inr (reply', b') \<and> slog b' = []"
proof -
  have "req_type (create_request ''adminpass1'' 3 70 ''userpass3'') = OP_CREATE_ACCOUNT"
    "value_create (req_val (create_request ''adminpass1'' 3 70 ''userpass3'')) = sample_create 3 70 ''userpass3''"
    by (simp_all add: create_request_def sample_request_def sample_create_def)
  moreover have "spec_login_admin (accepts sample_digest sample_bank)
      (req_hdr (create_request ''adminpass1'' 3 70 ''userpass3'')) = RC_OK"
    by (simp add: create_request_def sample_request_def spec_login_admin_def accepts_def)
      (simp add: sample_bank_def sample_account_def)
  moreover have "slog sample_bank = []" by (simp add: sample_bank_def static_bank_def)
  ultimately show ?thesis
    using creation_logged_on_failure_only [OF sample_shell sample_bank(1) sample_requests_ok(2), of id 1 sample_reply]
      sample_create_3(1)
    by simp
qed

text \<open>
  The delay of a request is slept in the wrong unit. Each acknowledged request makes its
  office sleep op_delay_ms microseconds, once, and before any check of the request.
\<close>

theorem delay_slept_in_microseconds:
  assumes "acknowledge_request sh rnd office_id req reply b = Inr (reply', b')"
  shows "slept_us b' = slept_us b + unat (hdr_op_delay_ms (req_hdr req))"
proof -
  have create: "slept_us b2 = slept_us b1" if "create_user_account sh rnd c rv b1 = Inr (f, rv', b2)" for c rv b1 f rv' b2
    using that by (cases rule: create_user_account_Inr) (simp_all add: created_def)
  have transfer: "slept_us b2 = slept_us b1" if "create_user_transfer i t rv b1 = Inr (rv', b2)" for i t rv b1 rv' b2
    using that by (auto simp: create_user_transfer_def bind_res_eq_Inr Let_def split: if_splits)
  have perform: "slept_us b2 = slept_us b1"
    if p: "perform sh rnd office_id req r1 b1 = Inr (r2, b2)" for r1 r2 b1 b2
  proof (cases "req_type req")
    case OP_CREATE_ACCOUNT
    with p obtain f rv b3 where
      "create_user_account sh rnd (value_create (req_val req)) (rep_val r1) b1 = Inr (f, rv, b3)"
      "slept_us b2 = slept_us b3"
      by (auto simp: perform_def bind_res_eq_Inr split: if_splits)
    then show ?thesis using create by metis
  next
    case OP_TRANSFER
    with p obtain rv where "create_user_transfer (hdr_account_id (req_hdr req)) (value_transfer (req_val req))
        (rep_val r1) b1 = Inr (rv, b2)"
      by (auto simp: perform_def bind_res_eq_Inr)
    then show ?thesis by (rule transfer)
  qed (use p in \<open>auto simp: perform_def bind_res_eq_Inr\<close>)
  let ?b = "usleep (hdr_op_delay_ms (req_hdr req)) b"
  obtain ok r1 r2 where "(if ok then perform sh rnd office_id req r1 ?b else Inr (r1, ?b)) = Inr (r2, b')"
    using assms by (auto simp: acknowledge_request_def bind_res_eq_Inr Let_def)
  then have "slept_us b' = slept_us ?b" using perform by (cases ok) auto
  then show ?thesis by (simp add: usleep_def)
qed

theorem delay_slept_in_microseconds_witness:
  "\<exists>reply' b'. acknowledge_request sample_shell id 1 (transfer_request 1 ''userpass1'' 2 30) sample_reply sample_bank =
      Inr (reply', b') \<and> slept_us b' = slept_us sample_bank + 5"
proof -
  obtain reply' b' where r: "acknowledge_request sample_shell id 1 (transfer_request 1 ''userpass1'' 2 30) sample_reply sample_bank =
      Inr (reply', b')"
    using acknowledge_refines [OF sample_shell sample_bank(1) sample_requests_ok(1), of id 1 sample_reply] by auto
  from delay_slept_in_microseconds [OF r] r show ?thesis
    by (simp add: transfer_request_def sample_request_def)
qed

section \<open>Buffers\<close>

text \<open>
  C8: The server cannot start within the rules of C. fgets is told to read up to 10000 bytes into
  hash, an array of HASH_LEN + 4 = 68, and the line that sha256sum prints needs 69 with its
  terminator. With no unused byte behind the array, the creation of the administrator's
  account with any password of letters and digits of the length allowed is undefined
  behaviour, and so is every well-formed request whose password is looked at: one of the
  administrator's operations with id 0, or a user's with the id of an open account.
\<close>

theorem hash_buffer_overflow:
  assumes "sha256_output (sh_output sh) digest" and "sh_spare sh = 0" and "bank_ok b"
    and "request_ok req" and "if req_type req \<in> {OP_CREATE_ACCOUNT, OP_SHUTDOWN} then hdr_account_id (req_hdr req) = 0
      else hdr_account_id (req_hdr req) \<noteq> 0 \<and> ledger b (unat (hdr_account_id (req_hdr req))) \<noteq> None"
    and "alnum p" and "8 \<le> length p" and "length p \<le> 20"
  shows "create_admin_account sh rnd p b = Inl (Undefined BufferOverflow) \<and>
    acknowledge_request sh rnd office_id req reply b = Inl (Undefined BufferOverflow)"
proof
  have line: "popen_line sh (quoted_command s) = Inl (Undefined BufferOverflow)" if "alnum s" for s
    using popen_line_eq [OF sha256_outputD(3) [OF assms(1) that]] sha256_outputD(1,2) [OF assms(1) that] assms(2) by simp
  have len: "length p \<le> MAX_PASSWORD_LEN" using assms(8) by (simp add: MAX_PASSWORD_LEN_def)
  have "echo_quoted p (new_salt rnd b) = Inr (quoted_command (p @ new_salt rnd b))"
    by (rule echo_fits(1) [OF len]) (simp add: SALT_LEN_def)
  moreover have "strcpy (SALT_LEN + 1) (new_salt rnd b) = Inr (new_salt rnd b)" by (simp add: SALT_LEN_def)
  moreover have "strtok_buffer '' '' p = p" "\<not> (length p < 8 \<or> 20 < length p)"
    using assms(6-8) by (auto intro: strtok_buffer_alnum)
  moreover have "account_at b ADMIN_ACCOUNT_ID = Inr (accounts b 0)"
    by (simp add: account_at_def ADMIN_ACCOUNT_ID_def MAX_BANK_ACCOUNTS_def)
  ultimately show "create_admin_account sh rnd p b = Inl (Undefined BufferOverflow)"
    unfolding create_admin_account_def Let_def password_between_iff rand_string_salt prod.case
    using line [of "p @ new_salt rnd b"] assms(6) by simp
  let ?h = "req_hdr req" and ?b = "usleep (hdr_op_delay_ms (req_hdr req)) b"
  have ok: "alnum (hdr_password ?h)" "length (hdr_password ?h) \<le> MAX_PASSWORD_LEN" "hdr_account_id ?h \<noteq> MAX_BANK_ACCOUNTS"
    "req_type req \<in> {OP_CREATE_ACCOUNT, OP_BALANCE, OP_TRANSFER, OP_SHUTDOWN}"
    using assms(4) by (simp_all add: request_ok_def)
  have salts: "salts_ok b" using assms(3) by (simp add: bank_ok_def)
  have check: "check_password sh (accounts b k) ?h rv = Inl (Undefined BufferOverflow)" if "k < 4096" for k rv
    using salts_okD [OF salts that] ok(1) echo_fits(1) [OF ok(2)] line [of "hdr_password ?h @ acc_salt (accounts b k)"]
    by (simp add: check_password_def)
  have admin: "validate_admin sh ?b ?h rv = Inl (Undefined BufferOverflow)" if "hdr_account_id ?h = 0" for rv
    using check [of 0] that by (simp add: validate_admin_def is_admin_def account_at_def MAX_BANK_ACCOUNTS_def)
  have user: "validate_user sh ?b ?h rv = Inl (Undefined BufferOverflow)"
    if nz: "hdr_account_id ?h \<noteq> 0" and led: "ledger b (unat (hdr_account_id ?h)) \<noteq> None" for rv
  proof -
    obtain x where "ledger b (unat (hdr_account_id ?h)) = Some x" using led by blast
    from ledger_SomeD [OF this] have k: "unat (hdr_account_id ?h) < 4096"
      "acc_account_id (accounts b (unat (hdr_account_id ?h))) = hdr_account_id ?h" using nz by auto
    moreover have "between 1 (hdr_account_id ?h) MAX_BANK_ACCOUNTS" "\<not> is_admin (hdr_account_id ?h)"
      using k(1) nz by (auto simp: index_le_iff is_admin_def unat_gt_0)
    ultimately show ?thesis using check [OF k(1)] by (simp add: validate_user_def index_less_iff)
  qed
  show "acknowledge_request sh rnd office_id req reply b = Inl (Undefined BufferOverflow)"
    using ok(4) assms(5) admin user by (auto simp: acknowledge_request_def validate_request_def Let_def)
qed

theorem hash_buffer_overflow_witness:
  "acknowledge_request (sample_shell\<lparr>sh_spare := 0\<rparr>) id 1 (balance_request 1) sample_reply sample_bank =
    Inl (Undefined BufferOverflow)"
proof -
  have "sha256_output (sh_output (sample_shell\<lparr>sh_spare := 0\<rparr>)) sample_digest"
    using sample_output by (simp add: sample_shell_def)
  moreover have "hdr_account_id (req_hdr (balance_request 1)) = 1" "req_type (balance_request 1) = OP_BALANCE"
    by (simp_all add: balance_request_def sample_request_def)
  moreover have "request_ok (balance_request 1)"
    using sample_words(3) by (simp add: request_ok_def balance_request_def sample_request_def MAX_PASSWORD_LEN_def MAX_BANK_ACCOUNTS_def)
  ultimately show ?thesis
    using hash_buffer_overflow [of "sample_shell\<lparr>sh_spare := 0\<rparr>" sample_digest sample_bank "balance_request 1" "''adminpass1''"]
      sample_bank sample_words(2) by simp
qed

text \<open>
  The command array is large enough for what the server puts there. Building the quoted
  command overflows its MAX_PASSWORD_LEN + SALT_LEN + 24 bytes exactly when password and salt
  together have more than 85 characters; the salts that rand_string makes have 63, one less
  than the array in the account has room for, so every password of up to 22 characters fits.
\<close>

theorem command_buffer_fits:
  "(returns (echo_quoted p salt) \<longleftrightarrow> length p + length salt \<le> 85) \<and>
   (echo_quoted p salt = Inl (Undefined BufferOverflow) \<longleftrightarrow> 85 < length p + length salt) \<and>
   length (new_salt rnd b) = SALT_LEN - 1 \<and> alnum (new_salt rnd b) \<and>
   (returns (echo_quoted p (new_salt rnd b)) \<longleftrightarrow> length p \<le> 22)"
proof -
  have eq: "echo_quoted q u = (if length q + length u \<le> 85 then Inr (quoted_command (q @ u))
      else Inl (Undefined BufferOverflow))" for q u
    by (auto simp: echo_quoted_def hash_command_def quoted_command_def COMMAND_SIZE_def MAX_PASSWORD_LEN_def
        SALT_LEN_def strcat_def strcpy_def)
  show ?thesis by (auto simp: eq SALT_LEN_def)
qed

end
