(* ===== verification/Messages.thy ===== *)
theory Messages
  imports Bank_Types
begin

text \<open>
  Messages as bytes. The code writes and reads the structures \<open>tlv_request_t\<close> and
  \<open>tlv_reply_t\<close> as they lie in memory; both are packed, so their members follow one another in
  the order of \<open>types.h\<close> without padding: here as little-endian words and character arrays
  with whatever follows their terminator. A byte is a \<open>char\<close>. On these bytes, the calls of
  \<open>read\<close> that take messages from a FIFO, whole or torn.
\<close>

section \<open>Words and arrays\<close>

definition enc_u32 :: "u32 \<Rightarrow> string" where
  "enc_u32 w = map (\<lambda>k. char_of (unat w div 256 ^ k)) [0..<4]"

definition dec_u32 :: "string \<Rightarrow> u32" where
  "dec_u32 bs = of_nat (\<Sum>k\<leftarrow>[0..<4]. of_char (bs ! k) * 256 ^ k)"

text \<open>An array of \<open>n\<close> bytes that holds \<open>s\<close>: the bytes \<open>fill\<close> after the terminator are left over.\<close>

definition enc_array :: "nat \<Rightarrow> string \<Rightarrow> string \<Rightarrow> string" where
  "enc_array n fill s = take n (s @ NUL # fill)"

definition dec_array :: "nat \<Rightarrow> string \<Rightarrow> string" where
  "dec_array n bs = cstr (take n bs)"

lemma length_enc_u32 [simp]: "length (enc_u32 w) = 4"
  by (simp add: enc_u32_def)

lemma base_256:
  fixes n :: nat
  assumes "n < 2 ^ 32"
  shows "n mod 256 + n div 256 mod 256 * 256 + n div 65536 mod 256 * 65536 +
    n div 16777216 mod 256 * 16777216 = n"
proof -
  have d: "n div 65536 = n div 256 div 256" "n div 16777216 = n div 256 div 256 div 256"
    by (simp_all flip: div_mult2_eq)
  have "n div 256 div 256 div 256 mod 256 = n div 256 div 256 div 256"
    using assms by (simp add: less_mult_imp_div_less flip: div_mult2_eq)
  then show ?thesis
    using div_mult_mod_eq [of n 256] div_mult_mod_eq [of "n div 256" 256]
      div_mult_mod_eq [of "n div 256 div 256" 256]
    unfolding d by linarith
qed

lemma dec_enc_u32 [simp]: "dec_u32 (enc_u32 w @ r) = w"
proof -
  have lt: "unat w < 2 ^ 32" using unsigned_less [of w] by simp
  have "(\<Sum>k\<leftarrow>[0..<4]. of_char ((enc_u32 w @ r) ! k) * 256 ^ k) =
      unat w mod 256 + unat w div 256 mod 256 * 256 + unat w div 65536 mod 256 * 65536 +
      unat w div 16777216 mod 256 * 16777216"
    by (simp add: enc_u32_def upt_rec nth_append)
  also have "\<dots> = unat w" by (rule base_256 [OF lt])
  finally have "(\<Sum>k\<leftarrow>[0..<4]. of_char ((enc_u32 w @ r) ! k) * 256 ^ k) = unat w" .
  then show ?thesis unfolding dec_u32_def by (simp only: of_nat_unat ucast_id)
qed

lemma length_enc_array [simp]: "n \<le> Suc (length s + length fill) \<Longrightarrow> length (enc_array n fill s) = n"
  by (simp add: enc_array_def)

lemma dec_enc_array [simp]:
  assumes "c_string m s" and "m < n" and "n \<le> Suc (length s + length fill)"
  shows "dec_array n (enc_array n fill s @ r) = s"
proof -
  have len: "length s < n" using assms(1,2) by (simp add: c_string_def)
  have "take n (enc_array n fill s @ r) = enc_array n fill s" using assms(3) by simp
  moreover have "enc_array n fill s = s @ NUL # take (n - Suc (length s)) fill"
    using len by (simp add: enc_array_def take_Cons' flip: Suc_diff_Suc)
  ultimately show ?thesis
    using assms(1) by (simp add: dec_array_def cstr_append_NUL c_string_def)
qed

section \<open>Messages\<close>

definition PASSWORD_SIZE :: nat where "PASSWORD_SIZE = MAX_PASSWORD_LEN + 1"

text \<open>\<open>f1\<close> and \<open>f2\<close> are the bytes behind the two passwords.\<close>

definition enc_request :: "string \<Rightarrow> string \<Rightarrow> tlv_request \<Rightarrow> string" where
  "enc_request f1 f2 r =
     (let h = req_hdr r; u = val_union (req_val r) in
      enc_u32 (word_of_op (req_type r)) @ enc_u32 (req_length r) @
      enc_u32 (hdr_pid h) @ enc_u32 (hdr_account_id h) @
      enc_array PASSWORD_SIZE f1 (hdr_password h) @ enc_u32 (hdr_op_delay_ms h) @
      enc_u32 (crt_account_id u) @ enc_u32 (crt_balance u) @
      enc_array PASSWORD_SIZE f2 (crt_password u))"

definition dec_request :: "string \<Rightarrow> tlv_request" where
  "dec_request bs =
     \<lparr>req_type = op_of_word (dec_u32 bs),
      req_length = dec_u32 (drop 4 bs),
      req_val =
        \<lparr>val_header =
           \<lparr>hdr_pid = dec_u32 (drop 8 bs),
            hdr_account_id = dec_u32 (drop 12 bs),
            hdr_password = dec_array PASSWORD_SIZE (drop 16 bs),
            hdr_op_delay_ms = dec_u32 (drop 37 bs)\<rparr>,
         val_union =
           \<lparr>crt_account_id = dec_u32 (drop 41 bs),
            crt_balance = dec_u32 (drop 45 bs),
            crt_password = dec_array PASSWORD_SIZE (drop 49 bs)\<rparr>\<rparr>\<rparr>"

definition enc_reply :: "tlv_reply \<Rightarrow> string" where
  "enc_reply r =
     enc_u32 (word_of_op (rep_type r)) @ enc_u32 (rep_length r) @
     enc_u32 (rhd_account_id (rep_header (rep_val r))) @ enc_u32 (word_of_rc (rep_code r)) @
     enc_u32 (rep_word (rep_val r))"

definition dec_reply :: "string \<Rightarrow> tlv_reply" where
  "dec_reply bs =
     \<lparr>rep_type = op_of_word (dec_u32 bs),
      rep_length = dec_u32 (drop 4 bs),
      rep_val =
        \<lparr>rep_header = \<lparr>rhd_account_id = dec_u32 (drop 8 bs), rhd_ret_code = rc_of_word (dec_u32 (drop 12 bs))\<rparr>,
         rep_word = dec_u32 (drop 16 bs)\<rparr>\<rparr>"

text \<open>Values the enumerations can hold: a raw value is not the number of an enumerator.\<close>

definition op_ok :: "op_type \<Rightarrow> bool" where "op_ok t \<longleftrightarrow> op_of_word (word_of_op t) = t"
definition rc_ok :: "ret_code \<Rightarrow> bool" where "rc_ok c \<longleftrightarrow> rc_of_word (word_of_rc c) = c"

lemma length_enc_request:
  assumes "20 \<le> length f1" and "20 \<le> length f2"
  shows "length (enc_request f1 f2 r) = sizeof_tlv_request"
  using assms by (simp add: enc_request_def Let_def PASSWORD_SIZE_def sizeof_defs)

lemma length_enc_reply: "length (enc_reply r) = sizeof_tlv_reply"
  by (simp add: enc_reply_def sizeof_defs)

lemma drop_append_exact: "length xs = n \<Longrightarrow> drop (n + m) (xs @ ys) = drop m ys"
  by simp

lemma dec_enc_request:
  assumes "wf_request r" and "op_ok (req_type r)" and "20 \<le> length f1" and "20 \<le> length f2"
  shows "dec_request (enc_request f1 f2 r @ rest) = r"
proof -
  let ?h = "req_hdr r" and ?u = "val_union (req_val r)"
  have p: "c_string 20 (hdr_password ?h)" "c_string 20 (crt_password ?u)"
    using assms(1) by (simp_all add: wf_request_def MAX_PASSWORD_LEN_def)
  have len: "length (enc_array 21 f1 (hdr_password ?h)) = 21" "length (enc_array 21 f2 (crt_password ?u)) = 21"
    using assms(3,4) by simp_all
  have "dec_array 21 (enc_array 21 f1 (hdr_password ?h) @ t) = hdr_password ?h"
    "dec_array 21 (enc_array 21 f2 (crt_password ?u) @ t) = crt_password ?u" for t
    using p assms(3,4) by (simp_all add: dec_enc_array [where m = 20])
  then show ?thesis
    using assms(2) len
    by (simp add: dec_request_def enc_request_def Let_def PASSWORD_SIZE_def MAX_PASSWORD_LEN_def op_ok_def)
qed

lemma dec_enc_reply:
  assumes "op_ok (rep_type r)" and "rc_ok (rep_code r)"
  shows "dec_reply (enc_reply r @ rest) = r"
  using assms by (simp add: dec_reply_def enc_reply_def op_ok_def rc_ok_def)

section \<open>Reading from a FIFO\<close>

text \<open>
  \<open>read (fd, req, sizeof (tlv_request_t))\<close> on the bytes that wait in the pipe: it moves as
  many as there are, over the old bytes of the structure. The result is the number read,
  the new bytes of the structure and what stays in the pipe.
\<close>

definition read_bytes :: "nat \<Rightarrow> string \<Rightarrow> string \<Rightarrow> nat \<times> string \<times> string" where
  "read_bytes size_t old pipe =
     (let n = min size_t (length pipe) in (n, take n pipe @ drop n old, drop n pipe))"

definition read_request :: "string \<Rightarrow> string \<Rightarrow> bool \<times> string \<times> string" where
  "read_request old pipe =
     (let (n, req, rest) = read_bytes sizeof_tlv_request old pipe in (n > 0, req, rest))"

definition read_reply :: "string \<Rightarrow> string \<Rightarrow> bool \<times> string \<times> string" where
  "read_reply old pipe =
     (let (n, reply, rest) = read_bytes sizeof_tlv_reply old pipe in (n > 0, reply, rest))"

lemma read_request_message:
  assumes "20 \<le> length f1" and "20 \<le> length f2" and "length old = sizeof_tlv_request"
  shows "read_request old (enc_request f1 f2 r @ rest) = (True, enc_request f1 f2 r, rest)"
proof -
  have "length (enc_request f1 f2 r) = sizeof_tlv_request" by (rule length_enc_request) (use assms in simp_all)
  then show ?thesis using assms(3) by (simp add: read_request_def read_bytes_def message_sizes)
qed

lemma read_request_torn:
  assumes "length pipe < sizeof_tlv_request"
  shows "read_request old pipe = (pipe \<noteq> [], pipe @ drop (length pipe) old, [])"
  using assms by (simp add: read_request_def read_bytes_def Let_def)

text \<open>
  The loop of the main thread over the pipe: repeated reads until nothing is left. The
  structure is reused, so the bytes of the previous request are the old bytes.
\<close>

fun drain :: "nat \<Rightarrow> string \<Rightarrow> string \<Rightarrow> tlv_request list" where
  "drain 0 old pipe = []"
| "drain (Suc n) old pipe =
     (let (got, req, rest) = read_request old pipe
      in if got then dec_request req # drain n req rest else [])"

lemma drain_messages:
  assumes "\<forall>r \<in> set rs. wf_request r \<and> op_ok (req_type r)"
    and "20 \<le> length f1" and "20 \<le> length f2"
    and "length old = sizeof_tlv_request" and "length rs \<le> n"
  shows "drain n old (concat (map (enc_request f1 f2) rs)) = rs"
  using assms(1,4,5)
proof (induction rs arbitrary: n old)
  case Nil
  then show ?case by (cases n) (simp_all add: read_request_def read_bytes_def)
next
  case (Cons r rs)
  then obtain m where n: "n = Suc m" by (cases n) auto
  have len: "length (enc_request f1 f2 r) = sizeof_tlv_request"
    by (rule length_enc_request) (use assms in simp_all)
  have "drain m (enc_request f1 f2 r) (concat (map (enc_request f1 f2) rs)) = rs"
    by (rule Cons.IH) (use Cons.prems n len in auto)
  moreover have "dec_request (enc_request f1 f2 r) = r"
    using dec_enc_request [of r f1 f2 "[]"] Cons.prems(1) assms(2,3) by simp
  ultimately show ?case
    using n read_request_message [OF assms(2,3) Cons.prems(2), of r] by simp
qed

text \<open>Whole messages, with their own bytes behind the passwords, and then a part of one.\<close>

type_synonym message = "string \<times> string \<times> tlv_request"

fun message_bytes :: "message \<Rightarrow> string" where
  "message_bytes (f1, f2, r) = enc_request f1 f2 r"

fun message_ok :: "message \<Rightarrow> bool" where
  "message_ok (f1, f2, r) \<longleftrightarrow> wf_request r \<and> op_ok (req_type r) \<and> 20 \<le> length f1 \<and> 20 \<le> length f2"

lemma message_bytes:
  assumes "message_ok m"
  shows "length (message_bytes m) = sizeof_tlv_request" "dec_request (message_bytes m) = snd (snd m)"
    "length old = sizeof_tlv_request \<Longrightarrow> read_request old (message_bytes m @ rest) = (True, message_bytes m, rest)"
  using assms dec_enc_request [where rest = "[]"]
  by (cases m; simp add: length_enc_request read_request_message)+

lemma drain_torn:
  assumes "\<forall>m \<in> set ms. message_ok m" and "length old = sizeof_tlv_request"
    and "length torn < sizeof_tlv_request" and "length ms < n"
  shows "drain n old (concat (map message_bytes ms) @ torn) =
    map (\<lambda>m. snd (snd m)) ms @
    (if torn = [] then [] else [dec_request (torn @ drop (length torn) (last (old # map message_bytes ms)))])"
  using assms
proof (induction ms arbitrary: n old)
  case Nil
  then obtain k where n: "n = Suc k" by (cases n) auto
  have "drain k x [] = []" for x by (cases k) (simp_all add: read_request_def read_bytes_def)
  then show ?case using n Nil.prems(3) by (simp add: read_request_torn)
next
  case (Cons m ms)
  then obtain k where n: "n = Suc k" by (cases n) auto
  have m: "message_ok m" using Cons.prems(1) by simp
  have "drain k (message_bytes m) (concat (map message_bytes ms) @ torn) = map (\<lambda>m. snd (snd m)) ms @
    (if torn = [] then [] else [dec_request (torn @ drop (length torn) (last (message_bytes m # map message_bytes ms)))])"
    by (rule Cons.IH) (use Cons.prems n message_bytes(1) [OF m] in auto)
  then show ?case
    using n message_bytes(3) [OF m Cons.prems(2)] message_bytes(2) [OF m] by simp
qed

text \<open>The first 41 bytes are type, length and header, the rest is the union.\<close>

lemma enc_request_split:
  assumes "20 \<le> length f1"
  shows "\<exists>h. length h = 41 \<and> enc_request f1 f2 r = h @
      (enc_u32 (crt_account_id (val_union (req_val r))) @ enc_u32 (crt_balance (val_union (req_val r))) @
       enc_array PASSWORD_SIZE f2 (crt_password (val_union (req_val r)))) \<and>
    (\<forall>g u. enc_request f1 g (r\<lparr>req_val := (req_val r)\<lparr>val_union := u\<rparr>\<rparr>) = h @
      (enc_u32 (crt_account_id u) @ enc_u32 (crt_balance u) @ enc_array PASSWORD_SIZE g (crt_password u)))"
proof -
  let ?v = "req_hdr r"
  define h where "h = enc_u32 (word_of_op (req_type r)) @ enc_u32 (req_length r) @ enc_u32 (hdr_pid ?v) @
    enc_u32 (hdr_account_id ?v) @ enc_array PASSWORD_SIZE f1 (hdr_password ?v) @ enc_u32 (hdr_op_delay_ms ?v)"
  have "length h = 41" using assms by (simp add: h_def PASSWORD_SIZE_def MAX_PASSWORD_LEN_def)
  then show ?thesis by (intro exI [of _ h]) (simp add: h_def enc_request_def Let_def)
qed

lemma torn_after_header:
  assumes "message_ok (f1, f2, r)" and "message_ok (g1, g2, r')"
  shows "dec_request (take 41 (enc_request f1 f2 r) @ drop 41 (enc_request g1 g2 r')) =
    r\<lparr>req_val := (req_val r)\<lparr>val_union := val_union (req_val r')\<rparr>\<rparr>"
proof -
  let ?q = "r\<lparr>req_val := (req_val r)\<lparr>val_union := val_union (req_val r')\<rparr>\<rparr>"
  have "take 41 (enc_request f1 f2 r) @ drop 41 (enc_request g1 g2 r') = enc_request f1 g2 ?q"
  proof -
    have "20 \<le> length f1" "20 \<le> length g1" using assms by simp_all
    from enc_request_split [OF this(1), of f2 r] enc_request_split [OF this(2), of g2 r'] show ?thesis
      by (elim exE conjE) simp
  qed
  moreover have "wf_request ?q" "op_ok (req_type ?q)" using assms by (simp_all add: wf_request_def)
  ultimately show ?thesis
    using dec_enc_request [of ?q f1 g2 "[]"] assms by simp
qed

section \<open>Properties\<close>


lemma sample_messages_ok:
  "wf_request (balance_request i)" "op_ok (req_type (balance_request i))"
  "op_ok (rep_type sample_reply)" "rc_ok (rep_code sample_reply)"
  by (simp_all add: wf_request_def balance_request_def sample_request_def sample_reply_def op_ok_def rc_ok_def
      op_of_word_def rc_of_word_def named_rcs_def c_string_def MAX_PASSWORD_LEN_def)


text \<open>
  Reading whole messages loses none. When the pipe holds the bytes of any number of
  requests one after the other, the main loop's reads return exactly those requests, in
  their order, whatever the structure held before.
\<close>

theorem reads_return_all_requests:
  assumes "\<forall>r \<in> set rs. wf_request r \<and> op_ok (req_type r)"
    and "20 \<le> length f1" and "20 \<le> length f2"
    and "length old = sizeof_tlv_request" and "length rs \<le> n"
  shows "drain n old (concat (map (enc_request f1 f2) rs)) = rs"
  using assms by (rule drain_messages)

theorem reads_return_all_requests_witness:
  "drain 2 (replicate 70 NUL) (concat (map (enc_request (replicate 20 NUL) (replicate 20 NUL))
      [balance_request 1, balance_request 2])) = [balance_request 1, balance_request 2]"
  using reads_return_all_requests [of "[balance_request 1, balance_request 2]" "replicate 20 NUL"
      "replicate 20 NUL" "replicate 70 NUL" 2] sample_messages_ok(1,2)
  by (simp add: message_sizes)

text \<open>
  A partial read counts as a request. read_request reports success for any positive
  number of bytes: after a read that got only the first n of the 70, the structure holds
  those n bytes followed by the remaining ones of the previous request.
\<close>

theorem torn_read_is_accepted:
  assumes "0 < n" and "n < sizeof_tlv_request" and "length pipe = n"
  shows "\<exists>req. read_request old pipe = (True, req, []) \<and> take n req = pipe \<and> drop n req = drop n old"
  using read_request_torn [of pipe old] assms by auto

theorem torn_read_is_accepted_witness:
  "\<exists>req. read_request (enc_request (replicate 20 NUL) (replicate 20 NUL) (balance_request 7)) (enc_u32 2) =
    (True, req, [])"
  using torn_read_is_accepted [of 4 "enc_u32 2"] by (auto simp: message_sizes)

end
