(* ===== verification/Transfers.thy ===== *)
theory Transfers
  imports Accounts
begin

text \<open>
  \<open>create_user_transfer\<close> run by several offices at once. The offices have released
  \<open>queue_mut\<close> when they process a request and no other lock protects the accounts, so the
  single accesses to the global array interleave: here each access is a step of its own,
  with the value between load and store of \<open>-=\<close> and \<open>+=\<close> in a register of the thread.
\<close>

section \<open>One transfer, access by access\<close>

text \<open>
  Where a thread is in \<open>create_user_transfer\<close>: before the copy of the destination's balance,
  the test that the destination exists, the tests of funds and room, the load and the store
  of \<open>-=\<close> and of \<open>+=\<close>, and the last assignments.
\<close>

datatype transfer_pc =
    T_Peek | T_Exists | T_Funds | T_Room | T_Load_Source | T_Store_Source
  | T_Load_Destination | T_Store_Destination | T_Report | T_Done

record transfer_thread =
  t_pc :: transfer_pc
  t_id :: u32
  t_transfer :: req_transfer
  t_value :: rep_value
  t_register :: u32

definition set_balance :: "u32 \<Rightarrow> u32 \<Rightarrow> bank \<Rightarrow> bank" where
  "set_balance i x b = set_account i ((accounts b (unat i))\<lparr>acc_balance := x\<rparr>) b"

definition transfer_exec :: "transfer_thread \<Rightarrow> bank \<Rightarrow> (transfer_thread \<times> bank) res" where
  "transfer_exec th b =
     (let i = t_id th; rv = t_value th; dst = trf_account_id (t_transfer th); amount = trf_amount (t_transfer th);
          refuse = (\<lambda>c. Inr (th\<lparr>t_pc := T_Done, t_value := set_code c rv\<rparr>, b)) in
      case t_pc th of
        T_Peek \<Rightarrow> bind_res (account_at b dst) (\<lambda>d.
          Inr (th\<lparr>t_pc := T_Exists, t_value := rv\<lparr>rep_word := acc_balance d\<rparr>\<rparr>, b))
      | T_Exists \<Rightarrow>
          if \<not> between 1 dst MAX_BANK_ACCOUNTS then refuse RC_OTHER
          else bind_res (account_at b dst) (\<lambda>d.
            if dst \<noteq> acc_account_id d then refuse RC_ID_IN_USE else Inr (th\<lparr>t_pc := T_Funds\<rparr>, b))
      | T_Funds \<Rightarrow> bind_res (account_at b i) (\<lambda>s.
          if \<not> between MIN_BALANCE (ucast amount) (ucast (acc_balance s)) then refuse RC_NO_FUNDS
          else Inr (th\<lparr>t_pc := T_Room\<rparr>, b))
      | T_Room \<Rightarrow> bind_res (account_at b dst) (\<lambda>d.
          if \<not> between MIN_BALANCE (ucast (amount + acc_balance d)) MAX_BALANCE then refuse RC_NO_FUNDS
          else Inr (th\<lparr>t_pc := T_Load_Source\<rparr>, b))
      | T_Load_Source \<Rightarrow> bind_res (account_at b i) (\<lambda>s.
          Inr (th\<lparr>t_pc := T_Store_Source, t_register := acc_balance s - amount\<rparr>, b))
      | T_Store_Source \<Rightarrow> bind_res (account_at b i) (\<lambda>_.
          Inr (th\<lparr>t_pc := T_Load_Destination\<rparr>, set_balance i (t_register th) b))
      | T_Load_Destination \<Rightarrow> bind_res (account_at b dst) (\<lambda>d.
          Inr (th\<lparr>t_pc := T_Store_Destination, t_register := acc_balance d + amount\<rparr>, b))
      | T_Store_Destination \<Rightarrow> bind_res (account_at b dst) (\<lambda>_.
          Inr (th\<lparr>t_pc := T_Report\<rparr>, set_balance dst (t_register th) b))
      | T_Report \<Rightarrow> bind_res (account_at b i) (\<lambda>s.
          Inr (th\<lparr>t_pc := T_Done, t_value := (set_code RC_OK rv)\<lparr>rep_word := acc_balance s\<rparr>\<rparr>, b))
      | T_Done \<Rightarrow> Inr (th, b))"

definition transfer_start :: "u32 \<Rightarrow> req_transfer \<Rightarrow> rep_value \<Rightarrow> transfer_thread" where
  "transfer_start i t rv = \<lparr>t_pc = T_Peek, t_id = i, t_transfer = t, t_value = rv, t_register = 0\<rparr>"

section \<open>Several transfers at once\<close>

text \<open>The offices' transfers and the shared array; a schedule names the thread of each access.\<close>

record transfers =
  pool :: "nat \<Rightarrow> transfer_thread"
  shared :: bank

definition transfer_turn :: "nat \<Rightarrow> transfers \<Rightarrow> transfers res" where
  "transfer_turn k s =
     bind_res (transfer_exec (pool s k) (shared s)) (\<lambda>(th, b).
       Inr \<lparr>pool = (pool s)(k := th), shared = b\<rparr>)"

fun schedule :: "nat list \<Rightarrow> transfers \<Rightarrow> transfers res" where
  "schedule [] s = Inr s"
| "schedule (k # ks) s = bind_res (transfer_turn k s) (schedule ks)"

lemma schedule_append: "schedule (ks @ js) s = bind_res (schedule ks s) (schedule js)"
  by (induction ks arbitrary: s) (auto simp: bind_res_assoc intro: bind_res_cong)

section \<open>Alone\<close>

text \<open>The accounts a thread looks at.\<close>

definition footprint :: "transfer_thread \<Rightarrow> nat set" where
  "footprint th = {unat (t_id th), unat (trf_account_id (t_transfer th))}"

lemma same_balance [simp]: "set_balance i x b = set_account i ((accounts b (unat i))\<lparr>acc_balance := x\<rparr>) b"
  by (simp add: set_balance_def)

lemma turn_simps:
  "transfer_exec (pool s k) (shared s) = Inl e \<Longrightarrow> transfer_turn k s = Inl e"
  "transfer_exec (pool s k) (shared s) = Inr (th, b) \<Longrightarrow>
    transfer_turn k s = Inr \<lparr>pool = (pool s)(k := th), shared = b\<rparr>"
  by (simp_all add: transfer_turn_def)

lemma idle_turns:
  "t_pc (pool s k) = T_Done \<Longrightarrow> schedule (replicate n k) s = Inr s"
  by (induction n) (simp_all add: transfer_turn_def transfer_exec_def Let_def, cases s, simp)

text \<open>Undisturbed, the nine accesses are the transfer of the handler.\<close>

lemma transfer_alone:
  assumes "pool s k = transfer_start i t rv"
  shows "(case create_user_transfer i t rv (shared s) of
      Inl e \<Rightarrow> schedule (replicate 9 k) s = Inl e
    | Inr (rv', b') \<Rightarrow> \<exists>s'. schedule (replicate 9 k) s = Inr s' \<and> shared s' = b' \<and>
        t_pc (pool s' k) = T_Done \<and> t_value (pool s' k) = rv')"
proof (cases "trf_account_id t < MAX_BANK_ACCOUNTS \<and> i < MAX_BANK_ACCOUNTS")
  case True
  then show ?thesis
    using assms
    by (simp add: eval_nat_numeral transfer_turn_def transfer_exec_def transfer_start_def create_user_transfer_def Let_def)
next
  case False
  then show ?thesis
    using assms
    by (auto simp: eval_nat_numeral transfer_turn_def transfer_exec_def transfer_start_def create_user_transfer_def account_at_def Let_def)
qed


text \<open>Threads whose ids are inside the array never fault.\<close>

definition in_array :: "transfer_thread \<Rightarrow> bool" where
  "in_array th \<longleftrightarrow> t_id th < MAX_BANK_ACCOUNTS \<and> trf_account_id (t_transfer th) < MAX_BANK_ACCOUNTS"

lemma transfer_exec_returns: "in_array th \<Longrightarrow> \<exists>th' b'. transfer_exec th b = Inr (th', b') \<and> in_array th'"
  by (cases "t_pc th") (auto simp: transfer_exec_def in_array_def Let_def)

lemma schedule_returns: "\<forall>k. in_array (pool s k) \<Longrightarrow> \<exists>s'. schedule ks s = Inr s'"
proof (induction ks arbitrary: s)
  case (Cons k ks)
  obtain th b where "transfer_exec (pool s k) (shared s) = Inr (th, b)" "in_array th"
    using transfer_exec_returns Cons.prems by blast
  then show ?case
    using Cons.IH [of "\<lparr>pool = (pool s)(k := th), shared = b\<rparr>"] Cons.prems by (simp add: transfer_turn_def)
qed simp

section \<open>Transfers over disjoint accounts\<close>

definition agree :: "nat set \<Rightarrow> bank \<Rightarrow> bank \<Rightarrow> bool" where
  "agree A b b' \<longleftrightarrow> (\<forall>k \<in> A. accounts b k = accounts b' k)"

lemma set_account_accounts:
  "accounts (set_account i a b) k = (if k = unat i then a else accounts b k)"
  by (simp add: set_account_def)

lemma transfer_exec_footprint:
  "transfer_exec th b = Inr (th', b') \<Longrightarrow> footprint th' = footprint th \<and>
    t_id th' = t_id th \<and> t_transfer th' = t_transfer th \<and> (\<forall>k. k \<notin> footprint th \<longrightarrow> accounts b' k = accounts b k)"
  by (cases "t_pc th")
    (auto simp: transfer_exec_def footprint_def Let_def bind_res_eq_Inr set_account_accounts split: if_splits)

lemma transfer_exec_local:
  assumes "agree (footprint th) b c" and "transfer_exec th b = Inr (th', b')"
  shows "\<exists>c'. transfer_exec th c = Inr (th', c') \<and> agree (footprint th) b' c'"
proof -
  have same: "account_at c (t_id th) = account_at b (t_id th)"
    "account_at c (trf_account_id (t_transfer th)) = account_at b (trf_account_id (t_transfer th))"
    using assms(1) by (simp_all add: account_at_def agree_def footprint_def)
  show ?thesis
    using assms
    by (cases "t_pc th")
      (auto simp: transfer_exec_def same Let_def bind_res_eq_Inr agree_def footprint_def set_account_accounts
        split: if_splits)
qed

text \<open>
  A thread whose accounts no other thread touches runs in any schedule as it would run with
  its own turns only.
\<close>

lemma transfer_isolated:
  assumes "schedule ks s = Inr s'" and "\<forall>j. j \<noteq> k \<longrightarrow> footprint (pool s j) \<inter> footprint (pool s k) = {}"
    and "pool u k = pool s k" and "agree (footprint (pool s k)) (shared s) (shared u)"
  shows "\<exists>u'. schedule (replicate (count_list ks k) k) u = Inr u' \<and> pool u' k = pool s' k \<and>
    agree (footprint (pool s k)) (shared s') (shared u')"
  using assms
proof (induction ks arbitrary: s u)
  case Nil
  then show ?case by simp
next
  case (Cons j ks)
  from Cons.prems(1) obtain s1 where s1: "transfer_turn j s = Inr s1" "schedule ks s1 = Inr s'"
    by (auto simp: bind_res_eq_Inr)
  then obtain th b where x: "transfer_exec (pool s j) (shared s) = Inr (th, b)"
    and s1_def: "s1 = \<lparr>pool = (pool s)(j := th), shared = b\<rparr>"
    by (auto simp: transfer_turn_def bind_res_eq_Inr)
  note fp = transfer_exec_footprint [OF x]
  have foot: "footprint (pool s1 m) = footprint (pool s m)" for m
    using fp by (simp add: s1_def)
  have disj: "\<forall>m. m \<noteq> k \<longrightarrow> footprint (pool s1 m) \<inter> footprint (pool s1 k) = {}"
    using Cons.prems(2) by (simp add: foot)
  show ?case
  proof (cases "j = k")
    case True
    obtain c where c: "transfer_exec (pool u k) (shared u) = Inr (th, c)" "agree (footprint (pool s k)) b c"
      using transfer_exec_local [OF _ x, of "shared u"] Cons.prems(3,4) True by auto
    let ?u = "\<lparr>pool = (pool u)(k := th), shared = c\<rparr>"
    have "\<exists>u'. schedule (replicate (count_list ks k) k) ?u = Inr u' \<and> pool u' k = pool s' k \<and>
        agree (footprint (pool s1 k)) (shared s') (shared u')"
      by (rule Cons.IH [OF s1(2) disj]) (use c True foot [of k] in \<open>simp_all add: s1_def\<close>)
    then show ?thesis using True turn_simps(2) [OF c(1)] by (simp add: foot)
  next
    case False
    have "m \<notin> footprint (pool s j)" if "m \<in> footprint (pool s k)" for m
      using Cons.prems(2) False that by blast
    then have "agree (footprint (pool s k)) (shared s1) (shared u)"
      using Cons.prems(4) fp by (simp add: agree_def s1_def)
    then have "\<exists>u'. schedule (replicate (count_list ks k) k) u = Inr u' \<and> pool u' k = pool s' k \<and>
        agree (footprint (pool s1 k)) (shared s') (shared u')"
      using Cons.prems(3) False foot [of k] by (intro Cons.IH [OF s1(2) disj]) (simp_all add: s1_def)
    then show ?thesis using False by (simp add: foot)
  qed
qed


lemma disjoint_transfer:
  assumes "schedule ks s = Inr s'" and "9 \<le> count_list ks k" and "pool s k = transfer_start i t rv"
    and "\<forall>j. j \<noteq> k \<longrightarrow> footprint (pool s j) \<inter> footprint (pool s k) = {}"
  shows "\<exists>rv' b'. create_user_transfer i t rv (shared s) = Inr (rv', b') \<and> t_pc (pool s' k) = T_Done \<and>
    t_value (pool s' k) = rv' \<and> agree {unat i, unat (trf_account_id t)} (shared s') b'"
proof -
  let ?n = "count_list ks k"
  obtain u where u: "schedule (replicate ?n k) s = Inr u" "pool u k = pool s' k"
    "agree (footprint (pool s k)) (shared s') (shared u)"
    using transfer_isolated [OF assms(1,4), of s] by (auto simp: agree_def)
  have n: "replicate ?n k = replicate 9 k @ replicate (?n - 9) k"
    using assms(2) by (simp flip: replicate_add)
  obtain u1 where u1: "schedule (replicate 9 k) s = Inr u1" "schedule (replicate (?n - 9) k) u1 = Inr u"
    using u(1) unfolding n schedule_append by (auto simp: bind_res_eq_Inr)
  obtain rv' b' where c: "create_user_transfer i t rv (shared s) = Inr (rv', b')"
    using transfer_alone [OF assms(3)] u1(1) by (cases "create_user_transfer i t rv (shared s)") auto
  then have d: "shared u1 = b'" "t_pc (pool u1 k) = T_Done" "t_value (pool u1 k) = rv'"
    using transfer_alone [OF assms(3)] u1(1) by auto
  moreover have "u = u1" using u1(2) idle_turns [OF d(2), of "?n - 9"] by simp
  ultimately show ?thesis
    using c u(2,3) assms(3) by (auto simp: footprint_def transfer_start_def)
qed

section \<open>Transfers from one account\<close>

text \<open>All tests of the handler succeed.\<close>

definition passes :: "u32 \<Rightarrow> req_transfer \<Rightarrow> bank \<Rightarrow> bool" where
  "passes i t b \<longleftrightarrow> bank_inv b \<and> unat i < 4096 \<and> unat (trf_account_id t) < 4096 \<and> transfer_verdict i t b = RC_OK"

lemma passes_tests:
  assumes "passes i t b"
  shows "i < MAX_BANK_ACCOUNTS" "trf_account_id t < MAX_BANK_ACCOUNTS" "between 1 (trf_account_id t) MAX_BANK_ACCOUNTS"
    "acc_account_id (accounts b (unat (trf_account_id t))) = trf_account_id t"
    "between MIN_BALANCE (ucast (trf_amount t)) (ucast (acc_balance (accounts b (unat i))))"
    "between MIN_BALANCE (ucast (trf_amount t + acc_balance (accounts b (unat (trf_account_id t))))) MAX_BALANCE"
proof -
  have le: "unat (trf_amount t) \<le> 1000000000" "unat (acc_balance (accounts b (unat (trf_account_id t)))) \<le> 1000000000"
    using assms by (auto simp: passes_def transfer_verdict_OK)
  show "i < MAX_BANK_ACCOUNTS" "trf_account_id t < MAX_BANK_ACCOUNTS" "between 1 (trf_account_id t) MAX_BANK_ACCOUNTS"
    "acc_account_id (accounts b (unat (trf_account_id t))) = trf_account_id t"
    using assms by (auto simp: passes_def transfer_verdict_OK index_less_iff index_le_iff)
  show "between MIN_BALANCE (ucast (trf_amount t)) (ucast (acc_balance (accounts b (unat i))))"
    using assms by (auto simp: passes_def transfer_verdict_OK balance_between_iff)
  show "between MIN_BALANCE (ucast (trf_amount t + acc_balance (accounts b (unat (trf_account_id t))))) MAX_BALANCE"
    using assms sum_between_iff [OF le] by (auto simp: passes_def transfer_verdict_OK)
qed

text \<open>The four tests, the load of the source, the rest after the load or after the tests.\<close>

lemma tests_run:
  assumes "pool s k = transfer_start i t rv" and "passes i t (shared s)"
  shows "\<exists>P. schedule (replicate 4 k) s = Inr \<lparr>pool = P, shared = shared s\<rparr> \<and> (\<forall>j. j \<noteq> k \<longrightarrow> P j = pool s j) \<and>
    t_pc (P k) = T_Load_Source \<and> t_id (P k) = i \<and> t_transfer (P k) = t"
  using assms passes_tests [OF assms(2)]
  by (simp add: eval_nat_numeral transfer_turn_def transfer_exec_def transfer_start_def Let_def)

lemma load_run:
  assumes "t_pc (pool s k) = T_Load_Source" and "t_id (pool s k) = i" and "t_transfer (pool s k) = t"
    and "i < MAX_BANK_ACCOUNTS"
  shows "\<exists>P. schedule [k] s = Inr \<lparr>pool = P, shared = shared s\<rparr> \<and> (\<forall>j. j \<noteq> k \<longrightarrow> P j = pool s j) \<and>
    t_pc (P k) = T_Store_Source \<and> t_id (P k) = i \<and> t_transfer (P k) = t \<and>
    t_register (P k) = acc_balance (accounts (shared s) (unat i)) - trf_amount t"
  using assms by (simp add: transfer_turn_def transfer_exec_def Let_def)

text \<open>What the two stores leave, when the source was loaded as \<open>x\<close>.\<close>

definition stored :: "u32 \<Rightarrow> req_transfer \<Rightarrow> u32 \<Rightarrow> bank \<Rightarrow> bank" where
  "stored i t x b =
     (let b1 = set_balance i x b; dst = trf_account_id t
      in set_balance dst (acc_balance (accounts b1 (unat dst)) + trf_amount t) b1)"

definition finished_ok :: "transfer_thread \<Rightarrow> bool" where
  "finished_ok th \<longleftrightarrow> t_pc th = T_Done \<and> rhd_ret_code (rep_header (t_value th)) = RC_OK"

lemma store_run:
  assumes "t_pc (pool s k) = T_Store_Source" and "t_id (pool s k) = i" and "t_transfer (pool s k) = t"
    and "i < MAX_BANK_ACCOUNTS" and "trf_account_id t < MAX_BANK_ACCOUNTS"
  shows "\<exists>P. schedule (replicate 4 k) s = Inr \<lparr>pool = P, shared = stored i t (t_register (pool s k)) (shared s)\<rparr> \<and>
    (\<forall>j. j \<noteq> k \<longrightarrow> P j = pool s j) \<and>
    finished_ok (P k)"
  using assms by (simp add: eval_nat_numeral transfer_turn_def transfer_exec_def stored_def finished_ok_def Let_def)

lemma total_set_balance:
  assumes "unat i < 4096"
  shows "total_funds (set_balance i x b) + unat (acc_balance (accounts b (unat i))) = total_funds b + unat x"
proof -
  let ?f = "\<lambda>k. unat (acc_balance (accounts b k))"
  have "total_funds (set_balance i x b) = (\<Sum>k<4096. (?f(unat i := unat x)) k)"
    unfolding total_funds_def by (rule sum.cong) (simp_all add: set_account_accounts)
  then show ?thesis using sum_fun_upd_in [OF assms, of ?f "unat x"] by (simp add: total_funds_def)
qed

lemma stored_balances:
  assumes "trf_account_id t \<noteq> i"
  shows "acc_balance (accounts (stored i t x b) k) =
    (if k = unat i then x
     else if k = unat (trf_account_id t) then acc_balance (accounts b k) + trf_amount t
     else acc_balance (accounts b k))"
  using assms by (auto simp: stored_def Let_def set_account_accounts word_unat_eq_iff)

lemma total_stored:
  assumes "trf_account_id t \<noteq> i" and "unat i < 4096" and "unat (trf_account_id t) < 4096"
    and "unat (trf_amount t) + unat (acc_balance (accounts b (unat (trf_account_id t)))) \<le> 1000000000"
  shows "total_funds (stored i t x b) + unat (acc_balance (accounts b (unat i))) =
    total_funds b + unat x + unat (trf_amount t)"
proof -
  let ?d = "trf_account_id t" and ?b1 = "set_balance i x b"
  let ?y = "acc_balance (accounts ?b1 (unat ?d))"
  have y: "?y = acc_balance (accounts b (unat ?d))"
    using assms(1) by (simp add: set_account_accounts word_unat_eq_iff)
  have "total_funds (stored i t x b) + unat ?y = total_funds ?b1 + unat (?y + trf_amount t)"
    unfolding stored_def Let_def by (rule total_set_balance [OF assms(3)])
  moreover have "unat (?y + trf_amount t) = unat ?y + unat (trf_amount t)"
    unfolding y using assms(4) by (intro unat_add_no_wrap) simp
  ultimately show ?thesis using total_set_balance [OF assms(2), of x b] by linarith
qed

lemma passes_amounts:
  assumes "passes i t b"
  shows "i < MAX_BANK_ACCOUNTS" "trf_account_id t < MAX_BANK_ACCOUNTS" "unat i < 4096" "unat (trf_account_id t) < 4096"
    "unat (acc_balance (accounts b (unat i)) - trf_amount t) = unat (acc_balance (accounts b (unat i))) - unat (trf_amount t)"
    "0 < unat (trf_amount t)" "unat (trf_amount t) \<le> unat (acc_balance (accounts b (unat i)))"
    "unat (trf_amount t) + unat (acc_balance (accounts b (unat (trf_account_id t)))) \<le> 1000000000"
    "unat (acc_balance (accounts b (unat i))) \<le> 1000000000"
  using assms bank_inv_balance [of b "unat i"]
  by (auto simp: passes_def transfer_verdict_OK index_less_iff unat_sub_le word_le_nat_alt)

lemma loaded_run:
  assumes "pool s k = transfer_start i t rv" and "passes i t (shared s)"
  shows "\<exists>P. schedule (replicate 5 k) s = Inr \<lparr>pool = P, shared = shared s\<rparr> \<and> (\<forall>j. j \<noteq> k \<longrightarrow> P j = pool s j) \<and>
    t_pc (P k) = T_Store_Source \<and> t_id (P k) = i \<and> t_transfer (P k) = t \<and>
    t_register (P k) = acc_balance (accounts (shared s) (unat i)) - trf_amount t"
proof -
  obtain P where P: "schedule (replicate 4 k) s = Inr \<lparr>pool = P, shared = shared s\<rparr>" "\<forall>j. j \<noteq> k \<longrightarrow> P j = pool s j"
    "t_pc (P k) = T_Load_Source" "t_id (P k) = i" "t_transfer (P k) = t"
    using tests_run [OF assms] by blast
  have "replicate 5 k = replicate 4 k @ [k]" by (simp add: eval_nat_numeral)
  then show ?thesis
    using P load_run [of "\<lparr>pool = P, shared = shared s\<rparr>" k i t] passes_amounts(1) [OF assms(2)]
    by (auto simp: schedule_append)
qed

lemma lost_update:
  assumes "passes i t (shared s)" and "passes i t' (shared s)" and "k \<noteq> k'"
    and "pool s k = transfer_start i t rv" and "pool s k' = transfer_start i t' rv'"
    and "trf_account_id t \<noteq> i" and "trf_account_id t' \<noteq> i" and "trf_account_id t \<noteq> trf_account_id t'"
  shows "\<exists>s'. schedule (replicate 5 k @ replicate 5 k' @ replicate 4 k @ replicate 4 k') s = Inr s' \<and>
    finished_ok (pool s' k) \<and>
    finished_ok (pool s' k') \<and>
    acc_balance (accounts (shared s') (unat i)) = acc_balance (accounts (shared s) (unat i)) - trf_amount t' \<and>
    total_funds (shared s') = total_funds (shared s) + unat (trf_amount t)"
proof -
  let ?b = "shared s" and ?x = "acc_balance (accounts (shared s) (unat i))"
  let ?b1 = "stored i t (?x - trf_amount t) ?b"
  let ?b2 = "stored i t' (?x - trf_amount t') ?b1"
  note p = passes_amounts [OF assms(1)] and p' = passes_amounts [OF assms(2)]
  obtain P where P: "schedule (replicate 5 k) s = Inr \<lparr>pool = P, shared = ?b\<rparr>" "\<forall>j. j \<noteq> k \<longrightarrow> P j = pool s j"
    "t_pc (P k) = T_Store_Source" "t_id (P k) = i" "t_transfer (P k) = t" "t_register (P k) = ?x - trf_amount t"
    using loaded_run [OF assms(4,1)] by blast
  obtain Q where Q: "schedule (replicate 5 k') \<lparr>pool = P, shared = ?b\<rparr> = Inr \<lparr>pool = Q, shared = ?b\<rparr>"
    "\<forall>j. j \<noteq> k' \<longrightarrow> Q j = P j" "t_pc (Q k') = T_Store_Source" "t_id (Q k') = i" "t_transfer (Q k') = t'"
    "t_register (Q k') = ?x - trf_amount t'"
    using loaded_run [of "\<lparr>pool = P, shared = ?b\<rparr>" k' i t' rv'] P(2) assms(2,3,5) by auto
  obtain R where R: "schedule (replicate 4 k) \<lparr>pool = Q, shared = ?b\<rparr> = Inr \<lparr>pool = R, shared = ?b1\<rparr>"
    "\<forall>j. j \<noteq> k \<longrightarrow> R j = Q j" "finished_ok (R k)"
    using store_run [of "\<lparr>pool = Q, shared = ?b\<rparr>" k i t] P(3-6) Q(2) p(1,2) assms(3) by auto
  obtain S where S: "schedule (replicate 4 k') \<lparr>pool = R, shared = ?b1\<rparr> = Inr \<lparr>pool = S, shared = ?b2\<rparr>"
    "\<forall>j. j \<noteq> k' \<longrightarrow> S j = R j" "finished_ok (S k')"
    using store_run [of "\<lparr>pool = R, shared = ?b1\<rparr>" k' i t'] Q(3-6) R(2) p'(1,2) assms(3) by auto
  have bal1: "acc_balance (accounts ?b1 (unat i)) = ?x - trf_amount t"
    "acc_balance (accounts ?b1 (unat (trf_account_id t'))) = acc_balance (accounts ?b (unat (trf_account_id t')))"
    using stored_balances [OF assms(6)] assms(7,8) by (auto simp: word_unat_eq_iff)
  have "total_funds ?b1 + unat ?x = total_funds ?b + unat (?x - trf_amount t) + unat (trf_amount t)"
    by (rule total_stored [OF assms(6) p(3,4,8)])
  moreover have "total_funds ?b2 + unat (?x - trf_amount t) =
      total_funds ?b1 + unat (?x - trf_amount t') + unat (trf_amount t')"
    using total_stored [OF assms(7) p'(3,4), of ?b1 "?x - trf_amount t'"] p'(8) by (simp add: bal1)
  ultimately have "total_funds ?b2 = total_funds ?b + unat (trf_amount t)"
    using p(5,7) p'(5,7) by linarith
  moreover have "acc_balance (accounts ?b2 (unat i)) = ?x - trf_amount t'"
    using stored_balances [OF assms(7)] by simp
  ultimately show ?thesis
    using P(1) Q(1) R(1,3) S assms(3) by (simp add: schedule_append)
qed

lemma transfer_run:
  assumes "t_pc (pool s k) = T_Load_Source" and "t_id (pool s k) = i" and "t_transfer (pool s k) = t"
    and "i < MAX_BANK_ACCOUNTS" and "trf_account_id t < MAX_BANK_ACCOUNTS"
  shows "\<exists>P. schedule (replicate 5 k) s = Inr \<lparr>pool = P,
      shared = stored i t (acc_balance (accounts (shared s) (unat i)) - trf_amount t) (shared s)\<rparr> \<and>
    (\<forall>j. j \<noteq> k \<longrightarrow> P j = pool s j) \<and> finished_ok (P k)"
proof -
  obtain P where P: "schedule [k] s = Inr \<lparr>pool = P, shared = shared s\<rparr>" "\<forall>j. j \<noteq> k \<longrightarrow> P j = pool s j"
    "t_pc (P k) = T_Store_Source" "t_id (P k) = i" "t_transfer (P k) = t"
    "t_register (P k) = acc_balance (accounts (shared s) (unat i)) - trf_amount t"
    using load_run [OF assms(1-4)] by blast
  have "replicate 5 k = [k] @ replicate 4 k" by (simp add: eval_nat_numeral)
  then have "schedule (replicate 5 k) s = schedule (replicate 4 k) \<lparr>pool = P, shared = shared s\<rparr>"
    by (simp only: schedule_append P(1) bind_res_Inr)
  then show ?thesis
    using P(2-6) store_run [of "\<lparr>pool = P, shared = shared s\<rparr>" k i t] assms(4,5) by auto
qed

lemma unat_sub_wrap: "unat x < unat y \<Longrightarrow> unat (x - y) + unat y = 2 ^ 32 + unat x" for x y :: u32
proof -
  assume "unat x < unat y"
  moreover have "unat y < 2 ^ 32" using unsigned_less [of y] by simp
  ultimately show ?thesis by (simp add: unat_sub_if' word_le_nat_alt)
qed

lemma overdraft:
  assumes "passes i t (shared s)" and "passes i t' (shared s)" and "k \<noteq> k'"
    and "pool s k = transfer_start i t rv" and "pool s k' = transfer_start i t' rv'"
    and "trf_account_id t \<noteq> i" and "trf_account_id t' \<noteq> i"
    and "unat (acc_balance (accounts (shared s) (unat i))) < unat (trf_amount t) + unat (trf_amount t')"
  shows "\<exists>s'. schedule (replicate 4 k @ replicate 4 k' @ replicate 5 k @ replicate 5 k') s = Inr s' \<and>
    finished_ok (pool s' k) \<and>
    finished_ok (pool s' k') \<and>
    unat (acc_balance (accounts (shared s') (unat i))) + unat (trf_amount t) + unat (trf_amount t') =
      2 ^ 32 + unat (acc_balance (accounts (shared s) (unat i))) \<and> \<not> bank_inv (shared s')"
proof -
  let ?b = "shared s" and ?x = "acc_balance (accounts (shared s) (unat i))"
  let ?b1 = "stored i t (?x - trf_amount t) ?b"
  let ?b2 = "stored i t' (?x - trf_amount t - trf_amount t') ?b1"
  note p = passes_amounts [OF assms(1)] and p' = passes_amounts [OF assms(2)]
  obtain P where P: "schedule (replicate 4 k) s = Inr \<lparr>pool = P, shared = ?b\<rparr>" "\<forall>j. j \<noteq> k \<longrightarrow> P j = pool s j"
    "t_pc (P k) = T_Load_Source" "t_id (P k) = i" "t_transfer (P k) = t"
    using tests_run [OF assms(4,1)] by blast
  obtain Q where Q: "schedule (replicate 4 k') \<lparr>pool = P, shared = ?b\<rparr> = Inr \<lparr>pool = Q, shared = ?b\<rparr>"
    "\<forall>j. j \<noteq> k' \<longrightarrow> Q j = P j" "t_pc (Q k') = T_Load_Source" "t_id (Q k') = i" "t_transfer (Q k') = t'"
    using tests_run [of "\<lparr>pool = P, shared = ?b\<rparr>" k' i t' rv'] P(2) assms(2,3,5) by auto
  obtain R where R: "schedule (replicate 5 k) \<lparr>pool = Q, shared = ?b\<rparr> = Inr \<lparr>pool = R, shared = ?b1\<rparr>"
    "\<forall>j. j \<noteq> k \<longrightarrow> R j = Q j" "finished_ok (R k)"
    using transfer_run [of "\<lparr>pool = Q, shared = ?b\<rparr>" k i t] P(3-5) Q(2) p(1,2) assms(3) by auto
  have bal1: "acc_balance (accounts ?b1 (unat i)) = ?x - trf_amount t"
    using stored_balances [OF assms(6)] by simp
  obtain S where S: "schedule (replicate 5 k') \<lparr>pool = R, shared = ?b1\<rparr> = Inr \<lparr>pool = S, shared = ?b2\<rparr>"
    "\<forall>j. j \<noteq> k' \<longrightarrow> S j = R j" "finished_ok (S k')"
    using transfer_run [of "\<lparr>pool = R, shared = ?b1\<rparr>" k' i t'] Q(3-5) R(2) p'(1,2) assms(3) bal1 by auto
  have bal2: "acc_balance (accounts ?b2 (unat i)) = ?x - trf_amount t - trf_amount t'"
    using stored_balances [OF assms(7)] by simp
  have wrap: "unat (acc_balance (accounts ?b2 (unat i))) + unat (trf_amount t) + unat (trf_amount t') = 2 ^ 32 + unat ?x"
    unfolding bal2 using unat_sub_wrap [of "?x - trf_amount t" "trf_amount t'"] p(5,7) assms(8) by linarith
  moreover have "\<not> bank_inv ?b2"
  proof
    assume "bank_inv ?b2"
    then have "unat (acc_balance (accounts ?b2 (unat i))) \<le> 1000000000" using p(3) by (rule bank_inv_balance)
    then show False using wrap p(7,9) p'(7) by simp
  qed
  ultimately show ?thesis
    using P(1) Q(1) R(1,3) S assms(3) by (simp add: schedule_append)
qed


section \<open>Properties\<close>

text \<open>
  The access-by-access model is the handler. A thread that makes its nine accesses to
  the accounts without anyone in between replies and leaves the accounts as
  create_user_transfer does, and it leaves the array where the handler does.
\<close>

theorem transfer_step_by_step:
  assumes "pool s k = transfer_start i t rv"
  shows "case create_user_transfer i t rv (shared s) of
      Inl e \<Rightarrow> schedule (replicate 9 k) s = Inl e
    | Inr (rv', b') \<Rightarrow> \<exists>s'. schedule (replicate 9 k) s = Inr s' \<and> shared s' = b' \<and>
        t_pc (pool s' k) = T_Done \<and> t_value (pool s' k) = rv'"
  by (rule transfer_alone [OF assms])

text \<open>Three open accounts, and the transfers of three offices.\<close>

definition three_accounts :: bank where
  "three_accounts =
     set_account 3 \<lparr>acc_account_id = 3, acc_hash = [], acc_salt = [], acc_balance = 7\<rparr> two_accounts"

lemma three_accounts: "bank_inv three_accounts"
  unfolding three_accounts_def by (rule bank_inv_set) (simp_all add: account_ok_def)

definition sample_transfers :: "u32 \<Rightarrow> req_transfer \<Rightarrow> u32 \<Rightarrow> req_transfer \<Rightarrow> transfers" where
  "sample_transfers i t i' t' =
     \<lparr>pool = (\<lambda>k. if k = 1 then transfer_start i t (rep_val sample_reply)
        else if k = 2 then transfer_start i' t' (rep_val sample_reply)
        else (transfer_start 9 \<lparr>trf_account_id = 9, trf_amount = 0\<rparr> (rep_val sample_reply))\<lparr>t_pc := T_Done\<rparr>),
      shared = three_accounts\<rparr>"

theorem transfer_step_by_step_witness:
  "\<exists>s'. schedule (replicate 9 1) (sample_transfers 1 \<lparr>trf_account_id = 2, trf_amount = 30\<rparr> 3 \<lparr>trf_account_id = 3, trf_amount = 1\<rparr>) =
      Inr s' \<and> t_pc (pool s' 1) = T_Done \<and> rhd_ret_code (rep_header (t_value (pool s' 1))) = RC_OK"
proof -
  let ?s = "sample_transfers 1 \<lparr>trf_account_id = 2, trf_amount = 30\<rparr> 3 \<lparr>trf_account_id = 3, trf_amount = 1\<rparr>"
  have p: "pool ?s 1 = transfer_start 1 \<lparr>trf_account_id = 2, trf_amount = 30\<rparr> (rep_val sample_reply)"
    by (simp add: sample_transfers_def)
  have "transfer_verdict 1 \<lparr>trf_account_id = 2, trf_amount = 30\<rparr> three_accounts = RC_OK"
    by (simp add: transfer_verdict_OK three_accounts_def two_accounts_def)
  then show ?thesis
    using transfer_step_by_step [OF p] create_user_transfer_eq [OF three_accounts, of 1 "\<lparr>trf_account_id = 2, trf_amount = 30\<rparr>"]
    by (auto simp: sample_transfers_def Let_def)
qed

text \<open>
  C11: Transfers over different accounts do not disturb each other, although nothing locks the
  accounts. If no other office's transfer names the sender or the receiver of this one, then
  in every schedule that gives it its nine accesses it replies what create_user_transfer
  replies when it runs alone from the initial accounts, and leaves its two accounts as that
  does.
\<close>

theorem disjoint_transfers_do_not_interfere:
  assumes "schedule ks s = Inr s'" and "9 \<le> count_list ks k" and "pool s k = transfer_start i t rv"
    and "\<forall>j. j \<noteq> k \<longrightarrow> footprint (pool s j) \<inter> footprint (pool s k) = {}"
  shows "\<exists>rv' b'. create_user_transfer i t rv (shared s) = Inr (rv', b') \<and> t_pc (pool s' k) = T_Done \<and>
    t_value (pool s' k) = rv' \<and> accounts (shared s') (unat i) = accounts b' (unat i) \<and>
    accounts (shared s') (unat (trf_account_id t)) = accounts b' (unat (trf_account_id t))"
  using disjoint_transfer [OF assms] by (auto simp: agree_def)

theorem disjoint_transfers_do_not_interfere_witness:
  "\<exists>s'. schedule (concat (replicate 9 [2, 1])) (sample_transfers 1 \<lparr>trf_account_id = 2, trf_amount = 30\<rparr> 3 \<lparr>trf_account_id = 3, trf_amount = 1\<rparr>) =
      Inr s' \<and> acc_balance (accounts (shared s') 2) = 50"
proof -
  let ?t = "\<lparr>trf_account_id = 2, trf_amount = 30\<rparr>"
  let ?s = "sample_transfers 1 ?t 3 \<lparr>trf_account_id = 3, trf_amount = 1\<rparr>"
  have p: "pool ?s 1 = transfer_start 1 ?t (rep_val sample_reply)" by (simp add: sample_transfers_def)
  have d: "\<forall>j. j \<noteq> 1 \<longrightarrow> footprint (pool ?s j) \<inter> footprint (pool ?s 1) = {}"
    by (simp add: sample_transfers_def footprint_def transfer_start_def)
  have v: "transfer_verdict 1 ?t three_accounts = RC_OK"
    by (simp add: transfer_verdict_OK three_accounts_def two_accounts_def)
  have ids: "\<forall>k. in_array (pool ?s k)"
    by (simp add: sample_transfers_def in_array_def transfer_start_def MAX_BANK_ACCOUNTS_def)
  have "shared ?s = three_accounts" by (simp add: sample_transfers_def)
  moreover have "acc_balance (accounts (moved 1 ?t three_accounts) 2) = 50"
    by (simp add: moved_def three_accounts_def two_accounts_def)
  moreover obtain s' where s': "schedule (concat (replicate 9 [2, 1])) ?s = Inr s'"
    using schedule_returns [of ?s "concat (replicate 9 [2, 1])"] ids by blast
  moreover have "9 \<le> count_list (concat (replicate 9 [2, 1])) (1::nat)" by (simp add: eval_nat_numeral)
  ultimately show ?thesis
    using disjoint_transfers_do_not_interfere [OF s' _ p d] v create_user_transfer_eq [OF three_accounts, of 1 ?t]
    by (auto simp: Let_def)
qed

text \<open>
  Two transfers from one account at the same time break the books. The offices process
  requests without holding any lock, so two of them that both pass the handler's tests can
  interleave their accesses: there is a schedule after which both clients are told RC_OK and
  the first amount was credited but never debited (money is created), and if the two amounts
  together exceed the balance there is one after which both succeeded and the balance has
  wrapped around to more than four thousand million.
\<close>

theorem racing_transfers_break_the_books:
  assumes "passes i t (shared s)" and "passes i t' (shared s)" and "k \<noteq> k'"
    and "pool s k = transfer_start i t rv" and "pool s k' = transfer_start i t' rv'"
    and "trf_account_id t \<noteq> i" and "trf_account_id t' \<noteq> i" and "trf_account_id t \<noteq> trf_account_id t'"
  shows "(\<exists>ks s'. schedule ks s = Inr s' \<and>
      rhd_ret_code (rep_header (t_value (pool s' k))) = RC_OK \<and>
      rhd_ret_code (rep_header (t_value (pool s' k'))) = RC_OK \<and>
      total_funds (shared s') = total_funds (shared s) + unat (trf_amount t)) \<and>
    (unat (acc_balance (accounts (shared s) (unat i))) < unat (trf_amount t) + unat (trf_amount t') \<longrightarrow>
     (\<exists>ks s'. schedule ks s = Inr s' \<and>
      rhd_ret_code (rep_header (t_value (pool s' k))) = RC_OK \<and>
      rhd_ret_code (rep_header (t_value (pool s' k'))) = RC_OK \<and>
      unat (acc_balance (accounts (shared s') (unat i))) + unat (trf_amount t) + unat (trf_amount t') =
        2 ^ 32 + unat (acc_balance (accounts (shared s) (unat i))) \<and> \<not> bank_inv (shared s')))"
  using lost_update [OF assms] overdraft [OF assms(1-7)] unfolding finished_ok_def by blast

theorem racing_transfers_break_the_books_witness:
  "\<exists>ks s'. schedule ks (sample_transfers 1 \<lparr>trf_account_id = 2, trf_amount = 500\<rparr> 1 \<lparr>trf_account_id = 3, trf_amount = 500\<rparr>) =
      Inr s' \<and> unat (acc_balance (accounts (shared s') 1)) = 4294966796"
proof -
  let ?t = "\<lparr>trf_account_id = 2, trf_amount = 500\<rparr>" and ?t' = "\<lparr>trf_account_id = 3, trf_amount = 500\<rparr>"
  let ?s = "sample_transfers 1 ?t 1 ?t'"
  have p: "pool ?s 1 = transfer_start 1 ?t (rep_val sample_reply)" "pool ?s 2 = transfer_start 1 ?t' (rep_val sample_reply)"
    by (simp_all add: sample_transfers_def)
  have sh: "shared ?s = three_accounts" "acc_balance (accounts three_accounts (Suc 0)) = 500"
    by (simp_all add: sample_transfers_def three_accounts_def two_accounts_def)
  have "passes 1 ?t (shared ?s)" "passes 1 ?t' (shared ?s)"
    unfolding sh(1) passes_def
    by (simp_all add: three_accounts transfer_verdict_OK) (simp_all add: three_accounts_def two_accounts_def)
  from racing_transfers_break_the_books [OF this _ p] show ?thesis by (auto simp: sh)
qed

end
