(* ===== verification/Processing.thy ===== *)
theory Processing
  imports Requests Transfers
begin

text \<open>
  \<open>acknowledge_request\<close> access by access: between two steps of one office the others can
  read and write the accounts, which no lock protects. Each step makes at most one access
  to a field of the global array (a string is one access) and whatever only the office itself
  can see before and after it; the calls of \<open>rand\<close> of one salt belong to the step that
  stores it. Undisturbed, the steps are \<open>acknowledge_request\<close>.
\<close>

section \<open>Where an office is\<close>

text \<open>
  Before the first assignment, at the read of the account's id, of its salt (the shell is
  run with it), of its hash (with the hash of the password given), in the three operations,
  and before the last assignment.
\<close>

datatype processing =
    P_Begin | P_Login | P_Salt | P_Compare string
  | P_In_Use | P_Store_Id | P_Store_Balance | P_Store_Salt | P_Store_Hash string | P_Log
  | P_Balance | P_Transfer transfer_thread | P_Length

text \<open>The \<open>switch\<close> of \<open>acknowledge_request\<close>.\<close>

definition dispatch_on :: "tlv_request \<Rightarrow> tlv_reply \<Rightarrow> processing" where
  "dispatch_on req reply =
     (case req_type req of
        OP_CREATE_ACCOUNT \<Rightarrow> P_In_Use
      | OP_BALANCE \<Rightarrow> P_Balance
      | OP_TRANSFER \<Rightarrow>
          P_Transfer (transfer_start (hdr_account_id (req_hdr req)) (value_transfer (req_val req)) (rep_val reply))
      | _ \<Rightarrow> P_Length)"

definition code_reply :: "ret_code \<Rightarrow> tlv_reply \<Rightarrow> tlv_reply" where
  "code_reply c reply = reply\<lparr>rep_val := set_code c (rep_val reply)\<rparr>"

text \<open>The tests of both validations that come before the password.\<close>

definition login_step :: "tlv_request \<Rightarrow> tlv_reply \<Rightarrow> bank \<Rightarrow> (processing \<times> tlv_reply) res" where
  "login_step req reply b =
     (let i = hdr_account_id (req_hdr req); admin = (if \<not> is_admin i then Inr (P_Length, code_reply RC_OP_NALLOW reply)
                     else Inr (P_Salt, reply));
          user = (if is_admin i then Inr (P_Length, code_reply RC_OP_NALLOW reply)
            else if \<not> between 1 i MAX_BANK_ACCOUNTS then Inr (P_Length, code_reply RC_OTHER reply)
            else bind_res (account_at b i) (\<lambda>a.
              if i \<noteq> acc_account_id a then Inr (P_Length, code_reply RC_ID_NOT_FOUND reply)
              else Inr (P_Salt, reply)))
      in case req_type req of
           OP_CREATE_ACCOUNT \<Rightarrow> admin | OP_SHUTDOWN \<Rightarrow> admin
         | OP_BALANCE \<Rightarrow> user | OP_TRANSFER \<Rightarrow> user
         | _ \<Rightarrow> Inr (P_Length, reply))"

text \<open>The tests of \<open>create_user_account\<close>; \<open>P_Log\<close> is where a refusal goes on.\<close>

definition in_use_step :: "req_create_account \<Rightarrow> tlv_reply \<Rightarrow> bank \<Rightarrow> (processing \<times> tlv_reply) res" where
  "in_use_step create reply b =
     (let i = crt_account_id create in
      if \<not> between 1 i MAX_BANK_ACCOUNTS then Inr (P_Log, code_reply RC_OTHER reply)
      else bind_res (account_at b i) (\<lambda>a.
        if i = acc_account_id a then Inr (P_Log, code_reply RC_ID_IN_USE reply)
        else if \<not> between MIN_BALANCE (ucast (crt_balance create)) MAX_BALANCE
        then Inr (P_Log, code_reply RC_OTHER reply)
        else if \<not> between MIN_PASSWORD_LEN (length (crt_password create)) MAX_PASSWORD_LEN
        then Inr (P_Log, code_reply RC_OTHER reply)
        else if CHR '' '' \<in> set (crt_password create) then Inr (P_Log, code_reply RC_OTHER reply)
        else Inr (P_Store_Id, reply)))"

text \<open>An assignment to a field of \<open>accounts[i]\<close>.\<close>

definition store :: "u32 \<Rightarrow> (bank_account \<Rightarrow> bank_account) \<Rightarrow> bank \<Rightarrow> bank res" where
  "store i f b = bind_res (account_at b i) (\<lambda>a. Inr (set_account i (f a) b))"

definition process_exec :: "shell \<Rightarrow> (nat \<Rightarrow> nat) \<Rightarrow> int \<Rightarrow> tlv_request \<Rightarrow>
    processing \<Rightarrow> tlv_reply \<Rightarrow> bank \<Rightarrow> (processing \<times> tlv_reply \<times> bank) res" where
  "process_exec sh rnd office_id req w reply b =
     (let i = hdr_account_id (req_hdr req); create = value_create (req_val req); c = crt_account_id create in
      case w of
        P_Begin \<Rightarrow>
          Inr (P_Login, reply\<lparr>rep_type := req_type req, rep_val := set_account_id i (rep_val reply)\<rparr>,
            usleep (hdr_op_delay_ms (req_hdr req)) b)
      | P_Login \<Rightarrow> bind_res (login_step req reply b) (\<lambda>(w, reply). Inr (w, reply, b))
      | P_Salt \<Rightarrow>
          bind_res (account_at b i) (\<lambda>a.
          bind_res (echo_quoted (hdr_password (req_hdr req)) (acc_salt a)) (\<lambda>command.
          bind_res (popen_line sh command) (\<lambda>hash.
          bind_res (copy_token REQ_HASH_SIZE hash) (\<lambda>req_hash.
            Inr (P_Compare req_hash, reply, b)))))
      | P_Compare req_hash \<Rightarrow>
          bind_res (account_at b i) (\<lambda>a.
            if req_hash \<noteq> acc_hash a then Inr (P_Length, code_reply RC_LOGIN_FAIL reply, b)
            else Inr (dispatch_on req (code_reply RC_OK reply), code_reply RC_OK reply, b))
      | P_In_Use \<Rightarrow> bind_res (in_use_step create reply b) (\<lambda>(w, reply). Inr (w, reply, b))
      | P_Store_Id \<Rightarrow>
          bind_res (store c (\<lambda>a. a\<lparr>acc_account_id := c\<rparr>) b) (\<lambda>b. Inr (P_Store_Balance, reply, b))
      | P_Store_Balance \<Rightarrow>
          bind_res (store c (\<lambda>a. a\<lparr>acc_balance := crt_balance create\<rparr>) b) (\<lambda>b. Inr (P_Store_Salt, reply, b))
      | P_Store_Salt \<Rightarrow>
          (let (salt, pos) = rand_string rnd (rand_pos b) [] SALT_LEN in
           bind_res (strcpy (SALT_LEN + 1) salt) (\<lambda>s.
           bind_res (store c (\<lambda>a. a\<lparr>acc_salt := s\<rparr>) b) (\<lambda>b.
             Inr (P_Store_Hash salt, reply, b\<lparr>rand_pos := pos\<rparr>))))
      | P_Store_Hash salt \<Rightarrow>
          bind_res (echo_plain (crt_password create) salt) (\<lambda>command.
          bind_res (popen_line sh command) (\<lambda>hash.
          bind_res (strcpy (HASH_LEN + 1) (strtok_buffer '' '' hash)) (\<lambda>h.
          bind_res (store c (\<lambda>a. a\<lparr>acc_hash := h\<rparr>) b) (\<lambda>b.
            Inr (P_Length, code_reply RC_OK reply, b)))))
      | P_Log \<Rightarrow>
          bind_res (account_at b c) (\<lambda>account.
            Inr (P_Length, reply, b\<lparr>slog := snd (logAccountCreation office_id (Some account) (slog b))\<rparr>))
      | P_Balance \<Rightarrow>
          bind_res (check_user_balance i (rep_val reply) b) (\<lambda>rv. Inr (P_Length, reply\<lparr>rep_val := rv\<rparr>, b))
      | P_Transfer th \<Rightarrow>
          bind_res (transfer_exec th b) (\<lambda>(th, b).
            if t_pc th = T_Done then Inr (P_Length, reply\<lparr>rep_val := t_value th\<rparr>, b)
            else Inr (P_Transfer th, reply, b))
      | P_Length \<Rightarrow> Inr (P_Length, reply, b))"

text \<open>The last assignment.\<close>

definition finish_reply :: "tlv_reply \<Rightarrow> tlv_reply" where
  "finish_reply reply = reply\<lparr>rep_length := of_nat sizeof_rep_value\<rparr>"

fun process :: "shell \<Rightarrow> (nat \<Rightarrow> nat) \<Rightarrow> int \<Rightarrow> tlv_request \<Rightarrow> nat \<Rightarrow>
    processing \<Rightarrow> tlv_reply \<Rightarrow> bank \<Rightarrow> (processing \<times> tlv_reply \<times> bank) res" where
  "process sh rnd office_id req 0 w reply b = Inr (w, reply, b)"
| "process sh rnd office_id req (Suc n) w reply b =
     bind_res (process_exec sh rnd office_id req w reply b) (\<lambda>(w, reply, b). process sh rnd office_id req n w reply b)"

text \<open>The step from each position.\<close>

lemma process_exec_simps [simp]:
  "process_exec sh rnd k req P_Begin reply b =
    Inr (P_Login, reply\<lparr>rep_type := req_type req, rep_val := set_account_id (hdr_account_id (req_hdr req)) (rep_val reply)\<rparr>,
      usleep (hdr_op_delay_ms (req_hdr req)) b)"
  "process_exec sh rnd k req P_Login reply b =
    bind_res (login_step req reply b) (\<lambda>(w, reply). Inr (w, reply, b))"
  "process_exec sh rnd k req P_Salt reply b =
    bind_res (account_at b (hdr_account_id (req_hdr req))) (\<lambda>a.
    bind_res (echo_quoted (hdr_password (req_hdr req)) (acc_salt a)) (\<lambda>command.
    bind_res (popen_line sh command) (\<lambda>hash.
    bind_res (copy_token REQ_HASH_SIZE hash) (\<lambda>req_hash. Inr (P_Compare req_hash, reply, b)))))"
  "process_exec sh rnd k req (P_Compare h) reply b =
    bind_res (account_at b (hdr_account_id (req_hdr req))) (\<lambda>a.
      if h \<noteq> acc_hash a then Inr (P_Length, code_reply RC_LOGIN_FAIL reply, b)
      else Inr (dispatch_on req (code_reply RC_OK reply), code_reply RC_OK reply, b))"
  "process_exec sh rnd k req P_In_Use reply b =
    bind_res (in_use_step (value_create (req_val req)) reply b) (\<lambda>(w, reply). Inr (w, reply, b))"
  "process_exec sh rnd k req P_Store_Id reply b =
    bind_res (store (crt_account_id (value_create (req_val req)))
      (\<lambda>a. a\<lparr>acc_account_id := crt_account_id (value_create (req_val req))\<rparr>) b) (\<lambda>b. Inr (P_Store_Balance, reply, b))"
  "process_exec sh rnd k req P_Store_Balance reply b =
    bind_res (store (crt_account_id (value_create (req_val req)))
      (\<lambda>a. a\<lparr>acc_balance := crt_balance (value_create (req_val req))\<rparr>) b) (\<lambda>b. Inr (P_Store_Salt, reply, b))"
  "process_exec sh rnd k req P_Store_Salt reply b =
    bind_res (strcpy (SALT_LEN + 1) (new_salt rnd b)) (\<lambda>s.
    bind_res (store (crt_account_id (value_create (req_val req))) (\<lambda>a. a\<lparr>acc_salt := s\<rparr>) b) (\<lambda>b'.
      Inr (P_Store_Hash (new_salt rnd b), reply, b'\<lparr>rand_pos := rand_pos b + 63\<rparr>)))"
  "process_exec sh rnd k req (P_Store_Hash salt) reply b =
    bind_res (echo_plain (crt_password (value_create (req_val req))) salt) (\<lambda>command.
    bind_res (popen_line sh command) (\<lambda>hash.
    bind_res (strcpy (HASH_LEN + 1) (strtok_buffer '' '' hash)) (\<lambda>h.
    bind_res (store (crt_account_id (value_create (req_val req))) (\<lambda>a. a\<lparr>acc_hash := h\<rparr>) b) (\<lambda>b.
      Inr (P_Length, code_reply RC_OK reply, b)))))"
  "process_exec sh rnd k req P_Log reply b =
    bind_res (account_at b (crt_account_id (value_create (req_val req)))) (\<lambda>account.
      Inr (P_Length, reply, b\<lparr>slog := snd (logAccountCreation k (Some account) (slog b))\<rparr>))"
  "process_exec sh rnd k req P_Balance reply b =
    bind_res (check_user_balance (hdr_account_id (req_hdr req)) (rep_val reply) b) (\<lambda>rv.
      Inr (P_Length, reply\<lparr>rep_val := rv\<rparr>, b))"
  "process_exec sh rnd k req (P_Transfer th) reply b =
    bind_res (transfer_exec th b) (\<lambda>(th, b).
      if t_pc th = T_Done then Inr (P_Length, reply\<lparr>rep_val := t_value th\<rparr>, b)
      else Inr (P_Transfer th, reply, b))"
  "process_exec sh rnd k req P_Length reply b = Inr (P_Length, reply, b)"
  by (simp_all add: process_exec_def Let_def rand_string_salt)

section \<open>Undisturbed\<close>

lemma process_add:
  "process sh rnd k req (m + n) w reply b =
    bind_res (process sh rnd k req m w reply b) (\<lambda>(w, reply, b). process sh rnd k req n w reply b)"
  by (induction m arbitrary: w reply b) (auto simp: bind_res_assoc intro!: bind_res_cong)

lemma process_snoc:
  "process sh rnd k req n w reply b = Inr (w', r, b') \<Longrightarrow> process_exec sh rnd k req w' r b' = Inr x \<Longrightarrow>
    process sh rnd k req (Suc n) w reply b = Inr x"
  unfolding Suc_eq_plus1 process_add by (cases x) simp

lemma process_done [simp]: "process sh rnd k req n P_Length reply b = Inr (P_Length, reply, b)"
  by (induction n) (simp_all)

lemma process_more:
  "process sh rnd k req m w reply b = Inr (P_Length, r, b') \<Longrightarrow> process sh rnd k req (m + n) w reply b = Inr (P_Length, r, b')"
  by (simp add: process_add)

lemma process_stuck:
  "process sh rnd k req m w reply b = Inl e \<Longrightarrow> process sh rnd k req (m + n) w reply b = Inl e"
  by (simp add: process_add)

text \<open>The nine accesses of a transfer.\<close>

lemma process_transfer:
  assumes "pool s j = th" and "t_pc th \<noteq> T_Done"
  shows "(case schedule (replicate n j) s of
      Inl e \<Rightarrow> process sh rnd k req n (P_Transfer th) reply (shared s) = Inl e
    | Inr s' \<Rightarrow> process sh rnd k req n (P_Transfer th) reply (shared s) =
        Inr (if t_pc (pool s' j) = T_Done then (P_Length, reply\<lparr>rep_val := t_value (pool s' j)\<rparr>, shared s')
             else (P_Transfer (pool s' j), reply, shared s')))"
  using assms
proof (induction n arbitrary: s th)
  case (Suc n)
  show ?case
  proof (cases "transfer_exec th (shared s)")
    case (Inl e)
    then show ?thesis using Suc.prems by (simp add: transfer_turn_def)
  next
    case (Inr r)
    obtain th' b' where r: "r = (th', b')" by (cases r)
    let ?s = "\<lparr>pool = (pool s)(j := th'), shared = b'\<rparr>"
    have sch: "schedule (replicate (Suc n) j) s = schedule (replicate n j) ?s"
      using Inr r Suc.prems(1) by (simp add: transfer_turn_def)
    show ?thesis
    proof (cases "t_pc th' = T_Done")
      case True
      then show ?thesis
        using Inr r sch idle_turns [of ?s j n] by (simp del: schedule.simps replicate.simps)
    next
      case False
      then show ?thesis
        using Suc.IH [of ?s th'] Inr r sch
        by (simp del: schedule.simps replicate.simps split: sum.splits)
    qed
  qed
qed simp

section \<open>Undisturbed processing\<close>

lemma process_validation:
  fixes b :: bank and req :: tlv_request and reply :: tlv_reply
  defines "b1 \<equiv> usleep (hdr_op_delay_ms (req_hdr req)) b"
    and "r1 \<equiv> reply\<lparr>rep_type := req_type req, rep_val := set_account_id (hdr_account_id (req_hdr req)) (rep_val reply)\<rparr>"
  shows "process sh rnd k req 4 P_Begin reply b =
    bind_res (validate_request sh b1 req r1) (\<lambda>(ok, r). Inr (if ok then dispatch_on req r else P_Length, r, b1))"
proof -
  let ?i = "hdr_account_id (req_hdr req)"
  have split: "bind_res (if c then x else y) g = (if c then bind_res x g else bind_res y g)"
    for c and x y :: "'x res" and g :: "'x \<Rightarrow> 'y res" by simp
  have salt: "process sh rnd k req 2 P_Salt r1 b1 =
      bind_res (account_at b1 ?i) (\<lambda>a. bind_res (check_password sh a (req_hdr req) (rep_val r1)) (\<lambda>(ok, rv).
        Inr (if ok then dispatch_on req (r1\<lparr>rep_val := rv\<rparr>) else P_Length, r1\<lparr>rep_val := rv\<rparr>, b1)))"
    by (cases "account_at b1 ?i")
      (auto simp: eval_nat_numeral check_password_def bind_res_assoc code_reply_def Let_def
        intro!: bind_res_cong)
  have "process sh rnd k req 2 P_Begin reply b = bind_res (login_step req r1 b1) (\<lambda>(w, r). Inr (w, r, b1))"
    by (simp add: numeral_2_eq_2 b1_def r1_def bind_res_assoc case_prod_unfold)
  then have start: "process sh rnd k req 4 P_Begin reply b =
      bind_res (login_step req r1 b1) (\<lambda>(w, r). process sh rnd k req 2 w r b1)"
    using process_add [of sh rnd k req 2 2 P_Begin reply b] by (simp add: bind_res_assoc case_prod_unfold)
  have admin: "bind_res (if \<not> is_admin ?i then Inr (P_Length, code_reply RC_OP_NALLOW r1) else Inr (P_Salt, r1))
      (\<lambda>(w, r). process sh rnd k req 2 w r b1) =
      bind_res (validate_admin sh b1 (req_hdr req) (rep_val r1)) (\<lambda>(ok, rv).
        Inr (if ok then dispatch_on req (r1\<lparr>rep_val := rv\<rparr>) else P_Length, r1\<lparr>rep_val := rv\<rparr>, b1))"
    by (simp add: validate_admin_def salt bind_res_assoc code_reply_def)
  have user: "bind_res (if is_admin ?i then Inr (P_Length, code_reply RC_OP_NALLOW r1)
            else if \<not> between 1 ?i MAX_BANK_ACCOUNTS then Inr (P_Length, code_reply RC_OTHER r1)
            else bind_res (account_at b1 ?i) (\<lambda>a.
              if ?i \<noteq> acc_account_id a then Inr (P_Length, code_reply RC_ID_NOT_FOUND r1)
              else Inr (P_Salt, r1)))
      (\<lambda>(w, r). process sh rnd k req 2 w r b1) =
      bind_res (validate_user sh b1 (req_hdr req) (rep_val r1)) (\<lambda>(ok, rv).
        Inr (if ok then dispatch_on req (r1\<lparr>rep_val := rv\<rparr>) else P_Length, r1\<lparr>rep_val := rv\<rparr>, b1))"
    by (cases "account_at b1 ?i") (auto simp: validate_user_def salt bind_res_assoc code_reply_def)
  show ?thesis
    unfolding start login_step_def Let_def validate_request_def
    by (cases "req_type req") (simp_all only: op_type.case admin [unfolded case_prod_unfold] user [unfolded case_prod_unfold] bind_res_assoc case_prod_unfold bind_res_Inr
        fst_conv snd_conv if_False process_done)
qed

lemma store_in: "i < MAX_BANK_ACCOUNTS \<Longrightarrow> store i f b = Inr (set_account i (f (accounts b (unat i))) b)"
  by (simp add: store_def)

lemma process_creation:
  "process sh rnd k req 5 P_In_Use reply b =
    bind_res (create_user_account sh rnd (value_create (req_val req)) (rep_val reply) b) (\<lambda>(r, rv, b').
      if r then bind_res (account_at b' (crt_account_id (value_create (req_val req)))) (\<lambda>account.
        Inr (P_Length, reply\<lparr>rep_val := rv\<rparr>, b'\<lparr>slog := snd (logAccountCreation k (Some account) (slog b'))\<rparr>))
      else Inr (P_Length, reply\<lparr>rep_val := rv\<rparr>, b'))"
proof -
  let ?c = "value_create (req_val req)" and ?i = "crt_account_id (value_create (req_val req))"
  have log: "process sh rnd k req (Suc n) P_Log r b = bind_res (account_at b ?i) (\<lambda>account.
      Inr (P_Length, r, b\<lparr>slog := snd (logAccountCreation k (Some account) (slog b))\<rparr>))" for r n
    by (simp add: bind_res_assoc)
  have five: "(5::nat) = Suc (Suc (Suc (Suc (Suc 0))))" by simp
  have salt: "new_salt rnd (b\<lparr>accounts := x\<rparr>) = new_salt rnd b"
    and order: "b\<lparr>rand_pos := p, accounts := x\<rparr> = b\<lparr>accounts := x, rand_pos := p\<rparr>" for x p
    by (simp_all add: new_salt_def)
  show ?thesis
  proof (cases "?i < MAX_BANK_ACCOUNTS")
    case True
    show ?thesis
      using True
      by (simp add: five in_use_step_def create_user_account_def store_in rand_string_salt salt order
          code_reply_def Let_def case_prod_unfold bind_res_assoc set_account_def)
  next
    case False
    then show ?thesis
      by (simp add: five in_use_step_def create_user_account_def account_at_out
          code_reply_def Let_def case_prod_unfold bind_res_assoc)
  qed
qed


lemma process_operation:
  "bind_res (process sh rnd k req 9 (dispatch_on req reply) reply b) (\<lambda>(w, r, b'). Inr (w, r, b')) =
    bind_res (perform sh rnd k req reply b) (\<lambda>(r, b'). Inr (P_Length, r, b'))"
proof (cases "req_type req")
  case OP_CREATE_ACCOUNT
  have "process sh rnd k req 9 P_In_Use reply b = bind_res (process sh rnd k req 5 P_In_Use reply b)
      (\<lambda>(w, r, b'). process sh rnd k req 4 w r b')"
    using process_add [of sh rnd k req 5 4] by simp
  then show ?thesis
    unfolding OP_CREATE_ACCOUNT dispatch_on_def perform_def op_type.case process_creation bind_res_assoc case_prod_unfold
    by (auto intro!: bind_res_cong simp: bind_res_assoc)
next
  case OP_BALANCE
  have "process sh rnd k req 9 P_Balance reply b = bind_res (process sh rnd k req 1 P_Balance reply b)
      (\<lambda>(w, r, b'). process sh rnd k req 8 w r b')"
    using process_add [of sh rnd k req 1 8] by simp
  then show ?thesis
    unfolding OP_BALANCE dispatch_on_def perform_def op_type.case
    by (auto intro!: bind_res_cong simp: bind_res_assoc)
next
  case OP_TRANSFER
  let ?th = "transfer_start (hdr_account_id (req_hdr req)) (value_transfer (req_val req)) (rep_val reply)"
  let ?s = "\<lparr>pool = \<lambda>_. ?th, shared = b\<rparr>"
  have "t_pc ?th \<noteq> T_Done" by (simp add: transfer_start_def)
  from process_transfer [where s = ?s and j = 0 and th = ?th and n = 9, OF _ this]
  show ?thesis
    using transfer_alone [of ?s 0 "hdr_account_id (req_hdr req)" "value_transfer (req_val req)" "rep_val reply"] OP_TRANSFER
    by (auto simp: dispatch_on_def perform_def split: sum.splits prod.splits)
qed (simp_all add: dispatch_on_def perform_def)

text \<open>Thirteen steps are enough for every request.\<close>

lemma process_alone:
  "bind_res (process sh rnd k req 13 P_Begin reply b) (\<lambda>(w, r, b'). Inr (w, finish_reply r, b')) =
    bind_res (acknowledge_request sh rnd k req reply b) (\<lambda>(r, b'). Inr (P_Length, r, b'))"
proof -
  let ?b = "usleep (hdr_op_delay_ms (req_hdr req)) b"
  let ?r = "reply\<lparr>rep_type := req_type req, rep_val := set_account_id (hdr_account_id (req_hdr req)) (rep_val reply)\<rparr>"
  have op: "bind_res (process sh rnd k req 9 (dispatch_on req r) r ?b) (\<lambda>(w, r, b'). Inr (w, finish_reply r, b')) =
      bind_res (perform sh rnd k req r ?b) (\<lambda>(r, b'). Inr (P_Length, finish_reply r, b'))" for r
    using arg_cong [OF process_operation [of sh rnd k req r ?b], where f = "\<lambda>m. bind_res m (\<lambda>(w, r, b'). Inr (w, finish_reply r, b'))"]
    by (simp add: bind_res_assoc case_prod_unfold)
  have "process sh rnd k req 13 P_Begin reply b = bind_res (process sh rnd k req 4 P_Begin reply b)
      (\<lambda>(w, r, b'). process sh rnd k req 9 w r b')"
    using process_add [of sh rnd k req 4 9] by simp
  then show ?thesis
    unfolding process_validation acknowledge_request_def Let_def
    using op by (cases "validate_request sh ?b req ?r") (auto simp: bind_res_assoc case_prod_unfold finish_reply_def)
qed

text \<open>Whenever the steps get to the end, the call of the handler has that result.\<close>

lemma process_handler:
  assumes "process sh rnd k req n P_Begin reply b = Inr (P_Length, r, b')"
  shows "acknowledge_request sh rnd k req reply b = Inr (finish_reply r, b')"
proof -
  have "process sh rnd k req (n + 13) P_Begin reply b = Inr (P_Length, r, b')"
    using assms by (rule process_more)
  then have "bind_res (process sh rnd k req 13 P_Begin reply b) (\<lambda>(w, r, b). process sh rnd k req n w r b) =
      Inr (P_Length, r, b')"
    by (simp only: add.commute [of n 13] process_add)
  then obtain w1 r1 b1 where p: "process sh rnd k req 13 P_Begin reply b = Inr (w1, r1, b1)"
    "process sh rnd k req n w1 r1 b1 = Inr (P_Length, r, b')"
    by (auto simp: bind_res_eq_Inr)
  have "Inr (w1, finish_reply r1, b1) =
      bind_res (acknowledge_request sh rnd k req reply b) (\<lambda>(r, b'). Inr (P_Length, r, b'))"
    using process_alone [of sh rnd k req reply b] unfolding p(1) by simp
  then have "w1 = P_Length" "acknowledge_request sh rnd k req reply b = Inr (finish_reply r1, b1)"
    by (cases "acknowledge_request sh rnd k req reply b"; auto)+
  with p(2) show ?thesis by simp
qed

section \<open>Properties\<close>

end
