(* ===== verification/Request_Queue.thy ===== *)
theory Request_Queue
  imports Bank_Types
begin

text \<open>
  \<open>queue.c\<close>: the queue of requests as a singly linked list on the heap with a front and a
  last pointer and a counter. The heap part of a queue is the set of nodes obtained by
  \<open>push\<close>; \<open>malloc\<close> is a parameter. The interface the server relies on is the locale
  \<open>fifo\<close>; the linked list is interpreted as one, through the list of the requests met
  on the way from the front pointer.
\<close>

section \<open>The interface\<close>

text \<open>
  Operations on a bounded FIFO store that takes its memory from an allocator of type
  \<open>'m\<close>: \<open>inv\<close> is the store's invariant, \<open>items\<close> its contents, \<open>good\<close> the allocators
  that supply memory, \<open>capacity\<close> the first length that the store cannot hold.
\<close>

locale fifo =
  fixes inv :: "'q \<Rightarrow> bool"
    and items :: "'q \<Rightarrow> 'a list"
    and good :: "'m \<Rightarrow> bool"
    and capacity :: nat
    and new :: "'q \<Rightarrow> 'q"
    and put :: "'m \<Rightarrow> 'a \<Rightarrow> 'q \<Rightarrow> 'q res"
    and first :: "'q \<Rightarrow> 'a res"
    and remove :: "'q \<Rightarrow> 'q res"
    and is_empty :: "'q \<Rightarrow> bool"
  assumes new_inv: "inv q \<Longrightarrow> items q = [] \<Longrightarrow> inv (new q) \<and> items (new q) = []"
    and put_ok: "good m \<Longrightarrow> inv q \<Longrightarrow> Suc (length (items q)) < capacity \<Longrightarrow>
      \<exists>q'. put m x q = Inr q' \<and> inv q' \<and> items q' = items q @ [x]"
    and first_ok: "inv q \<Longrightarrow> items q \<noteq> [] \<Longrightarrow> first q = Inr (hd (items q))"
    and remove_ok: "inv q \<Longrightarrow> items q \<noteq> [] \<Longrightarrow>
      \<exists>q'. remove q = Inr q' \<and> inv q' \<and> items q' = tl (items q)"
    and first_empty: "inv q \<Longrightarrow> items q = [] \<Longrightarrow> \<not> returns (first q)"
    and remove_empty: "inv q \<Longrightarrow> items q = [] \<Longrightarrow> \<not> returns (remove q)"
    and is_empty_iff: "inv q \<Longrightarrow> is_empty q \<longleftrightarrow> items q = []"

text \<open>A client of the interface: a sequence of operations, and the same sequence on lists.\<close>

datatype 'a queue_op = Put 'a | Take

fun run_ops :: "('a \<Rightarrow> 'q \<Rightarrow> 'q res) \<Rightarrow> ('q \<Rightarrow> 'a res) \<Rightarrow> ('q \<Rightarrow> 'q res) \<Rightarrow>
    'a queue_op list \<Rightarrow> 'q \<Rightarrow> ('a list \<times> 'q) res" where
  "run_ops pt ft rm [] q = Inr ([], q)"
| "run_ops pt ft rm (Put x # ops) q = bind_res (pt x q) (\<lambda>q'. run_ops pt ft rm ops q')"
| "run_ops pt ft rm (Take # ops) q =
     bind_res (ft q) (\<lambda>x. bind_res (rm q) (\<lambda>q'.
     bind_res (run_ops pt ft rm ops q') (\<lambda>(ys, q''). Inr (x # ys, q''))))"

fun list_ops :: "'a queue_op list \<Rightarrow> 'a list \<Rightarrow> ('a list \<times> 'a list) option" where
  "list_ops [] xs = Some ([], xs)"
| "list_ops (Put x # ops) xs = list_ops ops (xs @ [x])"
| "list_ops (Take # ops) [] = None"
| "list_ops (Take # ops) (x # xs) = map_option (\<lambda>(ys, zs). (x # ys, zs)) (list_ops ops xs)"

fun puts :: "'a queue_op list \<Rightarrow> 'a list" where
  "puts [] = []"
| "puts (Put x # ops) = x # puts ops"
| "puts (Take # ops) = puts ops"

lemma list_ops_order: "list_ops ops xs = Some (ys, zs) \<Longrightarrow> ys @ zs = xs @ puts ops"
  by (induction ops xs arbitrary: ys rule: list_ops.induct) auto

context fifo
begin

lemma run_ops_refines:
  assumes "good m" and "inv q" and "length (items q) + length (puts ops) < capacity"
    and "list_ops ops (items q) = Some (ys, zs)"
  shows "\<exists>q'. run_ops (put m) first remove ops q = Inr (ys, q') \<and> inv q' \<and> items q' = zs"
  using assms(2-4)
proof (induction ops arbitrary: q ys)
  case Nil
  then show ?case by simp
next
  case (Cons p ops)
  show ?case
  proof (cases p)
    case (Put x)
    with Cons.prems obtain q' where q': "put m x q = Inr q'" "inv q'" "items q' = items q @ [x]"
      using put_ok [OF assms(1), of q x] by auto
    have "\<exists>q''. run_ops (put m) first remove ops q' = Inr (ys, q'') \<and> inv q'' \<and> items q'' = zs"
      by (rule Cons.IH) (use Cons.prems Put q' in auto)
    then show ?thesis using Put q' by simp
  next
    case Take
    then obtain x xs ys' where x: "items q = x # xs" "ys = x # ys'" "list_ops ops xs = Some (ys', zs)"
      using Cons.prems(3) by (cases "items q") auto
    with Cons.prems obtain q' where q': "remove q = Inr q'" "inv q'" "items q' = xs"
      using remove_ok [of q] by auto
    have "\<exists>q''. run_ops (put m) first remove ops q' = Inr (ys', q'') \<and> inv q'' \<and> items q'' = zs"
      by (rule Cons.IH) (use Cons.prems Take x q' in auto)
    then show ?thesis using Take x q' first_ok [OF Cons.prems(1)] by auto
  qed
qed

text \<open>First in, first out: what was taken and what is left are the puts, in their order.\<close>

lemma first_in_first_out:
  assumes "good m" and "inv q" and "length (items q) + length (puts ops) < capacity"
    and "list_ops ops (items q) = Some (ys, zs)"
  shows "\<exists>q'. run_ops (put m) first remove ops q = Inr (ys, q') \<and> inv q' \<and>
    ys @ items q' = items q @ puts ops"
  using run_ops_refines [OF assms] list_ops_order [OF assms(4)] by auto

lemma take_from_empty:
  "inv q \<Longrightarrow> items q = [] \<Longrightarrow> \<not> returns (run_ops (put m) first remove (Take # ops) q)"
  using first_empty [of q] by (cases "first q") auto

end

section \<open>The linked list\<close>

type_synonym addr = nat

record node =
  node_req :: tlv_request
  node_next :: "addr option"

type_synonym heap = "addr \<rightharpoonup> node"

record queue =
  q_front :: "addr option"
  q_last :: "addr option"
  q_size :: u32
  q_heap :: heap

text \<open>Reading through a pointer.\<close>

definition load :: "heap \<Rightarrow> addr option \<Rightarrow> node res" where
  "load h p = (case p of None \<Rightarrow> Inl (Undefined NullDeref)
     | Some a \<Rightarrow> (case h a of None \<Rightarrow> Inl (Undefined Dangling) | Some n \<Rightarrow> Inr n))"

definition init :: "queue \<Rightarrow> queue" where
  "init q = q\<lparr>q_front := None, q_last := None, q_size := 0\<rparr>"

definition front :: "queue \<Rightarrow> tlv_request res" where
  "front q = bind_res (load (q_heap q) (q_front q)) (\<lambda>n. Inr (node_req n))"

definition pop :: "queue \<Rightarrow> queue res" where
  "pop q =
     (let q1 = q\<lparr>q_size := q_size q - 1\<rparr>; tmp = q_front q1
      in bind_res (load (q_heap q1) (q_front q1)) (\<lambda>n.
           Inr (q1\<lparr>q_front := node_next n, q_heap := (q_heap q1)(the tmp := None)\<rparr>)))"

text \<open>
  The result of \<open>malloc\<close> is used unchecked: a null pointer is dereferenced by the next
  assignment.
\<close>

definition push :: "(heap \<Rightarrow> addr option) \<Rightarrow> tlv_request \<Rightarrow> queue \<Rightarrow> queue res" where
  "push malloc req q =
     (let q1 = q\<lparr>q_size := q_size q + 1\<rparr>; h = q_heap q1
      in if q_front q1 = None then
           (case malloc h of
              None \<Rightarrow> Inl (Undefined NullDeref)
            | Some a \<Rightarrow>
                Inr (q1\<lparr>q_heap := h(a \<mapsto> \<lparr>node_req = req, node_next = None\<rparr>),
                        q_front := Some a, q_last := Some a\<rparr>))
         else
           bind_res (load h (q_last q1)) (\<lambda>l.
           (case malloc h of
              None \<Rightarrow> Inl (Undefined NullDeref)
            | Some a \<Rightarrow>
                Inr (q1\<lparr>q_heap := h(the (q_last q1) \<mapsto> l\<lparr>node_next := Some a\<rparr>,
                                     a \<mapsto> \<lparr>node_req = req, node_next = None\<rparr>),
                        q_last := Some a\<rparr>))))"

definition empty :: "queue \<Rightarrow> bool" where
  "empty q \<longleftrightarrow> q_size q = 0"

section \<open>Representation\<close>

text \<open>The nodes \<open>as\<close> are linked from \<open>p\<close> to the null pointer and hold the requests \<open>xs\<close>.\<close>

fun path :: "heap \<Rightarrow> addr option \<Rightarrow> addr list \<Rightarrow> tlv_request list \<Rightarrow> bool" where
  "path h p [] [] \<longleftrightarrow> p = None"
| "path h p (a # as) (x # xs) \<longleftrightarrow>
     p = Some a \<and> (case h a of None \<Rightarrow> False | Some n \<Rightarrow> node_req n = x \<and> path h (node_next n) as xs)"
| "path h p _ _ \<longleftrightarrow> False"

definition queue_repr :: "queue \<Rightarrow> addr list \<Rightarrow> tlv_request list \<Rightarrow> bool" where
  "queue_repr q as xs \<longleftrightarrow>
     path (q_heap q) (q_front q) as xs \<and> distinct as \<and> dom (q_heap q) = set as \<and>
     (as \<noteq> [] \<longrightarrow> q_last q = Some (last as)) \<and>
     q_size q = of_nat (length as) \<and> length as < 2 ^ 32"

text \<open>The contents, read off the heap by following as many links as the counter says.\<close>

fun walk :: "heap \<Rightarrow> nat \<Rightarrow> addr option \<Rightarrow> tlv_request list" where
  "walk h 0 p = []"
| "walk h (Suc n) p =
     (case p of None \<Rightarrow> [] | Some a \<Rightarrow>
        (case h a of None \<Rightarrow> [] | Some m \<Rightarrow> node_req m # walk h n (node_next m)))"

definition queue_list :: "queue \<Rightarrow> tlv_request list" where
  "queue_list q = walk (q_heap q) (unat (q_size q)) (q_front q)"

definition queue_inv :: "queue \<Rightarrow> bool" where
  "queue_inv q \<longleftrightarrow> (\<exists>as. queue_repr q as (queue_list q))"

text \<open>\<open>malloc\<close> with memory left: the address of a fresh object.\<close>

definition supplies :: "(heap \<Rightarrow> addr option) \<Rightarrow> bool" where
  "supplies malloc \<longleftrightarrow> (\<forall>h. finite (dom h) \<longrightarrow> (\<exists>a. malloc h = Some a \<and> h a = None))"

lemma path_Nil_iff [simp]: "path h p [] xs \<longleftrightarrow> p = None \<and> xs = []"
  by (cases xs) auto

lemma path_None_iff [simp]: "path h None as xs \<longleftrightarrow> as = [] \<and> xs = []"
  by (cases as; cases xs) auto

lemma path_Cons_iff:
  "path h p (a # as) ys \<longleftrightarrow> p = Some a \<and>
     (\<exists>n xs. h a = Some n \<and> ys = node_req n # xs \<and> path h (node_next n) as xs)"
  by (cases ys) (auto split: option.splits)

lemma path_length: "path h p as xs \<Longrightarrow> length as = length xs"
  by (induction as arbitrary: p xs) (auto simp: path_Cons_iff)

lemma path_upd_other: "a \<notin> set as \<Longrightarrow> path (h(a := v)) p as xs \<longleftrightarrow> path h p as xs"
  by (induction as arbitrary: p xs) (auto simp: path_Cons_iff)

lemma path_last_node: "path h p as xs \<Longrightarrow> as \<noteq> [] \<Longrightarrow> \<exists>l. h (last as) = Some l"
  by (induction as arbitrary: p xs) (auto simp: path_Cons_iff)

lemma walk_path: "path h p as xs \<Longrightarrow> walk h (length as) p = xs"
  by (induction as arbitrary: p xs) (auto simp: path_Cons_iff)

text \<open>Appending a node: the last node is linked to a fresh one.\<close>

lemma path_snoc:
  assumes "path h p as xs" and "as \<noteq> []" and "distinct as" and "a \<notin> set as"
    and "h (last as) = Some l"
  shows "path (h(last as \<mapsto> l\<lparr>node_next := Some a\<rparr>, a \<mapsto> \<lparr>node_req = x, node_next = None\<rparr>))
    p (as @ [a]) (xs @ [x])"
  using assms
proof (induction as arbitrary: p xs)
  case Nil
  then show ?case by simp
next
  case (Cons b as)
  from Cons.prems(1) obtain n ys where n: "p = Some b" "h b = Some n" "xs = node_req n # ys"
    and ys: "path h (node_next n) as ys"
    by (auto simp: path_Cons_iff)
  show ?case
  proof (cases "as = []")
    case True
    with n ys Cons.prems show ?thesis by (auto simp: path_Cons_iff)
  next
    case False
    moreover have "b \<noteq> last as" "b \<noteq> a" using Cons.prems False by auto
    ultimately show ?thesis
      using Cons.IH [OF ys False] Cons.prems n by (simp add: path_Cons_iff)
  qed
qed

lemma queue_repr_list: "queue_repr q as xs \<Longrightarrow> queue_list q = xs"
  by (auto simp: queue_repr_def queue_list_def unat_of_nat_u32 dest: walk_path)

lemma queue_reprI: "queue_repr q as xs \<Longrightarrow> queue_inv q \<and> queue_list q = xs"
  using queue_repr_list [of q as xs] by (auto simp: queue_inv_def)

lemma queue_invE:
  assumes "queue_inv q"
  obtains as where "queue_repr q as (queue_list q)"
  using assms by (auto simp: queue_inv_def)

lemma queue_repr_front_None: "queue_repr q as xs \<Longrightarrow> q_front q = None \<longleftrightarrow> as = []"
  by (cases as) (auto simp: queue_repr_def path_Cons_iff)

section \<open>The operations on represented queues\<close>

lemma init_repr: "dom (q_heap q) = {} \<Longrightarrow> queue_repr (init q) [] []"
  by (simp add: queue_repr_def init_def)

lemma push_repr:
  assumes "supplies malloc" and "queue_repr q as xs" and "Suc (length xs) < 2 ^ 32"
  shows "\<exists>q' a. push malloc x q = Inr q' \<and> queue_repr q' (as @ [a]) (xs @ [x])"
proof -
  have r: "path (q_heap q) (q_front q) as xs" "distinct as" "dom (q_heap q) = set as"
    "as \<noteq> [] \<longrightarrow> q_last q = Some (last as)" "q_size q = of_nat (length as)"
    using assms(2) by (auto simp: queue_repr_def)
  have len: "length as = length xs" using r(1) by (rule path_length)
  obtain a where a: "malloc (q_heap q) = Some a" "q_heap q a = None"
    using assms(1) r(3) unfolding supplies_def by (metis List.finite_set)
  have fresh: "a \<notin> set as" using a(2) r(3) by (metis domIff)
  show ?thesis
  proof (cases "as = []")
    case True
    then have "q_front q = None" using r(1) by simp
    then show ?thesis using True r a len
      by (auto simp: push_def queue_repr_def path_Cons_iff Let_def)
  next
    case False
    obtain l where l: "q_heap q (last as) = Some l" using path_last_node r(1) False by blast
    have "q_front q \<noteq> None" using r(1) False by (cases as) (auto simp: path_Cons_iff)
    moreover have "load (q_heap q) (q_last q) = Inr l" using r(4) False l by (simp add: load_def)
    ultimately show ?thesis
      using False r a l len fresh assms(3) path_snoc [OF r(1) False r(2) fresh l, of x]
      by (auto simp: push_def queue_repr_def Let_def insert_absorb)
  qed
qed

lemma pop_repr:
  assumes "queue_repr q (a # as) (x # xs)"
  shows "\<exists>q'. pop q = Inr q' \<and> queue_repr q' as xs"
proof -
  obtain n where n: "q_front q = Some a" "q_heap q a = Some n" "node_req n = x"
    "path (q_heap q) (node_next n) as xs" and d: "a \<notin> set as" "distinct as"
    "dom (q_heap q) = insert a (set as)" "as \<noteq> [] \<longrightarrow> q_last q = Some (last as)"
    "q_size q = of_nat (length as) + 1" "length as < 2 ^ 32"
    using assms by (auto simp: queue_repr_def path_Cons_iff add.commute)
  have "pop q = Inr (q\<lparr>q_size := of_nat (length as), q_front := node_next n,
      q_heap := (q_heap q)(a := None)\<rparr>)"
    using n d by (simp add: pop_def load_def Let_def)
  moreover have "dom ((q_heap q)(a := None)) = set as" using d by auto
  ultimately show ?thesis using n d by (simp add: queue_repr_def path_upd_other)
qed

lemma front_repr: "queue_repr q as (x # xs) \<Longrightarrow> front q = Inr x"
  by (cases as) (auto simp: queue_repr_def path_Cons_iff front_def load_def)

lemma empty_repr: "queue_repr q as xs \<Longrightarrow> empty q \<longleftrightarrow> xs = []"
proof -
  assume r: "queue_repr q as xs"
  then have "length as = length xs" "length as < 2 ^ 32" "q_size q = of_nat (length as)"
    by (auto simp: queue_repr_def dest: path_length)
  then show ?thesis by (simp add: empty_def of_nat_u32_eq_0)
qed

lemma empty_queue_faults:
  "queue_repr q as [] \<Longrightarrow> front q = Inl (Undefined NullDeref) \<and> pop q = Inl (Undefined NullDeref)"
proof -
  assume "queue_repr q as []"
  then have "q_front q = None" by (cases as) (auto simp: queue_repr_def path_Cons_iff)
  then show ?thesis by (simp add: front_def pop_def load_def Let_def)
qed

section \<open>The linked list is a FIFO store\<close>

lemma queue_inv_nonempty:
  assumes "queue_inv q" and "queue_list q \<noteq> []"
  obtains a as x xs where "queue_repr q (a # as) (x # xs)" and "queue_list q = x # xs"
proof -
  obtain as where r: "queue_repr q as (queue_list q)" using assms(1) by (rule queue_invE)
  then have "length as = length (queue_list q)" by (auto simp: queue_repr_def dest: path_length)
  with r assms(2) that show thesis by (cases as; cases "queue_list q") auto
qed

lemma queue_inv_nodes: "queue_inv q \<Longrightarrow> queue_list q = [] \<Longrightarrow> dom (q_heap q) = {}"
  by (auto simp: queue_inv_def queue_repr_def dest: path_length)

interpretation rq: fifo queue_inv queue_list supplies "2 ^ 32" init push front pop empty
proof (unfold_locales, goal_cases)
  case (1 q)
  then show ?case using queue_reprI [OF init_repr] queue_inv_nodes by blast
next
  case (2 malloc q x)
  obtain as where "queue_repr q as (queue_list q)" using 2(2) by (rule queue_invE)
  then show ?case using push_repr [OF 2(1) _ 2(3), where as = as and x = x] queue_reprI by blast
next
  case (3 q)
  then show ?case by (elim queue_inv_nonempty) (auto dest: front_repr)
next
  case (4 q)
  then obtain a as x xs where r: "queue_repr q (a # as) (x # xs)" and l: "queue_list q = x # xs"
    by (rule queue_inv_nonempty)
  obtain q' where "pop q = Inr q'" "queue_repr q' as xs" using pop_repr [OF r] by blast
  then show ?case using l queue_reprI by auto
next
  case (5 q)
  then show ?case by (metis empty_queue_faults queue_invE returns_simps(1))
next
  case (6 q)
  then show ?case by (metis empty_queue_faults queue_invE returns_simps(1))
next
  case (7 q)
  then show ?case by (metis empty_repr queue_invE)
qed

text \<open>The global \<open>request_queue\<close>: static storage, zeroed before \<open>init\<close>.\<close>

definition static_queue :: queue where
  "static_queue = \<lparr>q_front = None, q_last = None, q_size = 0, q_heap = Map.empty\<rparr>"

lemma static_queue_init [simp]: "init static_queue = static_queue"
  by (simp add: init_def static_queue_def)

lemma static_queue_inv [simp]: "queue_inv static_queue" "queue_list static_queue = []"
  using queue_reprI [OF init_repr [of static_queue]] by (simp_all add: static_queue_def init_def)

text \<open>A concrete allocator for evaluation: the first free address among the given ones.\<close>

definition first_free :: "addr list \<Rightarrow> heap \<Rightarrow> addr option" where
  "first_free as h = find (\<lambda>a. h a = None) as"

section \<open>Properties\<close>

text \<open>
  An allocator for evaluation: the first address after all that are in use.
\<close>

definition next_address :: "heap \<Rightarrow> addr option" where
  "next_address h = (if finite (dom h) then Some (Suc (Max (insert 0 (dom h)))) else None)"

lemma next_address_supplies: "supplies next_address"
  unfolding supplies_def
proof (intro allI impI)
  fix h :: heap assume "finite (dom h)"
  then have "Suc (Max (insert 0 (dom h))) \<notin> dom h"
    by (meson Max_ge Suc_n_not_le_n finite_insert insertI2)
  then show "\<exists>a. next_address h = Some a \<and> h a = None"
    using \<open>finite (dom h)\<close> by (auto simp: next_address_def)
qed

text \<open>
  C35: The linked list of queue.c is a first-in first-out queue. As long as malloc supplies
  memory, fewer than 2^32 elements are pushed and no front/pop is tried on an empty queue,
  every sequence of push and front-then-pop runs without a fault, returns exactly the
  requests the same sequence returns on a list, leaves the well-formed list of the others,
  and what was taken followed by what is left is the order of arrival.
\<close>

theorem queue_first_in_first_out:
  assumes "supplies malloc" and "queue_inv q"
    and "length (queue_list q) + length (puts ops) < 2 ^ 32"
    and "list_ops ops (queue_list q) = Some (ys, zs)"
  shows "\<exists>q'. run_ops (push malloc) front pop ops q = Inr (ys, q') \<and> queue_inv q' \<and>
    queue_list q' = zs \<and> ys @ zs = queue_list q @ puts ops"
  using rq.run_ops_refines [OF assms] list_ops_order [OF assms(4)] by auto

theorem queue_first_in_first_out_witness:
  "\<exists>q'. run_ops (push next_address) front pop
      [Put (balance_request 1), Put (balance_request 2), Take, Put (balance_request 3), Take] (init static_queue) =
      Inr ([balance_request 1, balance_request 2], q') \<and> queue_inv q' \<and>
    queue_list q' = [balance_request 3]"
  using queue_first_in_first_out [OF next_address_supplies, of "init static_queue"
      "[Put (balance_request 1), Put (balance_request 2), Take, Put (balance_request 3), Take]"
      "[balance_request 1, balance_request 2]" "[balance_request 3]"]
  by auto

text \<open>
  queue.c has no checks of its own: on an empty queue front and pop dereference a null
  pointer, and push dereferences one when malloc fails. On a well-formed queue these are
  the only faults: front and pop return exactly when the queue is not empty.
\<close>

theorem queue_faults:
  assumes "queue_inv q"
  shows "(front q = Inl (Undefined NullDeref) \<longleftrightarrow> queue_list q = []) \<and>
    (pop q = Inl (Undefined NullDeref) \<longleftrightarrow> queue_list q = []) \<and>
    (returns (front q) \<longleftrightarrow> \<not> empty q) \<and> (returns (pop q) \<longleftrightarrow> \<not> empty q) \<and>
    (\<forall>malloc x. malloc (q_heap q) = None \<longrightarrow> push malloc x q = Inl (Undefined NullDeref))"
proof (cases "queue_list q = []")
  case True
  then obtain as where r: "queue_repr q as []" using assms by (metis queue_invE)
  have "as = []" using r by (auto simp: queue_repr_def dest: path_length)
  then have "q_front q = None" using r by (simp add: queue_repr_front_None)
  then show ?thesis
    using True empty_queue_faults [OF r] rq.is_empty_iff [OF assms] by (auto simp: push_def Let_def)
next
  case False
  obtain a as x xs where r: "queue_repr q (a # as) (x # xs)" using assms False by (rule queue_inv_nonempty)
  then have front: "q_front q \<noteq> None" by (simp add: queue_repr_front_None)
  have "path (q_heap q) (q_front q) (a # as) (x # xs)" "q_last q = Some (last (a # as))"
    using r by (auto simp: queue_repr_def)
  then obtain l where "load (q_heap q) (q_last q) = Inr l"
    using path_last_node [of "q_heap q" "q_front q" "a # as" "x # xs"] by (auto simp: load_def)
  then have "\<forall>malloc y. malloc (q_heap q) = None \<longrightarrow> push malloc y q = Inl (Undefined NullDeref)"
    using front by (auto simp: push_def Let_def)
  then show ?thesis
    using False rq.first_ok [OF assms] rq.remove_ok [OF assms] rq.is_empty_iff [OF assms] by auto
qed

theorem queue_faults_witness:
  "front static_queue = Inl (Undefined NullDeref) \<and> pop static_queue = Inl (Undefined NullDeref) \<and>
    push (\<lambda>_. None) (balance_request 1) static_queue = Inl (Undefined NullDeref)"
  using queue_faults [OF static_queue_inv(1)] static_queue_inv(2) by (auto simp: static_queue_def)

end
