(* ===== verification/Fifos.thy ===== *)
theory Fifos
  imports Bank_Types
begin

text \<open>
  The named pipes: the path of a user's reply FIFO, computed by the server
  (\<open>user_fifo_create\<close>) and by the client (\<open>get_user_fifo_path\<close>), and the creation of FIFOs
  with their retry. The file system is the list of existing paths; what the system calls
  may refuse is a parameter.
\<close>

section \<open>System calls\<close>

record fs_env =
  creatable :: "string \<Rightarrow> bool"
  removable :: "string \<Rightarrow> bool"
  openable :: "string \<Rightarrow> bool"

text \<open>\<open>mkfifo\<close> fails on an existing path; the flag of the result is its nonzero return value.\<close>

definition mkfifo :: "fs_env \<Rightarrow> string \<Rightarrow> string list \<Rightarrow> bool \<times> string list" where
  "mkfifo env p fs = (if p \<in> set fs \<or> \<not> creatable env p then (True, fs) else (False, p # fs))"

definition unlink :: "fs_env \<Rightarrow> string \<Rightarrow> string list \<Rightarrow> string list" where
  "unlink env p fs = (if removable env p then filter (\<lambda>q. q \<noteq> p) fs else fs)"

text \<open>The common shape of both creations: create, or delete and try again; then open.\<close>

definition make_and_open :: "fs_env \<Rightarrow> int \<Rightarrow> string \<Rightarrow> string list \<Rightarrow> string list res" where
  "make_and_open env status p fs =
     (let (failed, fs) = mkfifo env p fs;
          (failed, fs) = (if failed then mkfifo env p (unlink env p fs) else (False, fs))
      in if failed then Inl (Exit status)
         else if \<not> openable env p then Inl (Exit status)
         else Inr fs)"

section \<open>Paths\<close>

definition user_fifo_path :: "int \<Rightarrow> string res" where
  "user_fifo_path pid =
     bind_res (strcpy USER_FIFO_PATH_LEN USER_FIFO_PATH_PREFIX) (\<lambda>path.
     bind_res (strcpy (WIDTH_ID + 1) (show_int pid)) (\<lambda>suffix.
     strcat USER_FIFO_PATH_LEN path suffix))"

definition get_user_fifo_path :: "int \<Rightarrow> string res" where
  "get_user_fifo_path getpid =
     bind_res (strcpy USER_FIFO_PATH_LEN USER_FIFO_PATH_PREFIX) (\<lambda>path.
     bind_res (strcpy (WIDTH_ID + 1) (show_int getpid)) (\<lambda>suffix.
     strcat USER_FIFO_PATH_LEN path suffix))"

definition server_fifo_create :: "fs_env \<Rightarrow> string list \<Rightarrow> string list res" where
  "server_fifo_create env fs = make_and_open env (- 1) SERVER_FIFO_PATH fs"

definition user_fifo_create :: "fs_env \<Rightarrow> int \<Rightarrow> string list \<Rightarrow> (string \<times> string list) res" where
  "user_fifo_create env pid fs =
     bind_res (user_fifo_path pid) (\<lambda>path.
     bind_res (make_and_open env (- 2) path fs) (\<lambda>fs. Inr (path, fs)))"

section \<open>Properties of paths\<close>

lemma length_show_int: "0 \<le> pid \<Longrightarrow> length (show_int pid) \<le> 5 \<longleftrightarrow> pid < 100000"
  using length_dec_le_iff [of "nat pid" 4] by (auto simp: show_int_def)

lemma path_length_constants:
  "length USER_FIFO_PATH_PREFIX = 12" "USER_FIFO_PATH_LEN = 19" "WIDTH_ID = 5"
  by (simp_all add: USER_FIFO_PATH_PREFIX_def USER_FIFO_PATH_LEN_def WIDTH_ID_def)

lemma user_fifo_path_eq:
  assumes "0 \<le> pid"
  shows "user_fifo_path pid =
    (if pid < 100000 then Inr (USER_FIFO_PATH_PREFIX @ show_int pid) else Inl (Undefined BufferOverflow))"
  using length_show_int [OF assms]
  by (auto simp: user_fifo_path_def path_length_constants strcpy_def strcat_def)

lemma show_int_inj: "0 \<le> a \<Longrightarrow> 0 \<le> b \<Longrightarrow> show_int a = show_int b \<longleftrightarrow> a = b"
  by (auto simp: show_int_def dec_inj)

text \<open>A user's path is never the server's: the server's does not end in a digit.\<close>

lemma user_path_not_server: "0 \<le> pid \<Longrightarrow> USER_FIFO_PATH_PREFIX @ show_int pid \<noteq> SERVER_FIFO_PATH"
proof
  assume "0 \<le> pid" "USER_FIFO_PATH_PREFIX @ show_int pid = SERVER_FIFO_PATH"
  then have "dec (nat pid) = ''srv''"
    by (simp add: USER_FIFO_PATH_PREFIX_def SERVER_FIFO_PATH_def show_int_def)
  then have "is_digit CHR ''s''" using dec_all_digits [of "nat pid"] by simp
  then show False by (simp add: is_digit_def)
qed

section \<open>Properties of creation\<close>

lemma make_and_open_ok:
  assumes "creatable env p" and "removable env p" and "openable env p"
  shows "\<exists>fs'. make_and_open env st p fs = Inr fs' \<and> set fs' = insert p (set fs)"
  using assms by (auto simp: make_and_open_def mkfifo_def unlink_def)

lemma make_and_open_Inr:
  "make_and_open env st p fs = Inr fs' \<Longrightarrow> p \<in> set fs' \<and> set fs' = insert p (set fs)"
  by (auto simp: make_and_open_def mkfifo_def unlink_def split: if_splits)

lemma make_and_open_Inl:
  "make_and_open env st p fs = Inl e \<Longrightarrow> e = Exit st"
  by (auto simp: make_and_open_def mkfifo_def unlink_def split: if_splits)

text \<open>A file system that refuses nothing: the FIFO of every process id that fits its buffer is made.\<close>

lemma user_fifo_ok:
  assumes "0 \<le> pid" "pid < 100000" and "fe = \<lparr>creatable = \<lambda>_. True, removable = \<lambda>_. True, openable = \<lambda>_. True\<rparr>"
  shows "\<exists>p fs'. user_fifo_create fe pid fs = Inr (p, fs')"
  using user_fifo_path_eq [OF assms(1)] assms(2,3)
    make_and_open_ok [of fe "USER_FIFO_PATH_PREFIX @ show_int pid" "- 2" fs]
  by (auto simp: user_fifo_create_def)

section \<open>Properties\<close>

text \<open>
  C40: Client and server meet in the same FIFO. For every process id from 0 to 99999 the
  client's get_user_fifo_path and the server's user_fifo_create compute the same path of at
  most 17 characters, distinct for distinct processes and never the server's own; from
  100000 on both overflow their 6-byte buffer for the id.
\<close>

theorem fifo_paths_agree:
  assumes "0 \<le> pid"
  shows "get_user_fifo_path pid = user_fifo_path pid \<and>
    (pid < 100000 \<longrightarrow> (\<exists>path. user_fifo_path pid = Inr path \<and> length path \<le> 17 \<and> path \<noteq> SERVER_FIFO_PATH \<and>
       (\<forall>pid'. 0 \<le> pid' \<and> user_fifo_path pid' = Inr path \<longrightarrow> pid' = pid))) \<and>
    (100000 \<le> pid \<longrightarrow> user_fifo_path pid = Inl (Undefined BufferOverflow))"
proof -
  have inj: "pid' = pid" if "0 \<le> pid'" "user_fifo_path pid' = user_fifo_path pid" "pid < 100000" for pid'
    using that assms user_fifo_path_eq [OF assms] user_fifo_path_eq [OF that(1)]
    by (auto simp: show_int_inj split: if_splits)
  have "get_user_fifo_path pid = user_fifo_path pid"
    by (simp add: get_user_fifo_path_def user_fifo_path_def)
  moreover have "\<exists>path. user_fifo_path pid = Inr path \<and> length path \<le> 17 \<and> path \<noteq> SERVER_FIFO_PATH \<and>
      (\<forall>pid'. 0 \<le> pid' \<and> user_fifo_path pid' = Inr path \<longrightarrow> pid' = pid)" if "pid < 100000"
    using that inj user_fifo_path_eq [OF assms] length_show_int [OF assms] user_path_not_server [OF assms]
    by (auto simp: path_length_constants)
  ultimately show ?thesis using user_fifo_path_eq [OF assms] by simp
qed

theorem fifo_paths_agree_witness:
  "get_user_fifo_path 4242 = user_fifo_path 4242 \<and> user_fifo_path 4194304 = Inl (Undefined BufferOverflow)"
  using fifo_paths_agree [of 4242] fifo_paths_agree [of 4194304] by simp

text \<open>
  A stale FIFO does not stop the server or an office. If its path can be created,
  removed and opened, the creation of the server's FIFO succeeds whether or not the path
  existed, and afterwards the path exists together with all the others, unchanged; on a
  failure the process exits with status -1 for the server's and -2 for a user's FIFO.
\<close>

theorem stale_fifo_is_replaced:
  assumes "creatable env SERVER_FIFO_PATH" and "removable env SERVER_FIFO_PATH" and "openable env SERVER_FIFO_PATH"
  shows "(\<exists>fs'. server_fifo_create env fs = Inr fs' \<and> set fs' = insert SERVER_FIFO_PATH (set fs)) \<and>
    (\<forall>env' e. server_fifo_create env' fs = Inl e \<longrightarrow> e = Exit (- 1)) \<and>
    (\<forall>env' pid e. 0 \<le> pid \<and> pid < 100000 \<longrightarrow> user_fifo_create env' pid fs = Inl e \<longrightarrow> e = Exit (- 2))"
proof -
  have "e = Exit (- 2)" if "0 \<le> pid \<and> pid < 100000" "user_fifo_create env' pid fs = Inl e" for env' pid e
    using that user_fifo_path_eq [of pid] make_and_open_Inl [of env' "- 2"]
    by (auto simp: user_fifo_create_def bind_res_eq_Inl)
  then show ?thesis
    using make_and_open_ok [OF assms, of "- 1" fs] make_and_open_Inl by (auto simp: server_fifo_create_def)
qed

theorem stale_fifo_is_replaced_witness:
  "\<exists>fs'. server_fifo_create \<lparr>creatable = \<lambda>_. True, removable = \<lambda>_. True, openable = \<lambda>_. True\<rparr>
      [SERVER_FIFO_PATH, ''/tmp/other''] = Inr fs' \<and> ''/tmp/other'' \<in> set fs'"
  using stale_fifo_is_replaced [of "\<lparr>creatable = \<lambda>_. True, removable = \<lambda>_. True, openable = \<lambda>_. True\<rparr>"
      "[SERVER_FIFO_PATH, ''/tmp/other'']"]
  by auto

end
