(* ===== verification/Offices.thy ===== *)
theory Offices
  imports Processing Request_Queue Fifos
begin

text \<open>
  The threads of \<open>server.c\<close>: the main thread, which receives requests and queues them, and
  the bank offices, which take them from the queue and answer. Each thread is a program
  counter over the statements of \<open>main\<close> and \<open>thread_work\<close>; a step of the system is one
  statement of one thread, the arrival of a request, or a wake-up of the condition
  variable. Threads are numbered: 0 is the main thread, \<open>1 \<dots> num_threads\<close> the offices.

  A step is atomic. The increments of \<open>num_active_threads\<close> are one step each because
  \<open>counter_mut\<close> is held around them. \<open>acknowledge_request\<close> runs without a lock: at \<open>O_Ack\<close>
  an office makes one access to the accounts per step (theory \<open>Processing\<close>), and those of
  other offices may come in between.
\<close>

section \<open>State\<close>

text \<open>
  The position of an office in \<open>thread_work\<close>, named by what it does next. \<open>O_Blocked\<close> and
  \<open>O_Woken\<close> are inside \<open>pthread_cond_wait\<close>: asleep, and awake but without the mutex.
\<close>

datatype office_pc =
    O_Start | O_Top | O_Lock | O_Unlock | O_Empty | O_Shut | O_Wait | O_Blocked | O_Woken
  | O_Second | O_Front | O_Count | O_Pop | O_Release | O_Ack | O_Fifo | O_Write | O_Uncount
  | O_Close | O_Done

datatype main_pc =
    M_Read | M_Lock tlv_request | M_Push tlv_request | M_Signal tlv_request | M_Unlock tlv_request
  | M_Shutdown tlv_request | M_Refuse tlv_request tlv_reply | M_Broadcast tlv_request tlv_reply
  | M_Answer tlv_request tlv_reply | M_Join nat | M_Close | M_Exit

text \<open>The local variables of an office, and where it is in \<open>acknowledge_request\<close>.\<close>

record office =
  opc :: office_pc
  next_request :: tlv_request
  office_reply :: tlv_reply
  progress :: processing

text \<open>
  The globals of the server, its threads, and what it has written to the reply FIFOs. The
  last four fields are history: the requests pushed, popped, and answered, and the
  requests acknowledged with their replies. \<open>misused\<close> records an unlock of the mutex by a
  thread that does not hold it.
\<close>

record server =
  bank :: bank
  request_queue :: queue
  queue_mut :: "nat option"
  shutdown :: bool
  shutdown_req_pid :: u32
  num_threads :: int
  num_active_threads :: int
  read_only_fifo :: bool
  fifos :: "string list"
  offices :: "nat \<Rightarrow> office"
  main_thread :: main_pc
  sent :: "(u32 \<times> tlv_reply) list"
  crashed :: "stop option"
  misused :: bool
  pushed :: "tlv_request list"
  popped :: "tlv_request list"
  answered :: "tlv_request list"
  acknowledged :: "(tlv_request \<times> tlv_reply) list"

text \<open>
  What the server is linked with: whether the log file can be opened, the shell, \<open>rand\<close>, \<open>malloc\<close> and the file system, the
  result of \<open>getpid\<close>, the POSIX ids of the offices' threads, and the initial contents of
  the uninitialised local variables.
\<close>

record server_env =
  env_log :: bool
  env_sh :: shell
  env_rnd :: "nat \<Rightarrow> nat"
  env_malloc :: "heap \<Rightarrow> addr option"
  env_fs :: fs_env
  env_pid :: int
  env_tid :: "nat \<Rightarrow> nat"
  env_request :: tlv_request
  env_reply :: tlv_reply

section \<open>Statements\<close>

definition goto :: "nat \<Rightarrow> office_pc \<Rightarrow> server \<Rightarrow> server" where
  "goto i p s = s\<lparr>offices := (offices s)(i := (offices s i)\<lparr>opc := p\<rparr>)\<rparr>"

definition main_goto :: "main_pc \<Rightarrow> server \<Rightarrow> server" where
  "main_goto p s = s\<lparr>main_thread := p\<rparr>"

definition write_log :: "(log \<Rightarrow> int \<times> log) \<Rightarrow> server \<Rightarrow> server" where
  "write_log f s = s\<lparr>bank := (bank s)\<lparr>slog := snd (f (slog (bank s)))\<rparr>\<rparr>"

text \<open>A fault ends the process, a value is handed on.\<close>

definition attempt :: "'a res \<Rightarrow> ('a \<Rightarrow> server) \<Rightarrow> server \<Rightarrow> server" where
  "attempt m k s = (case m of Inl e \<Rightarrow> s\<lparr>crashed := Some e\<rparr> | Inr x \<Rightarrow> k x)"

text \<open>
  \<open>pthread_mutex_unlock\<close> by thread \<open>i\<close>. Unlocking a mutex of another thread is undefined in
  POSIX; with the default mutexes of glibc it releases the mutex, as here.
\<close>

definition unlock :: "nat \<Rightarrow> server \<Rightarrow> server" where
  "unlock i s = s\<lparr>queue_mut := None, misused := (misused s \<or> queue_mut s \<noteq> Some i)\<rparr>"

text \<open>
  The log of \<open>thread_work\<close> takes its id from the global array \<open>thread_id\<close>, not from the
  argument of the thread: the first 32 bits of the first thread's POSIX id.
\<close>

definition logged_id :: "server_env \<Rightarrow> int" where
  "logged_id env = sint (of_nat (env_tid env 1) :: u32)"

abbreviation log_mech :: "server_env \<Rightarrow> sync_mech_op \<Rightarrow> int \<Rightarrow> server \<Rightarrow> server" where
  "log_mech env smo sid \<equiv> write_log (logSyncMech (logged_id env) smo SYNC_ROLE_CONSUMER sid)"

abbreviation log_main :: "sync_mech_op \<Rightarrow> u32 \<Rightarrow> server \<Rightarrow> server" where
  "log_main smo sid \<equiv> write_log (logSyncMech MAIN_THREAD_ID smo SYNC_ROLE_PRODUCER (sint sid))"

definition request_sid :: "tlv_request \<Rightarrow> int" where
  "request_sid r = sint (hdr_account_id (req_hdr r))"

section \<open>An office\<close>

text \<open>One step of office \<open>i\<close>; \<open>None\<close> when it cannot move by itself.\<close>

definition office_exec :: "server_env \<Rightarrow> nat \<Rightarrow> server \<Rightarrow> server option" where
  "office_exec env i s =
     (let ofc = offices s i; r = next_request ofc; q = request_queue s in
      case opc ofc of
        O_Start \<Rightarrow> Some (goto i O_Top (write_log (logBankOfficeOpen (logged_id env) (env_tid env i)) s))
      | O_Top \<Rightarrow>
          Some (if \<not> shutdown s then goto i O_Lock (log_mech env SYNC_OP_MUTEX_LOCK (env_pid env) s)
                else goto i O_Unlock s)
      | O_Lock \<Rightarrow> (if queue_mut s = None then Some (goto i O_Empty (s\<lparr>queue_mut := Some i\<rparr>)) else None)
      | O_Unlock \<Rightarrow>
          Some (goto i O_Empty (log_mech env SYNC_OP_MUTEX_UNLOCK (sint (shutdown_req_pid s)) (unlock i s)))
      | O_Empty \<Rightarrow> Some (goto i (if empty q then O_Shut else O_Second) s)
      | O_Shut \<Rightarrow>
          Some (if shutdown s then goto i O_Close s
                else goto i O_Wait (log_mech env SYNC_OP_COND_WAIT (env_pid env) s))
      | O_Wait \<Rightarrow> Some (goto i O_Blocked (unlock i s))
      | O_Blocked \<Rightarrow> None
      | O_Woken \<Rightarrow> (if queue_mut s = None then Some (goto i O_Second (s\<lparr>queue_mut := Some i\<rparr>)) else None)
      | O_Second \<Rightarrow> Some (goto i (if \<not> empty q then O_Front else O_Top) s)
      | O_Front \<Rightarrow>
          Some (attempt (front q) (\<lambda>req.
            goto i O_Count (write_log (logSyncDelay (logged_id env) (request_sid req)
                (hdr_op_delay_ms (req_hdr req)))
              (s\<lparr>offices := (offices s)(i := ofc\<lparr>next_request := req\<rparr>)\<rparr>))) s)
      | O_Count \<Rightarrow>
          Some (goto i O_Pop (log_mech env SYNC_OP_MUTEX_UNLOCK (request_sid r)
            ((log_mech env SYNC_OP_MUTEX_LOCK (request_sid r) s)
               \<lparr>num_active_threads := num_active_threads s + 1\<rparr>)))
      | O_Pop \<Rightarrow>
          Some (attempt (pop q) (\<lambda>q'.
            goto i O_Release (s\<lparr>request_queue := q', popped := popped s @ [r]\<rparr>)) s)
      | O_Release \<Rightarrow>
          Some (goto i O_Ack ((unlock i s)\<lparr>offices := (offices s)(i := ofc\<lparr>progress := P_Begin\<rparr>)\<rparr>))
      | O_Ack \<Rightarrow>
          if progress ofc = P_Length then
            let rep = finish_reply (office_reply ofc) in
            Some (goto i O_Fifo (s\<lparr>acknowledged := acknowledged s @ [(r, rep)],
              offices := (offices s)(i := ofc\<lparr>office_reply := rep\<rparr>)\<rparr>))
          else
            Some (attempt (process_exec (env_sh env) (env_rnd env) (int i) r (progress ofc) (office_reply ofc) (bank s))
              (\<lambda>(w, rep, b). s\<lparr>bank := b,
                 offices := (offices s)(i := ofc\<lparr>office_reply := rep, progress := w\<rparr>)\<rparr>) s)
      | O_Fifo \<Rightarrow>
          Some (attempt (user_fifo_create (env_fs env) (sint (hdr_pid (req_hdr r))) (fifos s))
            (\<lambda>(path, fs). goto i O_Write (s\<lparr>fifos := fs\<rparr>)) s)
      | O_Write \<Rightarrow>
          Some (goto i O_Uncount
            (s\<lparr>sent := sent s @ [(hdr_pid (req_hdr r), office_reply ofc)], answered := answered s @ [r]\<rparr>))
      | O_Uncount \<Rightarrow>
          Some (goto i O_Top (log_mech env SYNC_OP_MUTEX_UNLOCK (request_sid r)
            ((log_mech env SYNC_OP_MUTEX_LOCK (request_sid r) s)
               \<lparr>num_active_threads := num_active_threads s - 1\<rparr>)))
      | O_Close \<Rightarrow> Some (goto i O_Done (write_log (logBankOfficeClose (int i) (env_tid env i)) s))
      | O_Done \<Rightarrow> None)"

section \<open>The main thread\<close>

text \<open>\<open>shutdown_server\<close>: the request FIFO becomes read-only, the flag is set, the count is reported.\<close>

definition shutdown_server :: "rep_value \<Rightarrow> server \<Rightarrow> rep_value \<times> server" where
  "shutdown_server rv s =
     (rv\<lparr>rep_word := of_int (num_active_threads s)\<rparr>, s\<lparr>read_only_fifo := True, shutdown := True\<rparr>)"

text \<open>The end of both branches for a shutdown request: type, length, FIFO and \<open>write\<close>.\<close>

definition answer_shutdown :: "server_env \<Rightarrow> tlv_request \<Rightarrow> tlv_reply \<Rightarrow> main_pc \<Rightarrow> server \<Rightarrow> server" where
  "answer_shutdown env req reply next s =
     (let reply = reply\<lparr>rep_type := req_type req, rep_length := of_nat sizeof_rep_value\<rparr> in
      attempt (user_fifo_create (env_fs env) (sint (hdr_pid (req_hdr req))) (fifos s)) (\<lambda>(path, fs).
        main_goto next (s\<lparr>fifos := fs, sent := sent s @ [(hdr_pid (req_hdr req), reply)]\<rparr>)) s)"

definition wake :: "nat \<Rightarrow> server \<Rightarrow> server" where
  "wake j s = goto j O_Woken s"

text \<open>\<open>pthread_cond_broadcast\<close>.\<close>

definition wake_all :: "server \<Rightarrow> server" where
  "wake_all s = s\<lparr>offices := (\<lambda>j. if opc (offices s j) = O_Blocked
     then (offices s j)\<lparr>opc := O_Woken\<rparr> else offices s j)\<rparr>"

definition main_exec :: "server_env \<Rightarrow> server \<Rightarrow> server option" where
  "main_exec env s =
     (case main_thread s of
        M_Read \<Rightarrow> None
      | M_Lock req \<Rightarrow>
          (if queue_mut s = None then Some (main_goto (M_Push req) (s\<lparr>queue_mut := Some 0\<rparr>)) else None)
      | M_Push req \<Rightarrow>
          Some (attempt (push (env_malloc env) req (request_queue s)) (\<lambda>q.
            main_goto (M_Signal req) (s\<lparr>request_queue := q, pushed := pushed s @ [req]\<rparr>)) s)
      | M_Signal req \<Rightarrow> None
      | M_Unlock req \<Rightarrow>
          Some (main_goto M_Read (log_main SYNC_OP_MUTEX_UNLOCK (hdr_account_id (req_hdr req)) (unlock 0 s)))
      | M_Shutdown req \<Rightarrow>
          Some (attempt (validate_request (env_sh env) (bank s) req (env_reply env)) (\<lambda>(ok, reply).
            if ok then
              (let s = s\<lparr>shutdown_req_pid := hdr_account_id (req_hdr req)\<rparr>;
                   s = write_log (logDelay MAIN_THREAD_ID (hdr_op_delay_ms (req_hdr req))) s;
                   (rv, s) = shutdown_server (rep_val reply) s
               in main_goto (M_Broadcast req (reply\<lparr>rep_val := rv\<rparr>)) s)
            else main_goto (M_Refuse req reply) s) s)
      | M_Refuse req reply \<Rightarrow> Some (answer_shutdown env req reply M_Read s)
      | M_Broadcast req reply \<Rightarrow>
          Some (main_goto (M_Answer req reply) (log_main SYNC_OP_COND_SIGNAL (shutdown_req_pid s) (wake_all s)))
      | M_Answer req reply \<Rightarrow> Some (answer_shutdown env req reply (M_Join 0) s)
      | M_Join k \<Rightarrow>
          (if int k < num_threads s
           then if opc (offices s (Suc k)) = O_Done then Some (main_goto (M_Join (Suc k)) s) else None
           else Some (main_goto M_Close s))
      | M_Close \<Rightarrow> Some (main_goto M_Exit (s\<lparr>fifos := filter (\<lambda>p. p \<noteq> SERVER_FIFO_PATH) (fifos s)\<rparr>))
      | M_Exit \<Rightarrow> None)"

text \<open>A request arrives: \<open>read_request\<close> returns and the main thread looks at its type.\<close>

definition receive :: "tlv_request \<Rightarrow> server \<Rightarrow> server" where
  "receive req s =
     (if req_type req = OP_SHUTDOWN then main_goto (M_Shutdown req) s
      else main_goto (M_Lock req) (log_main SYNC_OP_MUTEX_LOCK (hdr_account_id (req_hdr req)) s))"

text \<open>After \<open>pthread_cond_signal\<close>.\<close>

definition after_signal :: "tlv_request \<Rightarrow> server \<Rightarrow> server" where
  "after_signal req s =
     main_goto (M_Unlock req) (log_main SYNC_OP_COND_SIGNAL (hdr_account_id (req_hdr req)) s)"

section \<open>The system\<close>

text \<open>
  What can happen next: a step of an office or of the main thread, the arrival of a
  request, the end of \<open>pthread_cond_signal\<close> (with the office it wakes, or none when
  nobody waits), and a spurious wake-up.
\<close>

datatype event =
    Office nat | Main | Receive tlv_request | Signal nat | Signal_None | Spurious nat

definition is_office :: "nat \<Rightarrow> server \<Rightarrow> bool" where
  "is_office i s \<longleftrightarrow> 0 < i \<and> int i \<le> num_threads s"

definition blocked :: "nat \<Rightarrow> server \<Rightarrow> bool" where
  "blocked j s \<longleftrightarrow> is_office j s \<and> opc (offices s j) = O_Blocked"

definition someone_blocked :: "server \<Rightarrow> bool" where
  "someone_blocked s \<longleftrightarrow> list_ex (\<lambda>j. blocked j s) [1..<Suc (nat (num_threads s))]"

inductive server_step :: "server_env \<Rightarrow> server \<Rightarrow> event \<Rightarrow> server \<Rightarrow> bool" for env where
  office: "crashed s = None \<Longrightarrow> is_office i s \<Longrightarrow> office_exec env i s = Some s' \<Longrightarrow>
    server_step env s (Office i) s'"
| main: "crashed s = None \<Longrightarrow> main_exec env s = Some s' \<Longrightarrow> server_step env s Main s'"
| receive: "crashed s = None \<Longrightarrow> main_thread s = M_Read \<Longrightarrow>
    server_step env s (Receive req) (receive req s)"
| signal: "crashed s = None \<Longrightarrow> main_thread s = M_Signal req \<Longrightarrow> blocked j s \<Longrightarrow>
    server_step env s (Signal j) (after_signal req (wake j s))"
| signal_none: "crashed s = None \<Longrightarrow> main_thread s = M_Signal req \<Longrightarrow> \<not> someone_blocked s \<Longrightarrow>
    server_step env s Signal_None (after_signal req s)"
| spurious: "crashed s = None \<Longrightarrow> blocked j s \<Longrightarrow> server_step env s (Spurious j) (wake j s)"

inductive_cases step_OfficeE: "server_step env s (Office i) s'"
inductive_cases step_MainE: "server_step env s Main s'"

fun exec :: "server_env \<Rightarrow> event \<Rightarrow> server \<Rightarrow> server option" where
  "exec env (Office i) s = (if crashed s = None \<and> is_office i s then office_exec env i s else None)"
| "exec env Main s = (if crashed s = None then main_exec env s else None)"
| "exec env (Receive req) s =
     (if crashed s = None \<and> main_thread s = M_Read then Some (receive req s) else None)"
| "exec env (Signal j) s =
     (case main_thread s of
        M_Signal req \<Rightarrow> if crashed s = None \<and> blocked j s then Some (after_signal req (wake j s)) else None
      | _ \<Rightarrow> None)"
| "exec env Signal_None s =
     (case main_thread s of
        M_Signal req \<Rightarrow>
          if crashed s = None \<and> \<not> someone_blocked s then Some (after_signal req s) else None
      | _ \<Rightarrow> None)"
| "exec env (Spurious j) s = (if crashed s = None \<and> blocked j s then Some (wake j s) else None)"

lemma server_step_iff_exec: "server_step env s e s' \<longleftrightarrow> exec env e s = Some s'"
proof
  show "server_step env s e s' \<Longrightarrow> exec env e s = Some s'"
    by (induction rule: server_step.induct) auto
  show "exec env e s = Some s' \<Longrightarrow> server_step env s e s'"
    by (cases e) (auto intro: server_step.intros split: if_splits main_pc.splits)
qed

fun run :: "server_env \<Rightarrow> event list \<Rightarrow> server \<Rightarrow> server option" where
  "run env [] s = Some s"
| "run env (e # es) s = (case exec env e s of None \<Rightarrow> None | Some s' \<Rightarrow> run env es s')"

abbreviation steps :: "server_env \<Rightarrow> server \<Rightarrow> server \<Rightarrow> bool" where
  "steps env s \<equiv> reach (\<lambda>t. t = s) (server_step env)"

lemma run_steps_rel: "run env es s = Some s' \<Longrightarrow> steps env s s'"
proof (induction es arbitrary: s)
  case Nil
  then show ?case by (auto intro: reach.intros)
next
  case (Cons e es)
  then obtain t where t: "exec env e s = Some t" "run env es t = Some s'"
    by (auto split: option.splits)
  then have "steps env s t"
    by (intro reach_step [OF reach_init]) (auto simp: server_step_iff_exec)
  with Cons.IH [OF t(2)] show ?case by (rule reach_trans)
qed

section \<open>Start\<close>

definition init_server :: "server_env \<Rightarrow> int \<Rightarrow> bank \<Rightarrow> string list \<Rightarrow> server" where
  "init_server env n b fs =
     \<lparr>bank = b, request_queue = init static_queue, queue_mut = None, shutdown = False,
      shutdown_req_pid = 0, num_threads = n, num_active_threads = 0, read_only_fifo = False,
      fifos = fs,
      offices = (\<lambda>i. \<lparr>opc = O_Start, next_request = env_request env, office_reply = env_reply env, progress = P_Begin\<rparr>),
      main_thread = M_Read, sent = [], crashed = None, misused = False, pushed = [], popped = [],
      answered = [], acknowledged = []\<rparr>"

definition start_server :: "server_env \<Rightarrow> int \<Rightarrow> string \<Rightarrow> string \<Rightarrow> string list \<Rightarrow> server res" where
  "start_server env argc argv1 argv2 fs =
     (if \<not> env_log env then Inl (Exit 1)
      else if argc \<noteq> 3 then Inl (Exit 1)
      else bind_res (atoi argv1) (\<lambda>threads.
        bind_res (create_admin_account (env_sh env) (env_rnd env) argv2 static_bank) (\<lambda>b.
        bind_res (server_fifo_create (env_fs env) fs) (\<lambda>fs.
          Inr (init_server env (min_macro threads MAX_BANK_OFFICES)
            (b\<lparr>slog := snd (logAccountCreation MAIN_THREAD_ID (Some (accounts b (unat ADMIN_ACCOUNT_ID))) (slog b))\<rparr>)
            fs)))))"

text \<open>The states of a run that \<open>main\<close> started, for any accounts in order.\<close>

definition server_start :: "server_env \<Rightarrow> server \<Rightarrow> bool" where
  "server_start env s \<longleftrightarrow> (\<exists>n b fs. bank_ok b \<and> n \<le> MAX_BANK_OFFICES \<and> s = init_server env n b fs)"

abbreviation reachable :: "server_env \<Rightarrow> server \<Rightarrow> bool" where
  "reachable env \<equiv> reach (server_start env) (server_step env)"

lemma steps_reachable:
  "steps env (init_server env n b fs) s \<Longrightarrow> bank_ok b \<Longrightarrow> n \<le> MAX_BANK_OFFICES \<Longrightarrow> reachable env s"
  by (erule reach_mono) (auto simp: server_start_def)

section \<open>Fields after a statement\<close>

lemma goto_simps [simp]:
  "bank (goto i p s) = bank s"
  "request_queue (goto i p s) = request_queue s"
  "queue_mut (goto i p s) = queue_mut s"
  "shutdown (goto i p s) = shutdown s"
  "shutdown_req_pid (goto i p s) = shutdown_req_pid s"
  "num_threads (goto i p s) = num_threads s"
  "num_active_threads (goto i p s) = num_active_threads s"
  "read_only_fifo (goto i p s) = read_only_fifo s"
  "fifos (goto i p s) = fifos s"
  "offices (goto i p s) = (offices s)(i := (offices s i)\<lparr>opc := p\<rparr>)"
  "main_thread (goto i p s) = main_thread s"
  "sent (goto i p s) = sent s"
  "crashed (goto i p s) = crashed s"
  "misused (goto i p s) = misused s"
  "pushed (goto i p s) = pushed s"
  "popped (goto i p s) = popped s"
  "answered (goto i p s) = answered s"
  "acknowledged (goto i p s) = acknowledged s"
  by (simp_all add: goto_def)

lemma main_goto_simps [simp]:
  "bank (main_goto m s) = bank s"
  "request_queue (main_goto m s) = request_queue s"
  "queue_mut (main_goto m s) = queue_mut s"
  "shutdown (main_goto m s) = shutdown s"
  "shutdown_req_pid (main_goto m s) = shutdown_req_pid s"
  "num_threads (main_goto m s) = num_threads s"
  "num_active_threads (main_goto m s) = num_active_threads s"
  "read_only_fifo (main_goto m s) = read_only_fifo s"
  "fifos (main_goto m s) = fifos s"
  "offices (main_goto m s) = offices s"
  "main_thread (main_goto m s) = m"
  "sent (main_goto m s) = sent s"
  "crashed (main_goto m s) = crashed s"
  "misused (main_goto m s) = misused s"
  "pushed (main_goto m s) = pushed s"
  "popped (main_goto m s) = popped s"
  "answered (main_goto m s) = answered s"
  "acknowledged (main_goto m s) = acknowledged s"
  by (simp_all add: main_goto_def)

lemma write_log_simps [simp]:
  "bank (write_log f s) = (bank s)\<lparr>slog := snd (f (slog (bank s)))\<rparr>"
  "request_queue (write_log f s) = request_queue s"
  "queue_mut (write_log f s) = queue_mut s"
  "shutdown (write_log f s) = shutdown s"
  "shutdown_req_pid (write_log f s) = shutdown_req_pid s"
  "num_threads (write_log f s) = num_threads s"
  "num_active_threads (write_log f s) = num_active_threads s"
  "read_only_fifo (write_log f s) = read_only_fifo s"
  "fifos (write_log f s) = fifos s"
  "offices (write_log f s) = offices s"
  "main_thread (write_log f s) = main_thread s"
  "sent (write_log f s) = sent s"
  "crashed (write_log f s) = crashed s"
  "misused (write_log f s) = misused s"
  "pushed (write_log f s) = pushed s"
  "popped (write_log f s) = popped s"
  "answered (write_log f s) = answered s"
  "acknowledged (write_log f s) = acknowledged s"
  by (simp_all add: write_log_def)

lemma unlock_simps [simp]:
  "bank (unlock i s) = bank s"
  "request_queue (unlock i s) = request_queue s"
  "queue_mut (unlock i s) = None"
  "shutdown (unlock i s) = shutdown s"
  "shutdown_req_pid (unlock i s) = shutdown_req_pid s"
  "num_threads (unlock i s) = num_threads s"
  "num_active_threads (unlock i s) = num_active_threads s"
  "read_only_fifo (unlock i s) = read_only_fifo s"
  "fifos (unlock i s) = fifos s"
  "offices (unlock i s) = offices s"
  "main_thread (unlock i s) = main_thread s"
  "sent (unlock i s) = sent s"
  "crashed (unlock i s) = crashed s"
  "misused (unlock i s) = (misused s \<or> queue_mut s \<noteq> Some i)"
  "pushed (unlock i s) = pushed s"
  "popped (unlock i s) = popped s"
  "answered (unlock i s) = answered s"
  "acknowledged (unlock i s) = acknowledged s"
  by (simp_all add: unlock_def)

lemma wake_simps [simp]:
  "bank (wake j s) = bank s"
  "request_queue (wake j s) = request_queue s"
  "queue_mut (wake j s) = queue_mut s"
  "shutdown (wake j s) = shutdown s"
  "shutdown_req_pid (wake j s) = shutdown_req_pid s"
  "num_threads (wake j s) = num_threads s"
  "num_active_threads (wake j s) = num_active_threads s"
  "read_only_fifo (wake j s) = read_only_fifo s"
  "fifos (wake j s) = fifos s"
  "offices (wake j s) = (offices s)(j := (offices s j)\<lparr>opc := O_Woken\<rparr>)"
  "main_thread (wake j s) = main_thread s"
  "sent (wake j s) = sent s"
  "crashed (wake j s) = crashed s"
  "misused (wake j s) = misused s"
  "pushed (wake j s) = pushed s"
  "popped (wake j s) = popped s"
  "answered (wake j s) = answered s"
  "acknowledged (wake j s) = acknowledged s"
  by (simp_all add: wake_def)

lemma wake_all_simps [simp]:
  "bank (wake_all s) = bank s"
  "request_queue (wake_all s) = request_queue s"
  "queue_mut (wake_all s) = queue_mut s"
  "shutdown (wake_all s) = shutdown s"
  "shutdown_req_pid (wake_all s) = shutdown_req_pid s"
  "num_threads (wake_all s) = num_threads s"
  "num_active_threads (wake_all s) = num_active_threads s"
  "read_only_fifo (wake_all s) = read_only_fifo s"
  "fifos (wake_all s) = fifos s"
  "offices (wake_all s) = (\<lambda>j. if opc (offices s j) = O_Blocked then (offices s j)\<lparr>opc := O_Woken\<rparr> else offices s j)"
  "main_thread (wake_all s) = main_thread s"
  "sent (wake_all s) = sent s"
  "crashed (wake_all s) = crashed s"
  "misused (wake_all s) = misused s"
  "pushed (wake_all s) = pushed s"
  "popped (wake_all s) = popped s"
  "answered (wake_all s) = answered s"
  "acknowledged (wake_all s) = acknowledged s"
  by (simp_all add: wake_all_def)

text \<open>The step of an office, by the statement it is at.\<close>

abbreviation pc :: "server \<Rightarrow> nat \<Rightarrow> office_pc" where
  "pc s i \<equiv> opc (offices s i)"

lemma attempt_simps [simp]:
  "attempt (Inl e) k s = s\<lparr>crashed := Some e\<rparr>" "attempt (Inr x) k s = k x"
  by (simp_all add: attempt_def)

lemma attempt_cases:
  obtains (fault) e where "m = Inl e" "attempt m k s = s\<lparr>crashed := Some e\<rparr>"
    | (val) x where "m = Inr x" "attempt m k s = k x"
  by (cases m) auto

lemma not_office_0 [simp]: "\<not> is_office 0 s"
  by (simp add: is_office_def)

lemma is_office_cong: "num_threads s' = num_threads s \<Longrightarrow> is_office i s' = is_office i s"
  by (simp add: is_office_def)

text \<open>What a step of an office does, by the statement it is at.\<close>

lemma office_execE:
  assumes "office_exec env i s = Some s'"
  obtains
    (start) "pc s i = O_Start"
      "s' = goto i O_Top (write_log (logBankOfficeOpen (logged_id env) (env_tid env i)) s)"
  | (top) "pc s i = O_Top" "\<not> shutdown s"
      "s' = goto i O_Lock (log_mech env SYNC_OP_MUTEX_LOCK (env_pid env) s)"
  | (top_shutdown) "pc s i = O_Top" "shutdown s" "s' = goto i O_Unlock s"
  | (lock) "pc s i = O_Lock" "queue_mut s = None" "s' = goto i O_Empty (s\<lparr>queue_mut := Some i\<rparr>)"
  | (unlock) "pc s i = O_Unlock"
      "s' = goto i O_Empty (log_mech env SYNC_OP_MUTEX_UNLOCK (sint (shutdown_req_pid s)) (unlock i s))"
  | (is_empty) "pc s i = O_Empty" "empty (request_queue s)" "s' = goto i O_Shut s"
  | (not_empty) "pc s i = O_Empty" "\<not> empty (request_queue s)" "s' = goto i O_Second s"
  | (break) "pc s i = O_Shut" "shutdown s" "s' = goto i O_Close s"
  | (to_wait) "pc s i = O_Shut" "\<not> shutdown s"
      "s' = goto i O_Wait (log_mech env SYNC_OP_COND_WAIT (env_pid env) s)"
  | (wait) "pc s i = O_Wait" "s' = goto i O_Blocked (unlock i s)"
  | (woken) "pc s i = O_Woken" "queue_mut s = None" "s' = goto i O_Second (s\<lparr>queue_mut := Some i\<rparr>)"
  | (second) "pc s i = O_Second" "\<not> empty (request_queue s)" "s' = goto i O_Front s"
  | (second_empty) "pc s i = O_Second" "empty (request_queue s)" "s' = goto i O_Top s"
  | (front) req where "pc s i = O_Front" "front (request_queue s) = Inr req"
      "s' = goto i O_Count (write_log (logSyncDelay (logged_id env) (request_sid req)
              (hdr_op_delay_ms (req_hdr req)))
            (s\<lparr>offices := (offices s)(i := (offices s i)\<lparr>next_request := req\<rparr>)\<rparr>))"
  | (front_fault) e where "pc s i = O_Front" "front (request_queue s) = Inl e" "s' = s\<lparr>crashed := Some e\<rparr>"
  | (count) "pc s i = O_Count"
      "s' = goto i O_Pop (log_mech env SYNC_OP_MUTEX_UNLOCK (request_sid (next_request (offices s i)))
            ((log_mech env SYNC_OP_MUTEX_LOCK (request_sid (next_request (offices s i))) s)
               \<lparr>num_active_threads := num_active_threads s + 1\<rparr>))"
  | (pop) q' where "pc s i = O_Pop" "pop (request_queue s) = Inr q'"
      "s' = goto i O_Release (s\<lparr>request_queue := q', popped := popped s @ [next_request (offices s i)]\<rparr>)"
  | (pop_fault) e where "pc s i = O_Pop" "pop (request_queue s) = Inl e" "s' = s\<lparr>crashed := Some e\<rparr>"
  | (release) "pc s i = O_Release"
      "s' = goto i O_Ack ((unlock i s)\<lparr>offices := (offices s)(i := (offices s i)\<lparr>progress := P_Begin\<rparr>)\<rparr>)"
  | (acknowledged) rep where "pc s i = O_Ack" "progress (offices s i) = P_Length"
      "rep = finish_reply (office_reply (offices s i))"
      "s' = goto i O_Fifo (s\<lparr>acknowledged := acknowledged s @ [(next_request (offices s i), rep)],
              offices := (offices s)(i := (offices s i)\<lparr>office_reply := rep\<rparr>)\<rparr>)"
  | (process) w rep b where "pc s i = O_Ack" "progress (offices s i) \<noteq> P_Length"
      "process_exec (env_sh env) (env_rnd env) (int i) (next_request (offices s i)) (progress (offices s i))
         (office_reply (offices s i)) (bank s) = Inr (w, rep, b)"
      "s' = s\<lparr>bank := b, offices := (offices s)(i := (offices s i)\<lparr>office_reply := rep, progress := w\<rparr>)\<rparr>"
  | (process_fault) e where "pc s i = O_Ack" "progress (offices s i) \<noteq> P_Length"
      "process_exec (env_sh env) (env_rnd env) (int i) (next_request (offices s i)) (progress (offices s i))
         (office_reply (offices s i)) (bank s) = Inl e"
      "s' = s\<lparr>crashed := Some e\<rparr>"
  | (fifo) path fs where "pc s i = O_Fifo"
      "user_fifo_create (env_fs env) (sint (hdr_pid (req_hdr (next_request (offices s i))))) (fifos s) = Inr (path, fs)"
      "s' = goto i O_Write (s\<lparr>fifos := fs\<rparr>)"
  | (fifo_fault) e where "pc s i = O_Fifo"
      "user_fifo_create (env_fs env) (sint (hdr_pid (req_hdr (next_request (offices s i))))) (fifos s) = Inl e"
      "s' = s\<lparr>crashed := Some e\<rparr>"
  | (reply) "pc s i = O_Write"
      "s' = goto i O_Uncount (s\<lparr>sent := sent s @ [(hdr_pid (req_hdr (next_request (offices s i))), office_reply (offices s i))],
              answered := answered s @ [next_request (offices s i)]\<rparr>)"
  | (uncount) "pc s i = O_Uncount"
      "s' = goto i O_Top (log_mech env SYNC_OP_MUTEX_UNLOCK (request_sid (next_request (offices s i)))
            ((log_mech env SYNC_OP_MUTEX_LOCK (request_sid (next_request (offices s i))) s)
               \<lparr>num_active_threads := num_active_threads s - 1\<rparr>))"
  | (close_log) "pc s i = O_Close" "s' = goto i O_Done (write_log (logBankOfficeClose (int i) (env_tid env i)) s)"
proof (cases "pc s i")
  case O_Start
  with assms show thesis by (intro that(1)) (simp_all add: office_exec_def Let_def)
next
  case O_Top
  then show thesis
    using assms that(2) that(3) by (cases "shutdown s") (simp_all add: office_exec_def Let_def)
next
  case O_Lock
  with assms show thesis by (intro that(4)) (simp_all add: office_exec_def Let_def split: if_splits)
next
  case O_Unlock
  with assms show thesis by (intro that(5)) (simp_all add: office_exec_def Let_def)
next
  case O_Empty
  then show thesis
    using assms that(6) that(7) by (cases "empty (request_queue s)") (simp_all add: office_exec_def Let_def)
next
  case O_Shut
  then show thesis
    using assms that(8) that(9) by (cases "shutdown s") (simp_all add: office_exec_def Let_def)
next
  case O_Wait
  with assms show thesis by (intro that(10)) (simp_all add: office_exec_def Let_def)
next
  case O_Woken
  with assms show thesis by (intro that(11)) (simp_all add: office_exec_def Let_def split: if_splits)
next
  case O_Second
  then show thesis
    using assms that(12) that(13) by (cases "empty (request_queue s)") (simp_all add: office_exec_def Let_def)
next
  case O_Front
  then show thesis
    using assms that(15) that(14) by (cases "front (request_queue s)") (simp_all add: office_exec_def Let_def)
next
  case O_Count
  with assms show thesis by (intro that(16)) (simp_all add: office_exec_def Let_def)
next
  case O_Pop
  then show thesis
    using assms that(18) that(17) by (cases "pop (request_queue s)") (simp_all add: office_exec_def Let_def)
next
  case O_Release
  with assms show thesis by (intro that(19)) (simp_all add: office_exec_def Let_def)
next
  case O_Ack
  show thesis
  proof (cases "progress (offices s i) = P_Length")
    case True
    with O_Ack assms show thesis by (intro that(20) [OF O_Ack True refl]) (auto simp: office_exec_def Let_def)
  next
    case False
    show thesis
    proof (cases "process_exec (env_sh env) (env_rnd env) (int i) (next_request (offices s i)) (progress (offices s i))
        (office_reply (offices s i)) (bank s)")
      case (Inl e)
      with O_Ack False assms show thesis by (intro that(22)) (auto simp: office_exec_def Let_def)
    next
      case (Inr x)
      with O_Ack False assms show thesis
        by (cases x) (intro that(21), auto simp: office_exec_def Let_def)
    qed
  qed
next
  case O_Fifo
  then show thesis
    using assms that(24) that(23) by (cases "user_fifo_create (env_fs env) (sint (hdr_pid (req_hdr (next_request (offices s i))))) (fifos s)") (auto simp: office_exec_def Let_def)
next
  case O_Write
  with assms show thesis by (intro that(25)) (simp_all add: office_exec_def Let_def)
next
  case O_Uncount
  with assms show thesis by (intro that(26)) (simp_all add: office_exec_def Let_def)
next
  case O_Close
  with assms show thesis by (intro that(27)) (simp_all add: office_exec_def Let_def)
next
  case O_Blocked
  with assms show thesis by (simp add: office_exec_def)
next
  case O_Done
  with assms show thesis by (simp add: office_exec_def)
qed

text \<open>The main thread.\<close>

lemma answer_shutdown_simps [simp]:
  "bank (answer_shutdown env req reply m s) = bank s"
  "request_queue (answer_shutdown env req reply m s) = request_queue s"
  "queue_mut (answer_shutdown env req reply m s) = queue_mut s"
  "shutdown (answer_shutdown env req reply m s) = shutdown s"
  "num_threads (answer_shutdown env req reply m s) = num_threads s"
  "num_active_threads (answer_shutdown env req reply m s) = num_active_threads s"
  "offices (answer_shutdown env req reply m s) = offices s"
  "misused (answer_shutdown env req reply m s) = misused s"
  "pushed (answer_shutdown env req reply m s) = pushed s"
  "popped (answer_shutdown env req reply m s) = popped s"
  "answered (answer_shutdown env req reply m s) = answered s"
  "acknowledged (answer_shutdown env req reply m s) = acknowledged s"
  by (simp_all add: answer_shutdown_def Let_def attempt_def split: sum.split prod.split)

lemma answer_shutdown_main:
  "main_thread (answer_shutdown env req reply m s) = m \<or>
   main_thread (answer_shutdown env req reply m s) = main_thread s"
  by (simp add: answer_shutdown_def Let_def attempt_def split: sum.split prod.split)

lemma main_execE:
  assumes "main_exec env s = Some s'"
  obtains
    (lock) req where "main_thread s = M_Lock req" "queue_mut s = None"
      "s' = main_goto (M_Push req) (s\<lparr>queue_mut := Some 0\<rparr>)"
  | (push) req q where "main_thread s = M_Push req" "push (env_malloc env) req (request_queue s) = Inr q"
      "s' = main_goto (M_Signal req) (s\<lparr>request_queue := q, pushed := pushed s @ [req]\<rparr>)"
  | (push_fault) req e where "main_thread s = M_Push req"
      "push (env_malloc env) req (request_queue s) = Inl e" "s' = s\<lparr>crashed := Some e\<rparr>"
  | (unlock) req where "main_thread s = M_Unlock req"
      "s' = main_goto M_Read (log_main SYNC_OP_MUTEX_UNLOCK (hdr_account_id (req_hdr req)) (unlock 0 s))"
  | (shutdown) req reply where "main_thread s = M_Shutdown req"
      "validate_request (env_sh env) (bank s) req (env_reply env) = Inr (True, reply)"
      "s' = main_goto (M_Broadcast req (reply\<lparr>rep_val := (rep_val reply)\<lparr>rep_word := of_int (num_active_threads s)\<rparr>\<rparr>))
        ((write_log (logDelay MAIN_THREAD_ID (hdr_op_delay_ms (req_hdr req)))
           (s\<lparr>shutdown_req_pid := hdr_account_id (req_hdr req)\<rparr>))\<lparr>read_only_fifo := True, shutdown := True\<rparr>)"
  | (not_shutdown) req reply where "main_thread s = M_Shutdown req"
      "validate_request (env_sh env) (bank s) req (env_reply env) = Inr (False, reply)"
      "s' = main_goto (M_Refuse req reply) s"
  | (shutdown_fault) req e where "main_thread s = M_Shutdown req"
      "validate_request (env_sh env) (bank s) req (env_reply env) = Inl e" "s' = s\<lparr>crashed := Some e\<rparr>"
  | (refuse) req reply where "main_thread s = M_Refuse req reply"
      "s' = answer_shutdown env req reply M_Read s"
  | (broadcast) req reply where "main_thread s = M_Broadcast req reply"
      "s' = main_goto (M_Answer req reply) (log_main SYNC_OP_COND_SIGNAL (shutdown_req_pid s) (wake_all s))"
  | (answer) req reply where "main_thread s = M_Answer req reply"
      "s' = answer_shutdown env req reply (M_Join 0) s"
  | (join) k where "main_thread s = M_Join k" "int k < num_threads s" "pc s (Suc k) = O_Done"
      "s' = main_goto (M_Join (Suc k)) s"
  | (joined) k where "main_thread s = M_Join k" "\<not> int k < num_threads s" "s' = main_goto M_Close s"
  | (close_fifo) "main_thread s = M_Close"
      "s' = main_goto M_Exit (s\<lparr>fifos := filter (\<lambda>p. p \<noteq> SERVER_FIFO_PATH) (fifos s)\<rparr>)"
proof (cases "main_thread s")
  case (M_Lock req)
  with assms that(1) show thesis by (auto simp: main_exec_def split: if_splits)
next
  case (M_Push req)
  with assms that(2,3) show thesis
    by (cases "push (env_malloc env) req (request_queue s)") (auto simp: main_exec_def)
next
  case (M_Unlock req)
  with assms that(4) show thesis by (auto simp: main_exec_def)
next
  case (M_Shutdown req)
  show thesis
  proof (cases "validate_request (env_sh env) (bank s) req (env_reply env)")
    case (Inl e)
    with assms M_Shutdown that(7) show thesis by (auto simp: main_exec_def)
  next
    case (Inr r)
    with assms M_Shutdown that(5,6) show thesis
      by (cases r; cases "fst r") (auto simp: main_exec_def Let_def shutdown_server_def)
  qed
next
  case (M_Refuse req reply)
  with assms that(8) show thesis by (auto simp: main_exec_def)
next
  case (M_Broadcast req reply)
  with assms that(9) show thesis by (auto simp: main_exec_def)
next
  case (M_Answer req reply)
  with assms that(10) show thesis by (auto simp: main_exec_def)
next
  case (M_Join k)
  with assms that(11,12) show thesis by (auto simp: main_exec_def split: if_splits)
next
  case M_Close
  with assms that(13) show thesis by (auto simp: main_exec_def)
next
  case M_Read
  with assms show thesis by (simp add: main_exec_def)
next
  case (M_Signal req)
  with assms show thesis by (simp add: main_exec_def)
next
  case M_Exit
  with assms show thesis by (simp add: main_exec_def)
qed


lemma receive_simps [simp]:
  "request_queue (receive req s) = request_queue s"
  "queue_mut (receive req s) = queue_mut s"
  "shutdown (receive req s) = shutdown s"
  "shutdown_req_pid (receive req s) = shutdown_req_pid s"
  "num_threads (receive req s) = num_threads s"
  "num_active_threads (receive req s) = num_active_threads s"
  "offices (receive req s) = offices s"
  "sent (receive req s) = sent s"
  "crashed (receive req s) = crashed s"
  "misused (receive req s) = misused s"
  "pushed (receive req s) = pushed s"
  "popped (receive req s) = popped s"
  "answered (receive req s) = answered s"
  "acknowledged (receive req s) = acknowledged s"
  "accounts (bank (receive req s)) = accounts (bank s)"
  by (simp_all add: receive_def)

lemma after_signal_simps [simp]:
  "request_queue (after_signal req s) = request_queue s"
  "queue_mut (after_signal req s) = queue_mut s"
  "shutdown (after_signal req s) = shutdown s"
  "shutdown_req_pid (after_signal req s) = shutdown_req_pid s"
  "num_threads (after_signal req s) = num_threads s"
  "num_active_threads (after_signal req s) = num_active_threads s"
  "offices (after_signal req s) = offices s"
  "sent (after_signal req s) = sent s"
  "crashed (after_signal req s) = crashed s"
  "misused (after_signal req s) = misused s"
  "pushed (after_signal req s) = pushed s"
  "popped (after_signal req s) = popped s"
  "answered (after_signal req s) = answered s"
  "acknowledged (after_signal req s) = acknowledged s"
  "main_thread (after_signal req s) = M_Unlock req"
  by (simp_all add: after_signal_def)

lemma receive_main: "main_thread (receive req s) \<in> {M_Shutdown req, M_Lock req}"
  by (simp add: receive_def)

end
