(* ===== verification/Office_Locking.thy ===== *)
theory Office_Locking
  imports Offices
begin

text \<open>
  The mutex \<open>queue_mut\<close> of \<open>server.c\<close>: before shutdown at most one thread is between
  its lock and its unlock, and every unlock is by the thread that holds the mutex.
\<close>

section \<open>Mutual exclusion\<close>

definition holds :: "office_pc \<Rightarrow> bool" where
  "holds p \<longleftrightarrow> p \<in> {O_Empty, O_Shut, O_Wait, O_Second, O_Front, O_Count, O_Pop, O_Release}"

fun main_holds :: "main_pc \<Rightarrow> bool" where
  "main_holds (M_Push req) = True"
| "main_holds (M_Signal req) = True"
| "main_holds (M_Unlock req) = True"
| "main_holds _ = False"

definition mutex_inv :: "server \<Rightarrow> bool" where
  "mutex_inv s \<longleftrightarrow>
     (\<forall>i. \<not> is_office i s \<longrightarrow> opc (offices s i) = O_Start) \<and>
     (\<not> shutdown s \<longrightarrow>
        (\<forall>i. holds (opc (offices s i)) \<longrightarrow> queue_mut s = Some i) \<and>
        (main_holds (main_thread s) \<longrightarrow> queue_mut s = Some 0) \<and>
        (\<forall>i. opc (offices s i) \<notin> {O_Unlock, O_Close, O_Done}) \<and> \<not> misused s)"

lemma mutex_invI:
  assumes "mutex_inv s" and "is_office i s" and "num_threads s' = num_threads s" "shutdown s' = shutdown s"
    and "main_thread s' = main_thread s"
    and "\<And>j. j \<noteq> i \<Longrightarrow> pc s' j = pc s j"
    and "\<not> shutdown s \<Longrightarrow> holds (pc s' i) \<Longrightarrow> queue_mut s' = Some i"
    and "\<not> shutdown s \<Longrightarrow> queue_mut s' = queue_mut s \<or> queue_mut s = None \<or> holds (pc s i) \<and> \<not> holds (pc s' i)"
    and "\<not> shutdown s \<Longrightarrow> pc s' i \<notin> {O_Unlock, O_Close, O_Done} \<and> misused s' = misused s"
  shows "mutex_inv s'"
proof -
  have old: "holds (pc s j) \<Longrightarrow> queue_mut s = Some j" "main_holds (main_thread s) \<Longrightarrow> queue_mut s = Some 0"
    "pc s j \<notin> {O_Unlock, O_Close, O_Done}" "\<not> misused s" if "\<not> shutdown s" for j
    using assms(1) that by (auto simp: mutex_inv_def)
  have "i \<noteq> 0" using assms(2) by (auto simp: is_office_def)
  have pcs: "pc s' j = O_Start" if "\<not> is_office j s" for j
    using assms(1,2) that assms(6) [of j] by (cases "j = i") (auto simp: mutex_inv_def)
  have mut: "holds (pc s' j) \<Longrightarrow> queue_mut s' = Some j"
    "pc s' j \<notin> {O_Unlock, O_Close, O_Done}" if ns: "\<not> shutdown s" for j
    using assms(6) [of j] assms(7-9) [OF ns] old(1) [OF ns, of j] old(1) [OF ns, of i] old(3) [OF ns, of j]
    by (cases "j = i"; auto)+
  have main: "queue_mut s' = Some 0" if ns: "\<not> shutdown s" and m: "main_holds (main_thread s)"
    using assms(8) [OF ns] old(2) [OF ns m] old(1) [OF ns, of i] \<open>i \<noteq> 0\<close> by auto
  have "\<not> misused s'" if ns: "\<not> shutdown s"
    using assms(9) [OF ns] old(4) [OF ns] by simp
  then show ?thesis
    unfolding mutex_inv_def is_office_cong [OF assms(3)] using assms(4,5) pcs mut main by simp
qed

lemma office_mutex_inv:
  assumes "office_exec env i s = Some s'" and "is_office i s" and "mutex_inv s"
  shows "mutex_inv s'"
proof -
  have h: "\<not> shutdown s \<Longrightarrow> holds (pc s i) \<Longrightarrow> queue_mut s = Some i"
    and n: "\<not> shutdown s \<Longrightarrow> pc s i \<notin> {O_Unlock, O_Close, O_Done}"
    using assms(3) by (auto simp: mutex_inv_def)
  from assms(1) show ?thesis
    by (cases rule: office_execE; intro mutex_invI [OF assms(3,2)]; use h n in \<open>simp add: holds_def\<close>)
qed


text \<open>The invariant is kept by every step.\<close>

lemma mutex_inv_cong:
  assumes "mutex_inv s" and "num_threads s' = num_threads s" and "\<not> shutdown s' \<Longrightarrow> \<not> shutdown s"
    and "\<And>j. pc s' j = pc s j \<or> pc s j = O_Blocked \<and> pc s' j = O_Woken"
    and "\<not> shutdown s' \<Longrightarrow> main_holds (main_thread s') \<Longrightarrow> queue_mut s' = Some 0"
    and "\<not> shutdown s' \<Longrightarrow> queue_mut s' = queue_mut s \<or> queue_mut s = None \<or> queue_mut s = Some 0"
    and "\<not> shutdown s' \<Longrightarrow> misused s' = misused s"
  shows "mutex_inv s'"
proof -
  have start: "\<not> is_office j s \<Longrightarrow> pc s' j = O_Start" for j
    using assms(1) assms(4) [of j] by (auto simp: mutex_inv_def)
  have none: "\<not> shutdown s \<Longrightarrow> \<not> holds (pc s 0)"
    using assms(1) by (auto simp: mutex_inv_def holds_def)
  have "queue_mut s' = Some j" if ns: "\<not> shutdown s'" and h: "holds (pc s' j)" for j
  proof -
    have "holds (pc s j)" using h assms(4) [of j] by (auto simp: holds_def)
    then have "queue_mut s = Some j" using assms(1,3) ns by (auto simp: mutex_inv_def)
    moreover have "j \<noteq> 0" using \<open>holds (pc s j)\<close> none assms(3) ns by metis
    ultimately show ?thesis using assms(6) [OF ns] by auto
  qed
  moreover have "pc s' j \<notin> {O_Unlock, O_Close, O_Done}" if "\<not> shutdown s'" for j
  proof -
    have "pc s j \<notin> {O_Unlock, O_Close, O_Done}" using assms(1,3) that unfolding mutex_inv_def by blast
    then show ?thesis using assms(4) [of j] by auto
  qed
  moreover have "\<not> misused s'" if "\<not> shutdown s'"
    using assms(1,3,7) that by (auto simp: mutex_inv_def)
  ultimately show ?thesis
    unfolding mutex_inv_def is_office_cong [OF assms(2)] using start assms(5) by blast
qed

lemma main_mutex_inv:
  assumes "main_exec env s = Some s'" and "mutex_inv s"
  shows "mutex_inv s'"
proof -
  have m: "\<not> shutdown s \<Longrightarrow> main_holds (main_thread s) \<Longrightarrow> queue_mut s = Some 0"
    using assms(2) by (auto simp: mutex_inv_def)
  from assms(1) show ?thesis
  proof (cases rule: main_execE)
    case (refuse req reply)
    then show ?thesis
      using answer_shutdown_main [of env req reply M_Read s]
      by (intro mutex_inv_cong [OF assms(2)]) auto
  next
    case (answer req reply)
    then show ?thesis
      using answer_shutdown_main [of env req reply "M_Join 0" s]
      by (intro mutex_inv_cong [OF assms(2)]) auto
  qed (intro mutex_inv_cong [OF assms(2)]; use m in simp; fail)+
qed

lemma step_mutex_inv:
  assumes "server_step env s e s'" and "mutex_inv s"
  shows "mutex_inv s'"
  using assms(1)
proof (cases rule: server_step.cases)
  case (office i)
  then show ?thesis using office_mutex_inv assms(2) by blast
next
  case main
  then show ?thesis using main_mutex_inv assms(2) by blast
next
  case (receive req)
  then show ?thesis
    using receive_main [of req s] by (intro mutex_inv_cong [OF assms(2)]) auto
next
  case (signal req j)
  then show ?thesis
    using assms(2) by (intro mutex_inv_cong [OF assms(2)]) (auto simp: blocked_def mutex_inv_def)
next
  case (signal_none req)
  then show ?thesis
    using assms(2) by (intro mutex_inv_cong [OF assms(2)]) (auto simp: mutex_inv_def)
next
  case (spurious j)
  then show ?thesis
    using assms(2) by (intro mutex_inv_cong [OF assms(2)]) (auto simp: blocked_def mutex_inv_def)
qed

lemma init_mutex_inv: "mutex_inv (init_server env n b fs)"
  by (simp add: mutex_inv_def init_server_def holds_def)

interpretation mutex: transition_invariant "server_start env" "server_step env" mutex_inv for env
  by unfold_locales (auto simp: server_start_def intro: init_mutex_inv step_mutex_inv)

lemma mutex_not_office: "mutex_inv s \<Longrightarrow> \<not> is_office i s \<Longrightarrow> pc s i = O_Start"
  unfolding mutex_inv_def by blast

lemma mutex_one_office:
  "mutex_inv s \<Longrightarrow> \<not> shutdown s \<Longrightarrow> holds (pc s i) \<Longrightarrow> holds (pc s j) \<Longrightarrow> i = j"
  unfolding mutex_inv_def by (metis option.inject)

lemma mutex_no_main:
  assumes "mutex_inv s" and "\<not> shutdown s" and "main_holds (main_thread s)"
  shows "\<not> holds (pc s i)"
proof
  assume h: "holds (pc s i)"
  then have "i = 0" using assms unfolding mutex_inv_def by (metis option.inject)
  moreover have "pc s 0 = O_Start" using assms(1) not_office_0 unfolding mutex_inv_def by blast
  ultimately show False using h by (simp add: holds_def)
qed

end
