(* ===== verification/Dispatch.thy ===== *)
theory Dispatch
  imports Office_Locking "HOL-Library.Multiset"
begin

text \<open>
  The path of a request through the server: pushed by the main thread, taken by one office,
  acknowledged, answered. Before shutdown the queue hands the requests out in the order of
  arrival; in every reachable state each popped request is answered once or still in the
  hands of one office, and \<open>num_active_threads\<close> counts the offices that hold one.
\<close>

section \<open>Counting offices\<close>

definition office_set :: "server \<Rightarrow> nat set" where
  "office_set s = {1..nat (num_threads s)}"

lemma office_set_iff: "i \<in> office_set s \<longleftrightarrow> is_office i s"
  by (auto simp: office_set_def is_office_def)

lemma office_set_finite [simp]: "finite (office_set s)"
  by (simp add: office_set_def)

lemma office_set_cong: "num_threads s' = num_threads s \<Longrightarrow> office_set s' = office_set s"
  by (simp add: office_set_def)

text \<open>What an office holds, by its position: between \<open>pop\<close> and \<open>write\<close> one request.\<close>

definition in_hand :: "office \<Rightarrow> tlv_request multiset" where
  "in_hand ofc = (if opc ofc \<in> {O_Release, O_Ack, O_Fifo, O_Write} then {#next_request ofc#} else {#})"

definition unacknowledged :: "office \<Rightarrow> tlv_request multiset" where
  "unacknowledged ofc = (if opc ofc \<in> {O_Release, O_Ack} then {#next_request ofc#} else {#})"

definition acked_in_hand :: "office \<Rightarrow> tlv_request multiset" where
  "acked_in_hand ofc = (if opc ofc \<in> {O_Fifo, O_Write} then {#next_request ofc#} else {#})"

text \<open>Between the increment and the decrement of the counter.\<close>

definition active :: "office \<Rightarrow> int" where
  "active ofc = (if opc ofc \<in> {O_Pop, O_Release, O_Ack, O_Fifo, O_Write, O_Uncount} then 1 else 0)"

definition over_offices :: "(office \<Rightarrow> 'a::comm_monoid_add) \<Rightarrow> server \<Rightarrow> 'a" where
  "over_offices f s = (\<Sum>i\<in>office_set s. f (offices s i))"

lemma over_offices_step:
  assumes "is_office i s" and "num_threads s' = num_threads s"
    and "\<And>j. j \<noteq> i \<Longrightarrow> offices s' j = offices s j"
  shows "over_offices f s' + f (offices s i) = over_offices f s + f (offices s' i)"
  unfolding over_offices_def office_set_cong [OF assms(2)]
  by (rule sum_change_at) (use assms in \<open>simp_all add: office_set_iff\<close>)

lemma over_offices_cong:
  assumes "num_threads s' = num_threads s" and "\<And>j. f (offices s' j) = f (offices s j)"
  shows "over_offices f s' = over_offices f s"
  unfolding over_offices_def office_set_cong [OF assms(1)] using assms(2) by simp

section \<open>The accounting invariant\<close>

definition dispatch_inv :: "server \<Rightarrow> bool" where
  "dispatch_inv s \<longleftrightarrow>
     mset (popped s) = mset (answered s) + over_offices in_hand s \<and>
     mset (map fst (acknowledged s)) = mset (answered s) + over_offices acked_in_hand s \<and>
     num_active_threads s = over_offices active s"

text \<open>A step that changes no office's holdings and no history.\<close>

lemma dispatch_inv_cong:
  assumes "dispatch_inv s" and "num_threads s' = num_threads s"
    and "\<And>j. in_hand (offices s' j) = in_hand (offices s j)"
    and "\<And>j. acked_in_hand (offices s' j) = acked_in_hand (offices s j)"
    and "\<And>j. active (offices s' j) = active (offices s j)"
    and "popped s' = popped s" "answered s' = answered s" "acknowledged s' = acknowledged s"
      "num_active_threads s' = num_active_threads s"
  shows "dispatch_inv s'"
  using assms(1,6-9) over_offices_cong [of s' s in_hand] over_offices_cong [of s' s acked_in_hand]
    over_offices_cong [of s' s active] assms(2-5)
  by (simp add: dispatch_inv_def)

lemmas holding_defs = in_hand_def acked_in_hand_def active_def

lemma office_exec_frame:
  assumes "office_exec env i s = Some s'"
  shows "num_threads s' = num_threads s" and "j \<noteq> i \<Longrightarrow> offices s' j = offices s j"
    and "main_thread s' = main_thread s" and "pushed s' = pushed s" and "shutdown s' = shutdown s"
  using assms by (cases rule: office_execE; simp)+

lemma office_dispatch_inv:
  assumes "office_exec env i s = Some s'" and "is_office i s" and "dispatch_inv s"
  shows "dispatch_inv s'"
proof -
  note frame = over_offices_step [OF assms(2) office_exec_frame(1,2) [OF assms(1)]]
  note f = frame [where f = in_hand] frame [where f = acked_in_hand] frame [where f = active]
  from assms(1) show ?thesis
    by (cases rule: office_execE; use f assms(3) in \<open>auto simp: dispatch_inv_def holding_defs\<close>)
qed

lemma main_exec_frame:
  assumes "main_exec env s = Some s'"
  shows "num_threads s' = num_threads s" and "popped s' = popped s" and "answered s' = answered s"
    and "acknowledged s' = acknowledged s" and "num_active_threads s' = num_active_threads s"
    and "offices s' j = offices s j \<or>
      opc (offices s j) = O_Blocked \<and> offices s' j = (offices s j)\<lparr>opc := O_Woken\<rparr>"
  using assms by (cases rule: main_execE; simp)+

lemma step_dispatch_inv:
  assumes "server_step env s e s'" and "dispatch_inv s"
  shows "dispatch_inv s'"
  using assms(1)
proof (cases rule: server_step.cases)
  case (office i)
  then show ?thesis using office_dispatch_inv assms(2) by blast
next
  case main
  note main_exec_frame [OF main(3)]
  moreover have "in_hand (offices s' j) = in_hand (offices s j)"
    "acked_in_hand (offices s' j) = acked_in_hand (offices s j)"
    "active (offices s' j) = active (offices s j)" for j
    using main_exec_frame(6) [OF main(3), of j] by (auto simp: holding_defs)
  ultimately show ?thesis by (intro dispatch_inv_cong [OF assms(2)])
next
  case (signal req j)
  then show ?thesis by (intro dispatch_inv_cong [OF assms(2)]) (auto simp: blocked_def holding_defs)
next
  case (spurious j)
  then show ?thesis by (intro dispatch_inv_cong [OF assms(2)]) (auto simp: blocked_def holding_defs)
qed (intro dispatch_inv_cong [OF assms(2)]; simp)+

lemma init_dispatch_inv: "dispatch_inv (init_server env n b fs)"
  by (simp add: dispatch_inv_def init_server_def over_offices_def holding_defs)

interpretation dispatch: transition_invariant "server_start env" "server_step env" dispatch_inv for env
  by unfold_locales (auto simp: server_start_def intro: init_dispatch_inv step_dispatch_inv)

section \<open>The queue before shutdown\<close>

text \<open>
  Until the shutdown flag is set, and for fewer than \<open>2 ^ 32\<close> requests, the linked list is
  well formed, it holds the pushed requests that are not popped yet, in order, and an office
  between \<open>front\<close> and \<open>pop\<close> has the first of them.
\<close>

definition at_queue :: "office_pc \<Rightarrow> bool" where
  "at_queue p \<longleftrightarrow> p \<in> {O_Front, O_Count, O_Pop}"

definition at_pop :: "office_pc \<Rightarrow> bool" where
  "at_pop p \<longleftrightarrow> p \<in> {O_Count, O_Pop}"

lemma at_queue_holds: "at_queue p \<Longrightarrow> holds p"
  by (auto simp: at_queue_def holds_def)

lemma at_pop_queue: "at_pop p \<Longrightarrow> at_queue p"
  by (auto simp: at_queue_def at_pop_def)

definition queue_ok :: "server \<Rightarrow> bool" where
  "queue_ok s \<longleftrightarrow>
     queue_inv (request_queue s) \<and> pushed s = popped s @ queue_list (request_queue s) \<and>
     (\<forall>i. at_queue (pc s i) \<longrightarrow> queue_list (request_queue s) \<noteq> []) \<and>
     (\<forall>i. at_pop (pc s i) \<longrightarrow> next_request (offices s i) = hd (queue_list (request_queue s)))"

text \<open>A step that leaves the queue alone.\<close>

lemma queue_ok_cong:
  assumes "queue_ok s" and "request_queue s' = request_queue s" "pushed s' = pushed s" "popped s' = popped s"
    and "\<And>i. at_queue (pc s' i) \<Longrightarrow> at_queue (pc s i) \<or> \<not> empty (request_queue s)"
    and "\<And>i. at_pop (pc s' i) \<Longrightarrow>
      front (request_queue s) = Inr (next_request (offices s' i)) \<or>
      at_pop (pc s i) \<and> next_request (offices s' i) = next_request (offices s i)"
  shows "queue_ok s'"
proof -
  have q: "queue_inv (request_queue s)" using assms(1) by (simp add: queue_ok_def)
  have ne: "queue_list (request_queue s) \<noteq> []" if "at_queue (pc s' i)" for i
    using assms(5) [OF that] assms(1) rq.is_empty_iff [OF q] unfolding queue_ok_def by blast
  moreover have "next_request (offices s' i) = hd (queue_list (request_queue s))"
    if "at_pop (pc s' i)" for i
    using assms(6) [OF that]
  proof
    assume "front (request_queue s) = Inr (next_request (offices s' i))"
    then show ?thesis using rq.first_ok [OF q ne [OF at_pop_queue [OF that]]] by simp
  next
    assume "at_pop (pc s i) \<and> next_request (offices s' i) = next_request (offices s i)"
    then show ?thesis using assms(1) unfolding queue_ok_def by auto
  qed
  ultimately show ?thesis using assms(1-4) by (simp add: queue_ok_def)
qed

lemma office_queue_ok:
  assumes "office_exec env i s = Some s'" and "queue_ok s" and "mutex_inv s" and "\<not> shutdown s"
  shows "queue_ok s'"
proof -
  have q: "queue_inv (request_queue s)" using assms(2) by (simp add: queue_ok_def)
  have at: "at_queue (pc s i) \<Longrightarrow> queue_list (request_queue s) \<noteq> []"
    "at_pop (pc s i) \<Longrightarrow> next_request (offices s i) = hd (queue_list (request_queue s))"
    using assms(2) unfolding queue_ok_def by blast+
  from assms(1) show ?thesis
  proof (cases rule: office_execE)
    case (front_fault e)
    then show ?thesis using rq.first_ok [OF q] at by (simp add: at_queue_def)
  next
    case (pop_fault e)
    then show ?thesis using rq.remove_ok [OF q] at by (auto simp: at_queue_def)
  next
    case (pop q')
    have ne: "queue_list (request_queue s) \<noteq> []" and r: "next_request (offices s i) = hd (queue_list (request_queue s))"
      using at pop(1) by (simp_all add: at_queue_def at_pop_def)
    have q': "queue_inv q'" "queue_list q' = tl (queue_list (request_queue s))"
      using rq.remove_ok [OF q ne] pop(2) by auto
    have "\<not> at_queue (pc s' j)" for j
    proof (cases "j = i")
      case False
      then show ?thesis
        using pop mutex_one_office [OF assms(3,4), of i j] at_queue_holds [of "pc s j"]
        by (auto simp: holds_def)
    qed (use pop in \<open>simp add: at_queue_def\<close>)
    then have "\<not> at_queue (pc s' j)" "\<not> at_pop (pc s' j)" for j
      using at_pop_queue by blast+
    moreover have "pushed s = popped s @ queue_list (request_queue s)"
      using assms(2) by (simp add: queue_ok_def)
    ultimately show ?thesis
      using pop(3) q' ne r by (simp add: queue_ok_def)
  qed (intro queue_ok_cong [OF assms(2)]; auto simp: at_queue_def at_pop_def split: if_splits; fail)+
qed


text \<open>An office that got past \<open>empty\<close> finds a request: \<open>front\<close> and \<open>pop\<close> do not fault.\<close>

lemma office_queue_no_fault:
  assumes "office_exec env i s = Some s'" and "queue_ok s" and "pc s i \<in> {O_Front, O_Count, O_Pop}"
  shows "crashed s' = crashed s"
proof -
  have "queue_inv (request_queue s)" "queue_list (request_queue s) \<noteq> []"
    using assms(2,3) by (auto simp: queue_ok_def at_queue_def)
  then have "front (request_queue s) \<noteq> Inl e" "pop (request_queue s) \<noteq> Inl e" for e
    using rq.first_ok rq.remove_ok by fastforce+
  with assms(1,3) show ?thesis by (cases rule: office_execE) auto
qed

lemma main_exec_queue:
  assumes "main_exec env s = Some s'"
  obtains req where "main_thread s = M_Push req"
  | "request_queue s' = request_queue s" "pushed s' = pushed s"
  using assms by (cases rule: main_execE) simp_all

lemma pushed_grows: "server_step env s e s' \<Longrightarrow> length (pushed s) \<le> length (pushed s')"
  by (induction rule: server_step.induct)
    (auto dest: office_exec_frame(4) elim!: main_execE)

lemma main_queue_ok:
  assumes "main_exec env s = Some s'" and "queue_ok s" and "supplies (env_malloc env)"
    and "length (pushed s) + 1 < 2 ^ 32"
  shows "queue_ok s'"
    and "main_thread s = M_Push req \<Longrightarrow> crashed s' = crashed s \<and> pushed s' = pushed s @ [req]"
proof -
  have q: "queue_inv (request_queue s)" and ps: "pushed s = popped s @ queue_list (request_queue s)"
    using assms(2) by (simp_all add: queue_ok_def)
  have len: "Suc (length (queue_list (request_queue s))) < 2 ^ 32" using assms(4) ps by simp
  have pushes: "\<exists>q'. push (env_malloc env) req (request_queue s) = Inr q' \<and> queue_inv q' \<and>
      queue_list q' = queue_list (request_queue s) @ [req]" for req
    using rq.put_ok [OF assms(3) q len] .
  show "crashed s' = crashed s \<and> pushed s' = pushed s @ [req]" if "main_thread s = M_Push req"
    using assms(1) that pushes [of req] by (cases rule: main_execE) auto
  show "queue_ok s'"
    using assms(1)
  proof (cases rule: main_execE)
    case (push req q')
    then show ?thesis
      using pushes [of req] assms(2) by (auto simp: queue_ok_def hd_append dest: at_pop_queue)
  next
    case (push_fault req e)
    then show ?thesis using pushes [of req] by auto
  qed (intro queue_ok_cong [OF assms(2)]; auto simp: at_queue_def at_pop_def split: if_splits; fail)+
qed

lemma step_queue_ok:
  assumes "server_step env s e s'" and "queue_ok s" and "mutex_inv s" and "\<not> shutdown s"
    and "supplies (env_malloc env)" and "length (pushed s) + 1 < 2 ^ 32"
  shows "queue_ok s'"
  using assms(1)
proof (cases rule: server_step.cases)
  case (office i)
  then show ?thesis using office_queue_ok assms by blast
next
  case main
  then show ?thesis using main_queue_ok assms by blast
qed (intro queue_ok_cong [OF assms(2)]; auto simp: at_queue_def at_pop_def split: if_splits; fail)+

lemma init_queue_ok: "queue_ok (init_server env n b fs)"
  by (simp add: queue_ok_def init_server_def at_queue_def at_pop_def)

lemma shutdown_stays: "server_step env s e s' \<Longrightarrow> \<not> shutdown s' \<Longrightarrow> \<not> shutdown s"
  by (induction rule: server_step.induct)
    (auto dest: office_exec_frame(5) elim!: main_execE)

text \<open>The conditions under which the queue is in order: not shut down, memory, fewer than \<open>2 ^ 32\<close> requests.\<close>

definition serving :: "server_env \<Rightarrow> server \<Rightarrow> bool" where
  "serving env s \<longleftrightarrow> \<not> shutdown s \<and> supplies (env_malloc env) \<and> length (pushed s) + 1 < 2 ^ 32"

lemma serving_before: "server_step env s e s' \<Longrightarrow> serving env s' \<Longrightarrow> serving env s"
  using shutdown_stays [of env s e s'] pushed_grows [of env s e s'] by (auto simp: serving_def)

interpretation queue: guarded_invariant "server_start env" "server_step env" "serving env"
  "\<lambda>s. mutex_inv s \<and> queue_ok s" for env
proof unfold_locales
  fix s e s'
  assume "server_step env s e s'" "serving env s'" "mutex_inv s \<and> queue_ok s"
  then show "mutex_inv s' \<and> queue_ok s'"
    using serving_before [of env s e s'] step_queue_ok [of env s e s'] step_mutex_inv [of env s e s']
    by (auto simp: serving_def)
qed (auto simp: server_start_def init_mutex_inv init_queue_ok dest: serving_before)

end
