(* ===== verification/Service.thy ===== *)
theory Service
  imports Dispatch
begin

text \<open>
  The replies in every reachable state of the server: every reply written is that of an
  acknowledged request to its client, or answers a shutdown request. How the offices'
  accesses to the accounts interleave does not matter for it.
\<close>

section \<open>Replies\<close>

fun shutdown_request_of :: "main_pc \<Rightarrow> tlv_request option" where
  "shutdown_request_of (M_Shutdown req) = Some req"
| "shutdown_request_of (M_Refuse req reply) = Some req"
| "shutdown_request_of (M_Broadcast req reply) = Some req"
| "shutdown_request_of (M_Answer req reply) = Some req"
| "shutdown_request_of _ = None"

definition answers :: "server \<Rightarrow> u32 \<times> tlv_reply \<Rightarrow> bool" where
  "answers s m \<longleftrightarrow> rep_type (snd m) = OP_SHUTDOWN \<or>
     (\<exists>r. (r, snd m) \<in> set (acknowledged s) \<and> fst m = hdr_pid (req_hdr r))"

definition has_reply :: "office_pc \<Rightarrow> bool" where
  "has_reply p \<longleftrightarrow> p \<in> {O_Fifo, O_Write}"

definition service_inv :: "server \<Rightarrow> bool" where
  "service_inv s \<longleftrightarrow>
     (\<forall>i. has_reply (pc s i) \<longrightarrow> (next_request (offices s i), office_reply (offices s i)) \<in> set (acknowledged s)) \<and>
     (\<forall>req. shutdown_request_of (main_thread s) = Some req \<longrightarrow> req_type req = OP_SHUTDOWN) \<and>
     (\<forall>m\<in>set (sent s). answers s m)"

lemma service_inv_cong:
  assumes "service_inv s" and "acknowledged s' = acknowledged s"
    and "\<And>i. has_reply (pc s' i) \<Longrightarrow> has_reply (pc s i) \<and>
      next_request (offices s' i) = next_request (offices s i) \<and> office_reply (offices s' i) = office_reply (offices s i)"
    and "\<And>req. shutdown_request_of (main_thread s') = Some req \<Longrightarrow> req_type req = OP_SHUTDOWN"
    and "\<And>m. m \<in> set (sent s') \<Longrightarrow> m \<in> set (sent s) \<or> answers s m"
  shows "service_inv s'"
proof -
  have "answers s' m = answers s m" for m
    using assms(2) by (simp add: answers_def)
  then show ?thesis
    using assms unfolding service_inv_def by metis
qed

lemma office_service_inv:
  assumes "office_exec env i s = Some s'" and "service_inv s"
  shows "service_inv s'"
proof -
  have sd: "shutdown_request_of (main_thread s) = Some req \<Longrightarrow> req_type req = OP_SHUTDOWN" for req
    using assms(2) by (simp add: service_inv_def)
  have hr: "has_reply (pc s i) \<Longrightarrow> (next_request (offices s i), office_reply (offices s i)) \<in> set (acknowledged s)"
    using assms(2) by (simp add: service_inv_def)
  from assms(1) show ?thesis
  proof (cases rule: office_execE)
    case (acknowledged rep)
    then show ?thesis
      using assms(2) by (auto simp: service_inv_def answers_def has_reply_def)
  next
    case reply
    then show ?thesis
      using hr sd by (intro service_inv_cong [OF assms(2)]) (auto simp: has_reply_def answers_def split: if_splits)
  qed (intro service_inv_cong [OF assms(2)]; use sd in \<open>auto simp: has_reply_def split: if_splits\<close>; fail)+
qed

lemma answer_shutdown_sent:
  "m \<in> set (sent (answer_shutdown env req reply p s)) \<Longrightarrow> m \<in> set (sent s) \<or> rep_type (snd m) = req_type req"
  by (auto simp: answer_shutdown_def Let_def attempt_def split: sum.splits prod.splits)

lemma main_service_inv:
  assumes "main_exec env s = Some s'" and "service_inv s"
  shows "service_inv s'"
proof -
  have sd: "shutdown_request_of (main_thread s) = Some req \<Longrightarrow> req_type req = OP_SHUTDOWN" for req
    using assms(2) by (simp add: service_inv_def)
  from assms(1) show ?thesis
  proof (cases rule: main_execE)
    case (refuse req reply)
    then show ?thesis
      using sd answer_shutdown_main [of env req reply M_Read s] answer_shutdown_sent [of _ env req reply M_Read s]
      by (intro service_inv_cong [OF assms(2)]) (auto simp: answers_def)
  next
    case (answer req reply)
    then show ?thesis
      using sd answer_shutdown_main [of env req reply "M_Join 0" s]
        answer_shutdown_sent [of _ env req reply "M_Join 0" s]
      by (intro service_inv_cong [OF assms(2)]) (auto simp: answers_def)
  qed (intro service_inv_cong [OF assms(2)]; use sd in \<open>auto simp: has_reply_def split: if_splits\<close>; fail)+
qed

lemma step_service_inv:
  assumes "server_step env s e s'" and "service_inv s"
  shows "service_inv s'"
  using assms(1)
proof (cases rule: server_step.cases)
  case (office i)
  then show ?thesis using office_service_inv assms(2) by blast
next
  case main
  then show ?thesis using main_service_inv assms(2) by blast
next
  case (receive req)
  then show ?thesis
    by (intro service_inv_cong [OF assms(2)]) (auto simp: receive_def split: if_splits)
next
  case (signal req j)
  then show ?thesis
    by (intro service_inv_cong [OF assms(2)]) (auto simp: after_signal_def has_reply_def split: if_splits)
next
  case (signal_none req)
  then show ?thesis
    by (intro service_inv_cong [OF assms(2)]) (auto simp: after_signal_def)
next
  case (spurious j)
  then show ?thesis
    using assms(2) by (intro service_inv_cong [OF assms(2)]) (auto simp: has_reply_def service_inv_def split: if_splits)
qed

lemma init_service_inv: "service_inv (init_server env n b fs)"
  by (simp add: service_inv_def init_server_def has_reply_def)

interpretation service: transition_invariant "\<lambda>s. s = init_server env n b fs" "server_step env" service_inv for env n b fs
  by unfold_locales (auto intro: init_service_inv step_service_inv)

lemmas steps_service = service.reach_inv

section \<open>Replies and acknowledged requests, one for one\<close>

text \<open>Messages that do not answer a shutdown, as a multiset, and the one that an office is about to write.\<close>

definition office_messages :: "(u32 \<times> tlv_reply) list \<Rightarrow> (u32 \<times> tlv_reply) multiset" where
  "office_messages ms = mset (filter (\<lambda>m. rep_type (snd m) \<noteq> OP_SHUTDOWN) ms)"

definition reply_in_hand :: "office \<Rightarrow> (u32 \<times> tlv_reply) multiset" where
  "reply_in_hand ofc = (if opc ofc \<in> {O_Fifo, O_Write}
     then office_messages [(hdr_pid (req_hdr (next_request ofc)), office_reply ofc)] else {#})"

definition addressed :: "tlv_request \<times> tlv_reply \<Rightarrow> u32 \<times> tlv_reply" where
  "addressed a = (hdr_pid (req_hdr (fst a)), snd a)"

definition delivery_inv :: "server \<Rightarrow> bool" where
  "delivery_inv s \<longleftrightarrow> office_messages (sent s) + over_offices reply_in_hand s =
     office_messages (map addressed (acknowledged s))"

lemma office_messages_append [simp]: "office_messages (xs @ ys) = office_messages xs + office_messages ys"
  by (simp add: office_messages_def)

lemma delivery_inv_cong:
  assumes "delivery_inv s" and "num_threads s' = num_threads s" and "acknowledged s' = acknowledged s"
    and "office_messages (sent s') = office_messages (sent s)"
    and "\<And>j. reply_in_hand (offices s' j) = reply_in_hand (offices s j)"
  shows "delivery_inv s'"
  using assms over_offices_cong [of s' s reply_in_hand] by (simp add: delivery_inv_def)

lemma office_delivery_inv:
  assumes "office_exec env i s = Some s'" and "is_office i s" and "delivery_inv s"
  shows "delivery_inv s'"
proof -
  note f = over_offices_step [OF assms(2) office_exec_frame(1,2) [OF assms(1)], where f = reply_in_hand]
  from assms(1) show ?thesis
    by (cases rule: office_execE; use f assms(3) in \<open>auto simp: delivery_inv_def reply_in_hand_def addressed_def ac_simps\<close>)
qed

lemma answer_shutdown_messages:
  "req_type req = OP_SHUTDOWN \<Longrightarrow> office_messages (sent (answer_shutdown env req reply p s)) = office_messages (sent s)"
  by (auto simp: answer_shutdown_def office_messages_def Let_def attempt_def split: sum.splits prod.splits)

lemma step_delivery_inv:
  assumes "server_step env s e s'" and "delivery_inv s" and "service_inv s"
  shows "delivery_inv s'"
  using assms(1)
proof (cases rule: server_step.cases)
  case (office i)
  then show ?thesis using office_delivery_inv assms(2) by blast
next
  case main
  note frame = main_exec_frame [OF main(3)]
  have sd: "shutdown_request_of (main_thread s) = Some req \<Longrightarrow> req_type req = OP_SHUTDOWN" for req
    using assms(3) by (simp add: service_inv_def)
  have "office_messages (sent s') = office_messages (sent s)"
    using main(3) by (cases rule: main_execE) (use sd answer_shutdown_messages in auto)
  moreover have "reply_in_hand (offices s' j) = reply_in_hand (offices s j)" for j
    using frame(6) [of j] by (auto simp: reply_in_hand_def)
  ultimately show ?thesis using frame(1,4) by (intro delivery_inv_cong [OF assms(2)])
next
  case (signal req j)
  then show ?thesis by (intro delivery_inv_cong [OF assms(2)]) (auto simp: blocked_def reply_in_hand_def)
next
  case (spurious j)
  then show ?thesis by (intro delivery_inv_cong [OF assms(2)]) (auto simp: blocked_def reply_in_hand_def)
qed (intro delivery_inv_cong [OF assms(2)]; simp add: receive_def after_signal_def)+

lemma init_delivery_inv: "delivery_inv (init_server env n b fs)"
  by (simp add: delivery_inv_def init_server_def over_offices_def reply_in_hand_def office_messages_def)

interpretation delivery: transition_invariant "server_start env" "server_step env"
  "\<lambda>s. service_inv s \<and> delivery_inv s" for env
  by unfold_locales
    (auto simp: server_start_def intro: init_service_inv step_service_inv init_delivery_inv step_delivery_inv)

interpretation delivery_from: transition_invariant "\<lambda>s. s = init_server env n b fs" "server_step env"
  "\<lambda>s. service_inv s \<and> delivery_inv s" for env n b fs
  by unfold_locales (auto intro: init_service_inv step_service_inv init_delivery_inv step_delivery_inv)

end
