(* ===== verification/Stalls.thy ===== *)
theory Stalls
  imports Service
begin

text \<open>Runs that leave the server stuck or in undefined behaviour.\<close>

section \<open>An office that locks twice\<close>

definition locked_out :: "nat \<Rightarrow> server \<Rightarrow> bool" where
  "locked_out i s \<longleftrightarrow> is_office i s \<and> \<not> shutdown s \<and> pc s i = O_Lock \<and> queue_mut s = Some i \<and>
     (\<exists>req. main_thread s = M_Lock req)"

lemma locked_out_step:
  assumes "server_step env s e s'" and "mutex_inv s" and "locked_out i s"
  shows "locked_out i s' \<and> main_thread s' = main_thread s \<and> pushed s' = pushed s \<and> popped s' = popped s"
proof -
  have u: "pc s j \<noteq> O_Unlock" for j
    using assms(2,3) unfolding mutex_inv_def locked_out_def by blast
  have m: "queue_mut s = Some i" "pc s i = O_Lock" and ns: "\<not> shutdown s" and i: "is_office i s"
    using assms(3) by (auto simp: locked_out_def)
  obtain req where req: "main_thread s = M_Lock req" using assms(3) by (auto simp: locked_out_def)
  have nh: "\<not> holds (pc s j)" for j
  proof
    assume "holds (pc s j)"
    moreover from this have "j = i" using assms(2) m ns unfolding mutex_inv_def by (metis option.inject)
    ultimately show False using m by (simp add: holds_def)
  qed
  from assms(1) show ?thesis
  proof (cases rule: server_step.cases)
    case (office j)
    from office(4) show ?thesis
      by (cases rule: office_execE) (use nh [of j] u [of j] m ns i req in \<open>auto simp: locked_out_def holds_def is_office_def\<close>)
  next
    case main
    then show ?thesis using req m by (auto simp: main_exec_def)
  next
    case (spurious j)
    then show ?thesis using m ns i req by (auto simp: locked_out_def blocked_def is_office_def)
  qed (use req in auto)
qed


lemmas queue_code = init_def static_queue_def empty_def front_def pop_def push_def load_def

lemmas office_code = office_exec_def Let_def is_office_def queue_code eval_nat_numeral

definition stolen_wakeup :: "tlv_request \<Rightarrow> tlv_request \<Rightarrow> event list" where
  "stolen_wakeup r r' =
     replicate 6 (Office 1) @ [Receive r, Main, Main, Signal 1, Main] @
     replicate 9 (Office 2) @ [Office 1, Office 1, Office 1, Receive r']"

lemma stolen:
  assumes "req_type r \<noteq> OP_SHUTDOWN" and "req_type r' \<noteq> OP_SHUTDOWN"
    and "env_malloc env Map.empty = Some a"
  shows "\<exists>s. run env (stolen_wakeup r r') (init_server env 2 b fs) = Some s \<and> locked_out 1 s \<and>
    main_thread s = M_Lock r'"
  using assms
  by (simp add: stolen_wakeup_def office_code init_server_def main_exec_def blocked_def receive_def locked_out_def)


section \<open>Shutdown that never ends\<close>

lemma validate_request_log [simp]:
  "validate_request sh (b\<lparr>slog := l\<rparr>) req reply = validate_request sh b req reply"
  by (simp add: validate_request_def validate_user_def validate_admin_def account_at_def cong: op_type.case_cong)

text \<open>The main thread is about to answer the shutdown request, or waits for office \<open>i\<close> or an earlier one.\<close>

definition joining :: "nat \<Rightarrow> server \<Rightarrow> bool" where
  "joining i s \<longleftrightarrow> is_office i s \<and>
     (case main_thread s of M_Answer req reply \<Rightarrow> True | M_Join k \<Rightarrow> k < i | _ \<Rightarrow> False)"

lemma joining_step:
  assumes "server_step env s e s'" and "joining i s" and "pc s i \<noteq> O_Done"
  shows "joining i s'"
  using assms(1)
proof (cases rule: server_step.cases)
  case (office j)
  then show ?thesis
    using assms(2) office_exec_frame [OF office(4)] by (simp add: joining_def is_office_def)
next
  case main
  from main(3) show ?thesis
  proof (cases rule: main_execE)
    case (answer req reply)
    then show ?thesis
      using answer_shutdown_main [of env req reply "M_Join 0" s] assms(2)
      by (auto simp: joining_def is_office_def)
  next
    case (join k)
    then have "Suc k \<noteq> i" using assms(3) by auto
    then show ?thesis using join assms(2) by (auto simp: joining_def is_office_def)
  qed (use assms(2) in \<open>auto simp: joining_def is_office_def\<close>)
qed (use assms(2) in \<open>auto simp: joining_def is_office_def\<close>)

text \<open>An office that starts to wait after the broadcast.\<close>

definition lost_wakeup :: "nat \<Rightarrow> server \<Rightarrow> bool" where
  "lost_wakeup i s \<longleftrightarrow> joining i s \<and> pc s i = O_Blocked"

lemma lost_wakeup_step:
  assumes "server_step env s e s'" and "e \<noteq> Spurious i" and "lost_wakeup i s"
  shows "lost_wakeup i s'"
proof -
  have j: "joining i s'" using joining_step [OF assms(1)] assms(3) by (simp add: lost_wakeup_def)
  have b: "pc s i = O_Blocked" and m: "joining i s" using assms(3) by (simp_all add: lost_wakeup_def)
  from assms(1) have "pc s' i = O_Blocked"
  proof (cases rule: server_step.cases)
    case (office k)
    then show ?thesis using b office_exec_frame(2) [OF office(4), of i]
      by (cases "k = i") (auto simp: office_exec_def)
  next
    case main
    from main(3) m b show ?thesis by (cases rule: main_execE) (auto simp: joining_def)
  qed (use assms(2) b m in \<open>auto simp: joining_def\<close>)
  with j show ?thesis by (simp add: lost_wakeup_def)
qed

definition late_wait :: "tlv_request \<Rightarrow> event list" where
  "late_wait sreq = replicate 5 (Office 1) @ [Receive sreq, Main, Main, Office 1]"

lemma late_wait_run:
  assumes "req_type sreq = OP_SHUTDOWN"
    and "validate_request (env_sh env) b sreq (env_reply env) = Inr (True, rep)"
  shows "\<exists>s. run env (late_wait sreq) (init_server env 1 b fs) = Some s \<and> lost_wakeup 1 s"
  using assms
  by (simp add: late_wait_def office_code init_server_def main_exec_def receive_def lost_wakeup_def
      joining_def shutdown_server_def)

text \<open>An office that leaves its loop with the mutex, and one that waits for it.\<close>

definition mutex_abandoned :: "nat \<Rightarrow> nat \<Rightarrow> server \<Rightarrow> bool" where
  "mutex_abandoned i j s \<longleftrightarrow> joining j s \<and> queue_mut s = Some i \<and> pc s j \<in> {O_Lock, O_Woken} \<and>
     (\<forall>k. is_office k s \<longrightarrow> pc s k \<in> {O_Lock, O_Woken, O_Close, O_Done})"

lemma mutex_abandoned_step:
  assumes "server_step env s e s'" and "mutex_abandoned i j s"
  shows "mutex_abandoned i j s'"
proof -
  have m: "joining j s" "queue_mut s = Some i" "pc s j \<in> {O_Lock, O_Woken}"
    and all: "\<And>k. is_office k s \<Longrightarrow> pc s k \<in> {O_Lock, O_Woken, O_Close, O_Done}"
    using assms(2) by (auto simp: mutex_abandoned_def)
  have "joining j s'" using joining_step [OF assms(1) m(1)] m(3) by auto
  moreover from assms(1)
  have "queue_mut s' = Some i \<and> pc s' j = pc s j \<and>
    (\<forall>k. is_office k s' \<longrightarrow> pc s' k \<in> {O_Lock, O_Woken, O_Close, O_Done})"
  proof (cases rule: server_step.cases)
    case (office k)
    from office(4) show ?thesis
      by (cases rule: office_execE)
        (use m all [of k] all office(3) in \<open>auto simp: is_office_def split: if_splits\<close>)
  next
    case main
    from main(3) show ?thesis
      by (cases rule: main_execE) (use m all in \<open>auto simp: is_office_def joining_def\<close>)
  next
    case (spurious k)
    then show ?thesis using all [of k] by (simp add: blocked_def)
  qed (use m in \<open>auto simp: joining_def\<close>)
  ultimately show ?thesis using m(3) by (simp add: mutex_abandoned_def)
qed

definition break_with_mutex :: "tlv_request \<Rightarrow> event list" where
  "break_with_mutex sreq =
     replicate 4 (Office 1) @ [Office 2, Office 2, Receive sreq, Main, Office 1, Main]"

lemma break_with_mutex_run:
  assumes "req_type sreq = OP_SHUTDOWN"
    and "validate_request (env_sh env) b sreq (env_reply env) = Inr (True, rep)"
  shows "\<exists>s. run env (break_with_mutex sreq) (init_server env 2 b fs) = Some s \<and> mutex_abandoned 1 2 s"
proof -
  have two: "k = Suc 0 \<or> k = 2" if "0 < k" "int k \<le> 2" for k using that by auto
  show ?thesis
    using assms two
    by (auto simp add: break_with_mutex_def office_code init_server_def main_exec_def receive_def mutex_abandoned_def
      joining_def shutdown_server_def)
qed

section \<open>The queue without the mutex\<close>

text \<open>Requests that arrive while no office waits stay in the queue.\<close>

definition arrivals :: "tlv_request list \<Rightarrow> event list" where
  "arrivals rs = concat (map (\<lambda>r. [Receive r, Main, Main, Signal_None, Main]) rs)"

lemma run_append: "run env (xs @ ys) s = (case run env xs s of None \<Rightarrow> None | Some t \<Rightarrow> run env ys t)"
  by (induction xs arbitrary: s) (auto split: option.split)

lemma arrivals_simps [simp]:
  "arrivals [] = []" "arrivals (r # rs) = [Receive r, Main, Main, Signal_None, Main] @ arrivals rs"
  by (simp_all add: arrivals_def)

lemma arrivals_run:
  assumes "supplies (env_malloc env)" and "\<forall>r\<in>set rs. req_type r \<noteq> OP_SHUTDOWN"
    and "main_thread s = M_Read" "queue_mut s = None" "crashed s = None" "\<not> someone_blocked s"
    and "queue_inv (request_queue s)" and "length (queue_list (request_queue s)) + length rs < 2 ^ 32"
  shows "\<exists>t. run env (arrivals rs) s = Some t \<and>
    main_thread t = M_Read \<and> queue_mut t = None \<and> crashed t = None \<and>
    queue_inv (request_queue t) \<and> queue_list (request_queue t) = queue_list (request_queue s) @ rs \<and>
    offices t = offices s \<and> num_threads t = num_threads s \<and> shutdown t = shutdown s \<and>
    pushed t = pushed s @ rs \<and> popped t = popped s \<and> acknowledged t = acknowledged s \<and> bank t = (bank s)\<lparr>slog := slog (bank t)\<rparr>"
  using assms(2-)
proof (induction rs arbitrary: s)
  case Nil
  then show ?case by (simp add: arrivals_def)
next
  case (Cons r rs)
  obtain q where q: "push (env_malloc env) r (request_queue s) = Inr q" "queue_inv q"
    "queue_list q = queue_list (request_queue s) @ [r]"
    using rq.put_ok [OF assms(1) Cons.prems(6)] Cons.prems(7) by fastforce
  let ?t = "main_goto M_Read (log_main SYNC_OP_MUTEX_UNLOCK (hdr_account_id (req_hdr r)) (unlock 0
    (after_signal r (main_goto (M_Signal r)
      ((main_goto (M_Push r) ((receive r s)\<lparr>queue_mut := Some 0\<rparr>))\<lparr>request_queue := q, pushed := pushed s @ [r]\<rparr>)))))"
  have nb: "\<not> someone_blocked t" if "offices t = offices s" "num_threads t = num_threads s" for t
    using Cons.prems(5) that by (simp add: someone_blocked_def blocked_def is_office_def)
  have run1: "run env [Receive r, Main, Main, Signal_None, Main] s = Some ?t"
    using Cons.prems q by (simp add: main_exec_def receive_def nb)
  have "\<exists>t. run env (arrivals rs) ?t = Some t \<and>
    main_thread t = M_Read \<and> queue_mut t = None \<and> crashed t = None \<and>
    queue_inv (request_queue t) \<and> queue_list (request_queue t) = queue_list (request_queue ?t) @ rs \<and>
    offices t = offices ?t \<and> num_threads t = num_threads ?t \<and> shutdown t = shutdown ?t \<and>
    pushed t = pushed ?t @ rs \<and> popped t = popped ?t \<and> acknowledged t = acknowledged ?t \<and> bank t = (bank ?t)\<lparr>slog := slog (bank t)\<rparr>"
    by (rule Cons.IH) (use Cons.prems q nb in \<open>auto simp: receive_def\<close>)
  then obtain t where t: "run env (arrivals rs) ?t = Some t" "main_thread t = M_Read" "queue_mut t = None"
      "crashed t = None" "queue_inv (request_queue t)" "queue_list (request_queue t) = queue_list q @ rs"
      "offices t = offices s" "num_threads t = num_threads s" "shutdown t = shutdown s"
      "pushed t = (pushed s @ [r]) @ rs" "popped t = popped s" "bank t = (bank ?t)\<lparr>slog := slog (bank t)\<rparr>"
      "acknowledged t = acknowledged s"
    by auto
  obtain l where l: "bank ?t = (bank s)\<lparr>slog := l\<rparr>"
    using Cons.prems(1) by (auto simp add: after_signal_def receive_def)
  have bank: "bank t = (bank s)\<lparr>slog := slog (bank t)\<rparr>"
    by (rule trans [OF t(12)]) (simp only: l, simp)
  have "run env (arrivals (r # rs)) s = Some t"
    by (simp only: arrivals_simps run_append run1 t(1) option.case)
  then show ?case using t(2-11,13) q(3) bank by auto
qed

text \<open>Two offices that see the flag before they look at the queue.\<close>

definition both_take :: "event list" where
  "both_take = replicate 7 (Office 1) @ replicate 7 (Office 2) @ [Office 1, Office 2]"

lemma both_take_run:
  assumes "pc s 1 = O_Start" "pc s 2 = O_Start" "num_threads s = 2" "shutdown s" "crashed s = None"
    and "queue_inv (request_queue s)" and "queue_list (request_queue s) = r # rs"
  shows "\<exists>t. run env both_take s = Some t \<and> pushed t = pushed s \<and>
    (if rs = [] then crashed t = Some (Undefined NullDeref)
     else crashed t = None \<and> popped t = popped s @ [r, r] \<and> queue_list (request_queue t) = tl rs)"
proof -
  obtain q1 where q1: "pop (request_queue s) = Inr q1" "queue_inv q1" "queue_list q1 = rs"
    using rq.remove_ok [OF assms(6)] assms(7) by auto
  have f: "front (request_queue s) = Inr r" "\<not> empty (request_queue s)"
    using rq.first_ok [OF assms(6)] rq.is_empty_iff [OF assms(6)] assms(7) by auto
  note defs = both_take_def eval_nat_numeral office_exec_def is_office_def Let_def
  note facts = assms [unfolded eval_nat_numeral, simplified] f q1
  show ?thesis
  proof (cases "rs = []")
    case True
    have "\<not> returns (pop q1)" using q1 True by (intro rq.remove_empty) auto
    moreover obtain as where "queue_repr q1 as []" using q1 True by (metis queue_invE)
    ultimately have "pop q1 = Inl (Undefined NullDeref)" using empty_queue_faults by blast
    then show ?thesis using facts True by (simp add: defs)
  next
    case False
    obtain q2 where "pop q1 = Inr q2" "queue_list q2 = tl rs"
      using rq.remove_ok [OF q1(2)] q1(3) False by auto
    then show ?thesis using facts False by (simp add: defs)
  qed
qed

definition double_take :: "tlv_request list \<Rightarrow> tlv_request \<Rightarrow> event list" where
  "double_take rs sreq = arrivals rs @ [Receive sreq, Main] @ both_take"

lemma double_take_run:
  assumes "supplies (env_malloc env)" and "\<forall>x\<in>set (r # rs). req_type x \<noteq> OP_SHUTDOWN"
    and "length (r # rs) < 2 ^ 32" and "req_type sreq = OP_SHUTDOWN"
    and "validate_request (env_sh env) b sreq (env_reply env) = Inr (True, rep)"
  shows "\<exists>t. run env (double_take (r # rs) sreq) (init_server env 2 b fs) = Some t \<and> pushed t = r # rs \<and>
    (if rs = [] then crashed t = Some (Undefined NullDeref)
     else crashed t = None \<and> popped t = [r, r] \<and> queue_list (request_queue t) = tl rs)"
proof -
  let ?s = "init_server env 2 b fs"
  have s: "main_thread ?s = M_Read" "queue_mut ?s = None" "crashed ?s = None" "\<not> someone_blocked ?s"
    "queue_inv (request_queue ?s)" "queue_list (request_queue ?s) = []" "pushed ?s = []" "popped ?s = []"
    "bank ?s = b" "num_threads ?s = 2" "pc ?s 1 = O_Start" "pc ?s 2 = O_Start"
    by (auto simp: init_server_def someone_blocked_def blocked_def list_ex_iff)
  obtain t where t: "run env (arrivals (r # rs)) ?s = Some t" "main_thread t = M_Read" "crashed t = None"
    "queue_inv (request_queue t)" "queue_list (request_queue t) = r # rs" "offices t = offices ?s"
    "num_threads t = 2" "pushed t = r # rs" "popped t = []" "bank t = b\<lparr>slog := slog (bank t)\<rparr>"
    using arrivals_run [OF assms(1,2) s(1-5)] assms(3) s by auto
  have v: "validate_request (env_sh env) (bank t) sreq (env_reply env) = Inr (True, rep)"
    by (subst t(10)) (use assms(5) in simp)
  obtain u where u: "run env [Receive sreq, Main] t = Some u" "crashed u = None" "shutdown u"
    "request_queue u = request_queue t" "offices u = offices t" "num_threads u = 2"
    "pushed u = r # rs" "popped u = []"
    using t assms(4) v by (auto simp: main_exec_def receive_def shutdown_server_def)
  have "pc u 1 = O_Start" "pc u 2 = O_Start" using u t s by simp_all
  from both_take_run [OF this u(6,3,2) t(4,5) [folded u(4)], of env] u(7,8)
  obtain w where w: "run env both_take u = Some w" "pushed w = r # rs"
    "if rs = [] then crashed w = Some (Undefined NullDeref)
     else crashed w = None \<and> popped w = [r, r] \<and> queue_list (request_queue w) = tl rs"
    by auto
  have "run env (double_take (r # rs) sreq) ?s = Some w"
    unfolding double_take_def run_append t(1) option.case u(1) w(1) ..
  with w(2,3) show ?thesis by blast
qed

end
