(* ===== verification/Closing.thy ===== *)
theory Closing
  imports Service
begin

text \<open>
  A shutdown that ends: when every office sleeps on the condition variable and the queue is
  empty, the broadcast lets each office leave, the main thread joins them all and the
  process exits. Every run from there is bounded, and none gets stuck before the exit.
\<close>

section \<open>The states of such a shutdown\<close>

definition leaving :: "office_pc \<Rightarrow> bool" where
  "leaving p \<longleftrightarrow> p \<in> {O_Woken, O_Second, O_Top, O_Unlock, O_Empty, O_Shut, O_Close, O_Done}"

definition owns :: "office_pc \<Rightarrow> bool" where
  "owns p \<longleftrightarrow> p \<in> {O_Second, O_Top, O_Unlock}"

fun joined :: "main_pc \<Rightarrow> int \<Rightarrow> nat \<Rightarrow> bool" where
  "joined (M_Join k) n i \<longleftrightarrow> i \<le> k"
| "joined M_Close n i \<longleftrightarrow> True"
| "joined M_Exit n i \<longleftrightarrow> True"
| "joined _ n i \<longleftrightarrow> False"

fun closing_main :: "server_env \<Rightarrow> main_pc \<Rightarrow> bool" where
  "closing_main env (M_Broadcast req reply) = (\<forall>fs. returns (user_fifo_create (env_fs env) (sint (hdr_pid (req_hdr req))) fs))"
| "closing_main env (M_Answer req reply) = (\<forall>fs. returns (user_fifo_create (env_fs env) (sint (hdr_pid (req_hdr req))) fs))"
| "closing_main env (M_Join k) = True"
| "closing_main env M_Close = True"
| "closing_main env M_Exit = True"
| "closing_main env _ = False"

fun broadcasting :: "main_pc \<Rightarrow> bool" where
  "broadcasting (M_Broadcast req reply) = True"
| "broadcasting _ = False"

definition closing :: "server_env \<Rightarrow> server \<Rightarrow> bool" where
  "closing env s \<longleftrightarrow>
     crashed s = None \<and> shutdown s \<and> empty (request_queue s) \<and> closing_main env (main_thread s) \<and>
     (\<forall>i. is_office i s \<longrightarrow> leaving (pc s i) \<or> broadcasting (main_thread s) \<and> pc s i = O_Blocked) \<and>
     (\<forall>i. is_office i s \<longrightarrow> owns (pc s i) \<longrightarrow> queue_mut s = Some i) \<and>
     (\<forall>j. queue_mut s = Some j \<longrightarrow> is_office j s \<and> owns (pc s j)) \<and>
     (\<forall>i. is_office i s \<longrightarrow> joined (main_thread s) (num_threads s) i \<longrightarrow> pc s i = O_Done) \<and>
     (main_thread s = M_Exit \<longrightarrow> SERVER_FIFO_PATH \<notin> set (fifos s))"

fun office_rank :: "office_pc \<Rightarrow> nat" where
  "office_rank O_Blocked = 8"
| "office_rank O_Woken = 7"
| "office_rank O_Second = 6"
| "office_rank O_Top = 5"
| "office_rank O_Unlock = 4"
| "office_rank O_Empty = 3"
| "office_rank O_Shut = 2"
| "office_rank O_Close = 1"
| "office_rank _ = 0"

fun main_rank :: "main_pc \<Rightarrow> nat \<Rightarrow> nat" where
  "main_rank (M_Broadcast req reply) n = n + 4"
| "main_rank (M_Answer req reply) n = n + 3"
| "main_rank (M_Join k) n = n - k + 2"
| "main_rank M_Close n = 1"
| "main_rank _ n = 0"

definition steps_left :: "server \<Rightarrow> nat" where
  "steps_left s = main_rank (main_thread s) (nat (num_threads s)) +
     (\<Sum>i\<in>office_set s. office_rank (pc s i))"

section \<open>Every step keeps the invariant and counts down\<close>

text \<open>With the flag set and the queue empty an office only takes, keeps and gives back the mutex.\<close>

lemma leaving_exec:
  assumes "office_exec env i s = Some s'" and "leaving (pc s i)" and "shutdown s" "empty (request_queue s)"
  shows "leaving (pc s' i) \<and> office_rank (pc s' i) < office_rank (pc s i) \<and> crashed s' = crashed s \<and>
    request_queue s' = request_queue s \<and> fifos s' = fifos s"
    and "owns (pc s' i) \<longrightarrow> owns (pc s i) \<and> queue_mut s' = queue_mut s \<or> queue_mut s = None \<and> queue_mut s' = Some i"
    and "\<not> owns (pc s' i) \<longrightarrow> owns (pc s i) \<and> queue_mut s' = None \<or> \<not> owns (pc s i) \<and> queue_mut s' = queue_mut s"
    and "pc s i \<noteq> O_Done"
  using assms(1)
  by (cases rule: office_execE; use assms(2-) in \<open>simp add: leaving_def owns_def; fail\<close>)+

lemma office_closing:
  assumes "office_exec env i s = Some s'" and "is_office i s" and "closing env s"
  shows "closing env s' \<and> office_rank (pc s' i) < office_rank (pc s i)"
proof -
  have live: "crashed s = None" "shutdown s" "empty (request_queue s)" "closing_main env (main_thread s)"
    and fif: "main_thread s = M_Exit \<longrightarrow> SERVER_FIFO_PATH \<notin> set (fifos s)"
    and pcs: "\<And>j. is_office j s \<Longrightarrow> leaving (pc s j) \<or> broadcasting (main_thread s) \<and> pc s j = O_Blocked"
    and own: "\<And>j. is_office j s \<Longrightarrow> owns (pc s j) \<Longrightarrow> queue_mut s = Some j"
    and mut: "\<And>j. queue_mut s = Some j \<Longrightarrow> is_office j s \<and> owns (pc s j)"
    and fin: "\<And>j. is_office j s \<Longrightarrow> joined (main_thread s) (num_threads s) j \<Longrightarrow> pc s j = O_Done"
    using assms(3) unfolding closing_def by blast+
  have i: "leaving (pc s i)" using pcs [OF assms(2)] assms(1) by (auto simp: office_exec_def)
  note x = leaving_exec [OF assms(1) i live(2,3)]
  note frame = office_exec_frame [OF assms(1)]
  have off: "is_office j s' = is_office j s" for j using frame(1) by (rule is_office_cong)
  have other: "pc s' j = pc s j" if "j \<noteq> i" for j using frame(2) that by simp
  have own': "queue_mut s' = Some j" if "is_office j s" "owns (pc s' j)" for j
    using own [of j] own [of i] other [of j] x(2,3) that assms(2) by (metis option.distinct(1) option.inject)
  have mut': "is_office j s \<and> owns (pc s' j)" if "queue_mut s' = Some j" for j
    using mut [of j] own [of i] other [of j] x(2,3) that assms(2) by (metis option.distinct(1) option.inject)
  have pcs': "leaving (pc s' j) \<or> broadcasting (main_thread s) \<and> pc s' j = O_Blocked" if "is_office j s" for j
    using pcs [OF that] other [of j] x(1) by (cases "j = i") auto
  have fin': "pc s' j = O_Done" if "is_office j s" "joined (main_thread s) (num_threads s) j" for j
    using fin [OF that] other [of j] x(4) by (cases "j = i") auto
  have c: "crashed s' = None" "shutdown s'" "empty (request_queue s')" "fifos s' = fifos s"
    "office_rank (pc s' i) < office_rank (pc s i)"
    using x(1) live frame(5) by simp_all
  show ?thesis
    unfolding closing_def off frame(1,3) c(4)
    using c(1-3,5) live(4) fif own' mut' pcs' fin' by blast
qed

lemma answer_shutdown_ok:
  assumes "returns (user_fifo_create (env_fs env) (sint (hdr_pid (req_hdr req))) (fifos s))"
  shows "main_thread (answer_shutdown env req reply m s) = m"
    and "crashed (answer_shutdown env req reply m s) = crashed s"
  using assms by (auto simp: answer_shutdown_def Let_def returns_iff split: prod.splits)

lemma main_closing_facts:
  assumes "main_exec env s = Some s'" and "closing env s"
  shows "closing_main env (main_thread s')" and "\<not> broadcasting (main_thread s')"
    and "main_rank (main_thread s') (nat (num_threads s)) < main_rank (main_thread s) (nat (num_threads s))"
    and "crashed s' = crashed s" "shutdown s' = shutdown s" "queue_mut s' = queue_mut s"
    and "request_queue s' = request_queue s"
    and "broadcasting (main_thread s) \<and> offices s' = offices (wake_all s) \<or>
      \<not> broadcasting (main_thread s) \<and> offices s' = offices s"
    and "joined (main_thread s') (num_threads s) i \<Longrightarrow> is_office i s \<Longrightarrow>
      pc s i = O_Done \<or> joined (main_thread s) (num_threads s) i"
    and "main_thread s' = M_Exit \<longrightarrow> SERVER_FIFO_PATH \<notin> set (fifos s')"
proof -
  have m: "closing_main env (main_thread s)" using assms(2) by (simp add: closing_def)
  show "closing_main env (main_thread s')" "\<not> broadcasting (main_thread s')"
    "main_rank (main_thread s') (nat (num_threads s)) < main_rank (main_thread s) (nat (num_threads s))"
    "crashed s' = crashed s" "shutdown s' = shutdown s" "queue_mut s' = queue_mut s"
    "request_queue s' = request_queue s"
    "broadcasting (main_thread s) \<and> offices s' = offices (wake_all s) \<or>
      \<not> broadcasting (main_thread s) \<and> offices s' = offices s"
    "main_thread s' = M_Exit \<longrightarrow> SERVER_FIFO_PATH \<notin> set (fifos s')"
    using assms(1) by (cases rule: main_execE; use m in \<open>simp add: answer_shutdown_ok\<close>)+
  show "pc s i = O_Done \<or> joined (main_thread s) (num_threads s) i"
    if "joined (main_thread s') (num_threads s) i" "is_office i s"
    using assms(1) by (cases rule: main_execE; use m that in \<open>auto simp: answer_shutdown_ok is_office_def le_Suc_eq\<close>)
qed

lemma closingD:
  assumes "closing env s"
  shows "crashed s = None \<and> shutdown s \<and> empty (request_queue s) \<and> closing_main env (main_thread s)"
    and "is_office j s \<Longrightarrow> leaving (pc s j) \<or> broadcasting (main_thread s) \<and> pc s j = O_Blocked"
    and "queue_mut s = Some j \<Longrightarrow> is_office j s \<and> owns (pc s j)"
    and "is_office j s \<Longrightarrow> joined (main_thread s) (num_threads s) j \<Longrightarrow> pc s j = O_Done"
    and "main_thread s = M_Exit \<longrightarrow> SERVER_FIFO_PATH \<notin> set (fifos s)"
  using assms unfolding closing_def by blast+

text \<open>Steps that only wake sleeping offices and move the main thread.\<close>

lemma closing_wakes:
  assumes "closing env s"
    and same: "num_threads s' = num_threads s" "crashed s' = crashed s" "shutdown s' = shutdown s"
      "request_queue s' = request_queue s" "queue_mut s' = queue_mut s"
    and wakes: "\<And>j. is_office j s \<Longrightarrow> pc s' j = pc s j \<or> pc s j = O_Blocked \<and> pc s' j = O_Woken"
    and sleep: "\<And>j. is_office j s \<Longrightarrow> pc s' j = O_Blocked \<Longrightarrow> broadcasting (main_thread s')"
    and main: "closing_main env (main_thread s')"
      "main_thread s' = M_Exit \<longrightarrow> SERVER_FIFO_PATH \<notin> set (fifos s')"
    and fin: "\<And>j. is_office j s \<Longrightarrow> joined (main_thread s') (num_threads s) j \<Longrightarrow>
      pc s j = O_Done \<or> joined (main_thread s) (num_threads s) j"
  shows "closing env s'"
    and "(\<Sum>i\<in>office_set s. office_rank (pc s' i)) \<le> (\<Sum>i\<in>office_set s. office_rank (pc s i))"
proof -
  have off: "is_office j s' = is_office j s" for j using same(1) by (rule is_office_cong)
  have live: "crashed s' = None" "shutdown s'" "empty (request_queue s')"
    using closingD(1) [OF assms(1)] same by simp_all
  have lv: "leaving (pc s' j) \<or> broadcasting (main_thread s') \<and> pc s' j = O_Blocked" if "is_office j s" for j
    using wakes [OF that] sleep [OF that] closingD(2) [OF assms(1) that] by (auto simp: leaving_def)
  have ow: "owns (pc s' j) = owns (pc s j)" if "is_office j s" for j
    using wakes [OF that] by (auto simp: owns_def)
  have fin': "pc s' j = O_Done" if "is_office j s" "joined (main_thread s') (num_threads s) j" for j
  proof -
    have "pc s j = O_Done" using fin [OF that] closingD(4) [OF assms(1) that(1)] by blast
    then show ?thesis using wakes [OF that(1)] by auto
  qed
  have own: "\<forall>j. is_office j s \<longrightarrow> owns (pc s j) \<longrightarrow> queue_mut s = Some j"
    "\<forall>j. queue_mut s = Some j \<longrightarrow> is_office j s \<and> owns (pc s j)"
    using assms(1) unfolding closing_def by blast+
  show "closing env s'"
    unfolding closing_def off same(1,5) using live main lv ow own fin' by blast
  have "office_rank (pc s' j) \<le> office_rank (pc s j)" if "is_office j s" for j
    using wakes [OF that] by auto
  then show "(\<Sum>i\<in>office_set s. office_rank (pc s' i)) \<le> (\<Sum>i\<in>office_set s. office_rank (pc s i))"
    by (intro sum_mono) (simp add: office_set_iff)
qed

lemma main_closing:
  assumes "main_exec env s = Some s'" and "closing env s"
  shows "closing env s'" and "steps_left s' < steps_left s"
proof -
  note x = main_closing_facts [OF assms]
  have n: "num_threads s' = num_threads s" using main_exec_frame(1) [OF assms(1)] .
  have wakes: "pc s' j = pc s j \<or> pc s j = O_Blocked \<and> pc s' j = O_Woken" for j
    using x(8) by (auto split: if_splits)
  have sleep: "pc s' j \<noteq> O_Blocked" if "is_office j s" for j
    using x(8) closingD(2) [OF assms(2) that] by (auto simp: leaving_def)
  note w = closing_wakes [OF assms(2) n x(4,5,7,6) wakes _ x(1,10)]
  show "closing env s'" by (rule w(1)) (use sleep x(9) in auto)
  have "(\<Sum>i\<in>office_set s. office_rank (pc s' i)) \<le> (\<Sum>i\<in>office_set s. office_rank (pc s i))"
    by (rule w(2)) (use sleep x(9) in auto)
  then show "steps_left s' < steps_left s"
    using x(3) by (simp add: steps_left_def n office_set_cong [OF n])
qed

lemma office_steps_left:
  assumes "office_exec env i s = Some s'" and "is_office i s" and "closing env s"
  shows "steps_left s' < steps_left s"
proof -
  note frame = office_exec_frame [OF assms(1)]
  have "(\<Sum>j\<in>office_set s. office_rank (pc s' j)) + office_rank (pc s i) =
      (\<Sum>j\<in>office_set s. office_rank (pc s j)) + office_rank (pc s' i)"
    by (rule sum_change_at) (use frame(2) assms(2) in \<open>auto simp: office_set_iff\<close>)
  then show ?thesis
    using office_closing [OF assms] frame by (simp add: steps_left_def office_set_cong [OF frame(1)])
qed

text \<open>A spurious wake-up before the broadcast.\<close>

lemma spurious_closing:
  assumes "blocked i s" and "closing env s"
  shows "closing env (wake i s)" and "steps_left (wake i s) < steps_left s"
proof -
  have b: "is_office i s" "pc s i = O_Blocked" using assms(1) by (simp_all add: blocked_def)
  have sleep: "broadcasting (main_thread s)" if "is_office j s" "pc s j = O_Blocked" for j
    using closingD(2) [OF assms(2) that(1)] that(2) by (auto simp: leaving_def)
  show "closing env (wake i s)"
    by (rule closing_wakes(1) [OF assms(2)])
      (use b sleep closingD(1,5) [OF assms(2)] in \<open>auto split: if_splits\<close>)
  have "(\<Sum>j\<in>office_set s. office_rank (pc (wake i s) j)) + office_rank (pc s i) =
      (\<Sum>j\<in>office_set s. office_rank (pc s j)) + office_rank (pc (wake i s) i)"
    by (rule sum_change_at) (use b in \<open>auto simp: office_set_iff\<close>)
  then show "steps_left (wake i s) < steps_left s"
    using b by (simp add: steps_left_def office_set_cong [of "wake i s" s])
qed

lemma step_closing:
  assumes "server_step env s e s'" and "closing env s"
  shows "closing env s' \<and> steps_left s' < steps_left s"
  using assms(1)
proof (cases rule: server_step.cases)
  case (office i)
  then show ?thesis using office_closing office_steps_left assms(2) by blast
next
  case main
  then show ?thesis using main_closing assms(2) by blast
next
  case (spurious j)
  then show ?thesis using spurious_closing assms(2) by blast
qed (use closingD(1) [OF assms(2)] in auto)

section \<open>Progress\<close>

lemma owner_moves:
  assumes "closing env s" and "queue_mut s = Some j"
  shows "is_office j s" and "office_exec env j s \<noteq> None"
  using closingD(3) [OF assms] by (auto simp: owns_def office_exec_def Let_def)

lemma leaving_moves:
  assumes "closing env s" and "is_office i s" and "leaving (pc s i)" and "pc s i \<noteq> O_Done"
  shows "\<exists>j. is_office j s \<and> office_exec env j s \<noteq> None"
proof (cases "queue_mut s")
  case None
  then have "office_exec env i s \<noteq> None"
    using assms(3,4) by (auto simp: leaving_def office_exec_def Let_def)
  then show ?thesis using assms(2) by blast
next
  case (Some j)
  then show ?thesis using owner_moves [OF assms(1)] by blast
qed

lemma closing_progress:
  assumes "closing env s" and "main_thread s \<noteq> M_Exit"
  shows "\<exists>e s'. server_step env s e s' \<and> (\<forall>j. e \<noteq> Spurious j)"
proof -
  have c: "crashed s = None" "closing_main env (main_thread s)" using closingD(1) [OF assms(1)] by simp_all
  show ?thesis
  proof (cases "main_exec env s")
    case (Some s')
    then show ?thesis using server_step.main [OF c(1)] by blast
  next
    case None
    then obtain k where k: "main_thread s = M_Join k" "int k < num_threads s" "pc s (Suc k) \<noteq> O_Done"
      using c(2) assms(2) by (cases "main_thread s") (auto simp: main_exec_def split: if_splits)
    then have i: "is_office (Suc k) s" by (simp add: is_office_def)
    then have "leaving (pc s (Suc k))" using closingD(2) [OF assms(1) i] k(1) by simp
    from leaving_moves [OF assms(1) i this k(3)]
    show ?thesis using server_step.office [OF c(1)] by blast
  qed
qed

lemma run_closing:
  "run env es s = Some t \<Longrightarrow> closing env s \<Longrightarrow> closing env t \<and> length es + steps_left t \<le> steps_left s"
proof (induction es arbitrary: s)
  case (Cons e es)
  then obtain u where u: "exec env e s = Some u" "run env es u = Some t"
    by (auto split: option.splits)
  then have "closing env u \<and> steps_left u < steps_left s"
    using Cons.prems(2) step_closing by (simp add: server_step_iff_exec)
  then show ?case using Cons.IH [OF u(2)] by simp
qed simp

end
