(* ===== verification/Serial.thy ===== *)
theory Serial
  imports Service
begin

text \<open>
  Runs in which the offices process one request at a time: never two of them are inside
  \<open>acknowledge_request\<close> at once. Then the accounts are those of a sequence of whole calls of
  \<open>acknowledge_request\<close>, in the order in which the calls ended. Nothing in the code
  enforces this as soon as there are two offices; \<open>Races\<close> shows what happens otherwise.
\<close>

section \<open>Sequences of whole requests\<close>

text \<open>
  The bank after a list of acknowledged requests and their replies, when each is one call
  of \<open>acknowledge_request\<close>, by some office with some contents of its reply variable.
\<close>

inductive history :: "shell \<Rightarrow> (nat \<Rightarrow> nat) \<Rightarrow> bank \<Rightarrow> (tlv_request \<times> tlv_reply) list \<Rightarrow> bank \<Rightarrow> bool"
  for sh rnd b where
  nothing: "history sh rnd b [] b"
| request: "history sh rnd b acks b1 \<Longrightarrow> acknowledge_request sh rnd k r reply b1 = Inr (rep, b2) \<Longrightarrow>
    history sh rnd b (acks @ [(r, rep)]) b2"

lemma history_funds:
  "history sh rnd b acks b' \<Longrightarrow> bank_ok b \<Longrightarrow>
    bank_ok b' \<and> total_funds b' = total_funds b + (\<Sum>(r, rep)\<leftarrow>acks. deposit r rep)"
  by (induction rule: history.induct) (auto dest!: acknowledge_effect)

text \<open>
  The same with the specification in the place of the handler. Its state is a ledger and the
  passwords that each account accepts; a creation may choose any salt of 63 letters and digits.
\<close>

definition spec_reply :: "tlv_request \<Rightarrow> tlv_reply \<Rightarrow> ledger \<Rightarrow> bool" where
  "spec_reply r rep L \<longleftrightarrow> rep_type rep = req_type r \<and> rep_length rep = 12 \<and>
     rhd_account_id (rep_header (rep_val rep)) = hdr_account_id (req_hdr r) \<and>
     (rep_code rep = RC_OK \<and> req_type r \<in> {OP_BALANCE, OP_TRANSFER} \<longrightarrow>
        L (unat (hdr_account_id (req_hdr r))) = Some (unat (rep_word (rep_val rep))))"

inductive spec_history :: "(string \<Rightarrow> string) \<Rightarrow> ledger \<times> (nat \<Rightarrow> string \<Rightarrow> bool) \<Rightarrow>
    (tlv_request \<times> tlv_reply) list \<Rightarrow> ledger \<times> (nat \<Rightarrow> string \<Rightarrow> bool) \<Rightarrow> bool"
  for digest start where
  nothing: "spec_history digest start [] start"
| request: "spec_history digest start acks (L, auth) \<Longrightarrow>
    (rep_code rep, L') = spec_request auth r L \<Longrightarrow> length salt = 63 \<Longrightarrow> alnum salt \<Longrightarrow>
    auth' = spec_auth digest salt r (rep_code rep) auth \<Longrightarrow> spec_reply r rep L' \<Longrightarrow>
    spec_history digest start (acks @ [(r, rep)]) (L', auth')"

lemma history_refines:
  assumes "history sh rnd b acks b'" and "sha256_shell sh digest" and "bank_ok b"
    and "\<forall>a \<in> set acks. request_ok (fst a)"
  shows "spec_history digest (ledger b, accepts digest b) acks (ledger b', accepts digest b')"
  using assms
proof (induction rule: history.induct)
  case nothing
  show ?case by (rule spec_history.nothing)
next
  case (request acks b1 k r reply rep b2)
  then have ok: "bank_ok b1" "request_ok r" using history_funds by auto
  note ack = request.hyps(2)
  have "(rep_code rep, ledger b2) = spec_request (accepts digest b1) r (ledger b1)"
    using acknowledge_refines [OF assms(2) ok, of rnd k reply] ack by auto
  moreover have "accepts digest b2 = spec_auth digest (new_salt rnd b1) r (rep_code rep) (accepts digest b1)"
    by (rule acknowledge_auth [OF ack ok(1) assms(2) ok(2)])
  moreover have "spec_reply r rep (ledger b2)"
    using acknowledge_effect [OF ack ok(1)] acknowledge_balance [OF ack ok(1)] by (simp add: spec_reply_def message_sizes)
  ultimately show ?case
    using request by (intro spec_history.request [where salt = "new_salt rnd b1"]) auto
qed

section \<open>What processing depends on\<close>

text \<open>Two states of the globals with the same accounts and random numbers; the logs may differ.\<close>

definition same_accounts :: "bank \<Rightarrow> bank \<Rightarrow> bool" where
  "same_accounts b b' \<longleftrightarrow> accounts b = accounts b' \<and> rand_pos b = rand_pos b'"

lemma same_accounts_refl [simp]: "same_accounts b b"
  by (simp add: same_accounts_def)

lemma same_accounts_log [simp]: "same_accounts b (b'\<lparr>slog := l\<rparr>) = same_accounts b b'"
  by (simp add: same_accounts_def)

lemma same_account_at: "same_accounts b b' \<Longrightarrow> account_at b i = account_at b' i"
  by (simp add: same_accounts_def account_at_def)

lemma transfer_exec_same:
  assumes "transfer_exec th b = Inr (th', b1)" and "same_accounts b b'"
  shows "\<exists>b1'. transfer_exec th b' = Inr (th', b1') \<and> same_accounts b1 b1'"
  using assms(1) same_account_at [OF assms(2)] assms(2)
  by (cases "t_pc th") (auto simp: transfer_exec_def Let_def bind_res_eq_Inr same_accounts_def split: if_splits)

lemma process_exec_same:
  assumes "process_exec sh rnd k req w reply b = Inr (w', r, b1)" and "same_accounts b b'"
  shows "\<exists>b1'. process_exec sh rnd k req w reply b' = Inr (w', r, b1') \<and> same_accounts b1 b1'"
proof -
  note at = same_account_at [OF assms(2)]
  have same: "accounts b = accounts b'" "rand_pos b = rand_pos b'" "new_salt rnd b = new_salt rnd b'"
    using assms(2) by (simp_all add: same_accounts_def new_salt_def)
  show ?thesis
  proof (cases w)
    case (P_Transfer th)
    show ?thesis
    proof (cases "transfer_exec th b")
      case (Inl e)
      then show ?thesis using assms(1) P_Transfer by simp
    next
      case (Inr x)
      obtain th' b2 where x: "x = (th', b2)" by (cases x)
      from transfer_exec_same [OF _ assms(2), of th th' b2] Inr x assms(1) P_Transfer show ?thesis
        by (auto split: if_splits)
    qed
  next
    case (P_Compare h)
    then show ?thesis
      using assms at by (cases "account_at b' (hdr_account_id (req_hdr req))") (auto split: if_splits)
  qed (use assms(1) at same in \<open>auto simp: bind_res_eq_Inr login_step_def in_use_step_def store_def
      check_user_balance_def same_accounts_def usleep_def Let_def split: if_splits op_type.splits\<close>)
qed

section \<open>One request at a time\<close>

definition one_at_a_time :: "server \<Rightarrow> bool" where
  "one_at_a_time s \<longleftrightarrow> (\<forall>i j. pc s i = O_Ack \<longrightarrow> pc s j = O_Ack \<longrightarrow> i = j)"

lemma one_at_a_timeD: "one_at_a_time s \<Longrightarrow> pc s i = O_Ack \<Longrightarrow> pc s j = O_Ack \<Longrightarrow> j = i"
  by (simp add: one_at_a_time_def)

definition serial_step :: "server_env \<Rightarrow> server \<Rightarrow> event \<Rightarrow> server \<Rightarrow> bool" where
  "serial_step env s e s' \<longleftrightarrow> server_step env s e s' \<and> one_at_a_time s'"

text \<open>
  A call that is under way started with \<open>reply\<close> from the bank \<open>b0\<close> after the calls that have ended,
  and has made some number of its accesses.
\<close>

definition under_way :: "server_env \<Rightarrow> bank \<Rightarrow> server \<Rightarrow> nat \<Rightarrow> bool" where
  "under_way env b0 s i \<longleftrightarrow> (\<exists>n reply b1.
     process (env_sh env) (env_rnd env) (int i) (next_request (offices s i)) n P_Begin reply b0 =
       Inr (progress (offices s i), office_reply (offices s i), b1) \<and> same_accounts b1 (bank s))"

definition serial_inv :: "server_env \<Rightarrow> bank \<Rightarrow> server \<Rightarrow> bool" where
  "serial_inv env b s \<longleftrightarrow> one_at_a_time s \<and>
     (\<exists>b0. history (env_sh env) (env_rnd env) b (acknowledged s) b0 \<and>
       (\<forall>i. pc s i = O_Ack \<longrightarrow> under_way env b0 s i) \<and>
       ((\<forall>i. pc s i \<noteq> O_Ack) \<longrightarrow> same_accounts b0 (bank s)))"

lemma serial_invI:
  "one_at_a_time s \<Longrightarrow> history (env_sh env) (env_rnd env) b (acknowledged s) c \<Longrightarrow>
    (\<And>i. pc s i = O_Ack \<Longrightarrow> under_way env c s i) \<Longrightarrow>
    ((\<forall>i. pc s i \<noteq> O_Ack) \<Longrightarrow> same_accounts c (bank s)) \<Longrightarrow> serial_inv env b s"
  by (auto simp: serial_inv_def)

lemma serial_inv_cong:
  assumes "serial_inv env b s" and "acknowledged s' = acknowledged s" and "\<exists>l. bank s' = (bank s)\<lparr>slog := l\<rparr>"
    and "\<And>i. pc s' i = O_Ack \<longleftrightarrow> pc s i = O_Ack"
    and "\<And>i. pc s i = O_Ack \<Longrightarrow> offices s' i = offices s i"
  shows "serial_inv env b s'"
proof -
  from assms(3) have same: "same_accounts b1 (bank s') = same_accounts b1 (bank s)" for b1 by auto
  have "under_way env b0 s' i = under_way env b0 s i" if "pc s i = O_Ack" for b0 i
    using assms(5) [OF that] by (simp add: under_way_def same)
  then show ?thesis
    using assms(1,2,4) unfolding serial_inv_def one_at_a_time_def same by metis
qed

lemma office_serial_inv:
  assumes "office_exec env i s = Some s'" and "serial_inv env b s" and "one_at_a_time s'"
  shows "serial_inv env b s'"
proof -
  from assms(2) obtain b0 where one: "one_at_a_time s"
    and h: "history (env_sh env) (env_rnd env) b (acknowledged s) b0"
    and busy: "\<And>i. pc s i = O_Ack \<Longrightarrow> under_way env b0 s i"
    and idle: "(\<forall>i. pc s i \<noteq> O_Ack) \<Longrightarrow> same_accounts b0 (bank s)"
    unfolding serial_inv_def by blast
  have self: "\<exists>l. c = c\<lparr>slog := l\<rparr>" for c :: bank by (rule exI [of _ "slog c"]) simp
  from assms(1) show ?thesis
  proof (cases rule: office_execE)
    case release
    have "pc s' i = O_Ack" "pc s i \<noteq> O_Ack" "j \<noteq> i \<Longrightarrow> pc s' j = pc s j" for j
      using release by simp_all
    then have only: "pc s j \<noteq> O_Ack" "pc s' j = O_Ack \<longleftrightarrow> j = i" for j
      using one_at_a_timeD [OF assms(3), of i j] by metis+
    have u: "under_way env b0 s' i"
      unfolding under_way_def
      by (rule exI [of _ 0]) (use release idle only(1) in simp)
    have ack: "acknowledged s' = acknowledged s" using release by simp
    show ?thesis
      by (rule serial_invI [OF assms(3), where c = b0]) (use only(2) h u ack in metis)+
  next
    case (process w rep c)
    from busy [OF process(1)] obtain n reply b1 where
      n: "process (env_sh env) (env_rnd env) (int i) (next_request (offices s i)) n P_Begin reply b0 =
        Inr (progress (offices s i), office_reply (offices s i), b1)" "same_accounts (bank s) b1"
      unfolding under_way_def same_accounts_def by metis
    from process_exec_same [OF process(3) n(2)] obtain b2 where
      "process_exec (env_sh env) (env_rnd env) (int i) (next_request (offices s i)) (progress (offices s i))
         (office_reply (offices s i)) b1 = Inr (w, rep, b2)" "same_accounts b2 c"
      by (auto simp: same_accounts_def)
    then have "process (env_sh env) (env_rnd env) (int i) (next_request (offices s i)) (Suc n) P_Begin reply b0 =
        Inr (w, rep, b2)" "same_accounts b2 c"
      using process_snoc [OF n(1)] by simp_all
    then have u: "under_way env b0 s' i"
      unfolding under_way_def using process(4)
      by (intro exI [of _ "Suc n"] exI [of _ reply] exI [of _ b2]) (simp del: process.simps)
    have i: "pc s' i = O_Ack" and ack: "acknowledged s' = acknowledged s" using process(1,4) by simp_all
    have only: "j = i" if "pc s' j = O_Ack" for j by (rule one_at_a_timeD [OF assms(3) i that])
    show ?thesis
      by (rule serial_invI [OF assms(3), where c = b0]) (use h ack u i only in metis)+
  next
    case (acknowledged rep)
    from busy [OF acknowledged(1)] obtain n reply b1 where
      n: "process (env_sh env) (env_rnd env) (int i) (next_request (offices s i)) n P_Begin reply b0 =
        Inr (P_Length, office_reply (offices s i), b1)" "same_accounts b1 (bank s)"
      unfolding under_way_def acknowledged(2) by blast
    have h': "history (env_sh env) (env_rnd env) b (acknowledged s') b1"
      using history.request [OF h process_handler [OF n(1)]] acknowledged(3,4) by simp
    have none: "pc s' j \<noteq> O_Ack" for j
    proof (cases "j = i")
      case True
      then show ?thesis using acknowledged(4) by simp
    next
      case False
      then have "pc s' j = pc s j" using acknowledged(4) by simp
      then show ?thesis using one_at_a_timeD [OF one acknowledged(1)] False by metis
    qed
    have same: "same_accounts b1 (bank s')" using n(2) acknowledged(4) by simp
    show ?thesis
      by (rule serial_invI [OF assms(3) h']) (simp_all add: none same)
  qed (intro serial_inv_cong [OF assms(2)]; use self in \<open>auto split: if_splits; fail\<close>)+
qed

lemma step_serial_inv:
  assumes "serial_step env s e s'" and "serial_inv env b s"
  shows "serial_inv env b s'"
proof -
  have self: "\<exists>l. c = c\<lparr>slog := l\<rparr>" for c :: bank by (rule exI [of _ "slog c"]) simp
  from assms(1) have "server_step env s e s'" and one: "one_at_a_time s'"
    by (simp_all add: serial_step_def)
  from this(1) show ?thesis
  proof (cases rule: server_step.cases)
    case (office i)
    then show ?thesis using office_serial_inv [OF _ assms(2) one] by blast
  next
    case main
    from main(3) have "\<exists>l. bank s' = (bank s)\<lparr>slog := l\<rparr>"
      by (cases rule: main_execE) (use self in auto)
    moreover have "pc s' j = O_Ack \<longleftrightarrow> pc s j = O_Ack" "pc s j = O_Ack \<Longrightarrow> offices s' j = offices s j" for j
      using main_exec_frame(6) [OF main(3), of j] by auto
    ultimately show ?thesis
      using main_exec_frame(4) [OF main(3)] by (intro serial_inv_cong [OF assms(2)])
  next
    case (receive req)
    then show ?thesis
      using self by (intro serial_inv_cong [OF assms(2)]) (auto simp: receive_def)
  next
    case (signal req j)
    then show ?thesis
      by (intro serial_inv_cong [OF assms(2)]) (auto simp: after_signal_def blocked_def)
  next
    case (signal_none req)
    then show ?thesis
      by (intro serial_inv_cong [OF assms(2)]) (auto simp: after_signal_def)
  next
    case (spurious j)
    then show ?thesis
      using self by (intro serial_inv_cong [OF assms(2)]) (auto simp: blocked_def)
  qed
qed

lemma init_serial_inv: "serial_inv env b (init_server env n b fs)"
  by (auto simp: serial_inv_def one_at_a_time_def init_server_def intro!: history.nothing exI [of _ b])

interpretation serial: transition_invariant "\<lambda>s. s = init_server env n b fs" "serial_step env" "serial_inv env b"
  for env n b fs
  by unfold_locales (auto intro: init_serial_inv step_serial_inv)

text \<open>A server with a single office has no other choice.\<close>

lemma single_office_serial:
  assumes "steps env (init_server env n b fs) s" and "n \<le> 1"
  shows "reach (\<lambda>t. t = init_server env n b fs) (serial_step env) s \<and> num_threads s = n \<and> mutex_inv s"
  using assms(1)
proof (induction rule: reach.induct)
  case (reach_init s)
  have "num_threads (init_server env n b fs) = n" by (simp add: init_server_def)
  then show ?case using reach_init by (auto intro: reach.intros init_mutex_inv)
next
  case (reach_step s e s')
  then have inv: "mutex_inv s'" and n: "num_threads s' = n"
    using step_mutex_inv [of env s e s'] by (auto elim!: server_step.cases dest: office_exec_frame(1) main_exec_frame(1))
  have "i = 1" if "pc s' i = O_Ack" for i
  proof -
    have "is_office i s'" using inv that unfolding mutex_inv_def by fastforce
    then show ?thesis using assms(2) n by (simp add: is_office_def)
  qed
  then have "one_at_a_time s'" unfolding one_at_a_time_def by metis
  then show ?case
    using reach_step inv n by (auto simp: serial_step_def intro: reach.reach_step)
qed

definition serialised :: "server_env \<Rightarrow> int \<Rightarrow> bank \<Rightarrow> string list \<Rightarrow> server \<Rightarrow> bool" where
  "serialised env n b fs s \<longleftrightarrow>
     n \<le> 1 \<and> steps env (init_server env n b fs) s \<or>
     reach (\<lambda>t. t = init_server env n b fs) (serial_step env) s"

lemma serialised_steps:
  assumes "serialised env n b fs s"
  shows "steps env (init_server env n b fs) s"
proof -
  have "steps env (init_server env n b fs) t"
    if "reach (\<lambda>t. t = init_server env n b fs) (serial_step env) t" for t
    using that by (induction rule: reach.induct) (auto simp: serial_step_def intro: reach.intros)
  then show ?thesis using assms by (auto simp: serialised_def)
qed

lemma serialised_history:
  assumes "serialised env n b fs s" and "\<forall>i. pc s i \<noteq> O_Ack"
  shows "\<exists>b0. history (env_sh env) (env_rnd env) b (acknowledged s) b0 \<and> accounts b0 = accounts (bank s)"
proof -
  have "serial_inv env b s"
    using assms(1) single_office_serial [of env n b fs s] serial.reach_inv [of env n b fs s]
    by (auto simp: serialised_def)
  then show ?thesis using assms(2) unfolding serial_inv_def same_accounts_def by blast
qed

end
