(* ===== verification/Server_Properties.thy ===== *)
theory Server_Properties
  imports Bank_Properties Messages Stalls Closing Serial
begin

text \<open>
  The properties of the running server: threads, queue, counters, accounts and replies in
  every reachable state, the runs that get stuck, and the shutdown that does not.
\<close>

section \<open>A concrete server\<close>

definition sample_env :: server_env where
  "sample_env =
     \<lparr>env_log = True, env_sh = sample_shell, env_rnd = id, env_malloc = next_address,
      env_fs = \<lparr>creatable = \<lambda>_. True, removable = \<lambda>_. True, openable = \<lambda>_. True\<rparr>,
      env_pid = 100, env_tid = id, env_request = balance_request 0, env_reply = sample_reply\<rparr>"

definition sample_start :: server where
  "sample_start = init_server sample_env 2 sample_bank []"

lemma sample_env_supplies: "supplies (env_malloc sample_env)"
  by (simp add: sample_env_def next_address_supplies)

lemma sample_start_reachable: "reachable sample_env sample_start"
  unfolding sample_start_def
  by (rule steps_reachable [OF _ sample_bank(1)]) (auto intro: reach_init simp: MAX_BANK_OFFICES_def)

text \<open>Office 1 has taken the mutex.\<close>

lemma sample_run:
  "run sample_env [Office 1, Office 1, Office 1] sample_start =
     Some (goto 1 O_Empty ((goto 1 O_Lock (log_mech sample_env SYNC_OP_MUTEX_LOCK 100
       (goto 1 O_Top (write_log (logBankOfficeOpen (logged_id sample_env) 1) sample_start))))\<lparr>queue_mut := Some 1\<rparr>))"
  by (simp add: sample_start_def init_server_def office_exec_def is_office_def sample_env_def Let_def)

lemma run_reachable: "run env es s = Some t \<Longrightarrow> reachable env s \<Longrightarrow> reachable env t"
  using run_steps_rel [of env es s t] by (auto intro: reach_trans)

section \<open>Mutual exclusion, order, exactly once\<close>

text \<open>
  C12: Until the shutdown flag is set, queue_mut protects the queue. In every reachable state
  at most one thread, an office or the main thread, is between its lock and its unlock of
  queue_mut, that thread is the holder of the mutex, and no thread has ever unlocked the
  mutex without holding it.
\<close>

theorem queue_mutex_excludes:
  assumes "reachable env s" and "\<not> shutdown s"
  shows "(\<forall>i j. holds (opc (offices s i)) \<and> holds (opc (offices s j)) \<longrightarrow> i = j) \<and>
    (\<forall>i. holds (opc (offices s i)) \<longrightarrow> queue_mut s = Some i \<and> \<not> main_holds (main_thread s)) \<and>
    (main_holds (main_thread s) \<longrightarrow> queue_mut s = Some 0) \<and> \<not> misused s"
proof -
  have inv: "mutex_inv s" using assms(1) by (rule mutex.reach_inv)
  show ?thesis
    using inv assms(2) mutex_one_office [OF inv assms(2)] mutex_no_main [OF inv assms(2)]
    unfolding mutex_inv_def by blast
qed

theorem queue_mutex_excludes_witness:
  "\<exists>s. reachable sample_env s \<and> holds (opc (offices s 1)) \<and> queue_mut s = Some 1"
proof -
  obtain s where s: "run sample_env [Office 1, Office 1, Office 1] sample_start = Some s"
    "opc (offices s 1) = O_Empty" "\<not> shutdown s"
    using sample_run by (auto simp: sample_start_def init_server_def)
  have r: "reachable sample_env s" using run_reachable [OF s(1) sample_start_reachable] .
  from queue_mutex_excludes [OF r s(3)] r s(2) show ?thesis by (auto simp: holds_def)
qed

text \<open>
  C13: Until shutdown the offices take the requests in their order of arrival and without a
  fault. In every reachable state of a server with memory and fewer than 2^32 requests, the
  linked list is well formed, the requests pushed so far are those popped, in order,
  followed by the queue's contents, an office between front and pop holds the first of the
  queue, and neither its front nor its pop can crash.
\<close>

theorem requests_taken_in_order:
  assumes "reachable env s" and "supplies (env_malloc env)" and "\<not> shutdown s"
    and "length (pushed s) + 1 < 2 ^ 32"
  shows "queue_inv (request_queue s) \<and> pushed s = popped s @ queue_list (request_queue s) \<and>
    (\<forall>i. opc (offices s i) \<in> {O_Count, O_Pop} \<longrightarrow>
       next_request (offices s i) = hd (queue_list (request_queue s))) \<and>
    (\<forall>i s'. opc (offices s i) \<in> {O_Front, O_Count, O_Pop} \<and> server_step env s (Office i) s' \<longrightarrow>
       crashed s' = None)"
proof -
  have "serving env s" using assms(2-4) by (simp add: serving_def)
  then have q: "queue_ok s" using queue.reach_guarded [OF assms(1)] by blast
  have "crashed s' = None"
    if "opc (offices s i) \<in> {O_Front, O_Count, O_Pop}" "server_step env s (Office i) s'" for i s'
    using that(2) office_queue_no_fault [OF _ q that(1)] by (auto elim!: step_OfficeE)
  with q show ?thesis by (auto simp: queue_ok_def at_pop_def)
qed

lemma arrived_run:
  "\<exists>s. run sample_env (arrivals [balance_request 1, balance_request 2]) sample_start = Some s \<and>
    queue_list (request_queue s) = [balance_request 1, balance_request 2] \<and> \<not> shutdown s \<and>
    pushed s = [balance_request 1, balance_request 2]"
proof -
  have "\<not> someone_blocked sample_start"
    by (auto simp: sample_start_def init_server_def someone_blocked_def blocked_def list_ex_iff)
  moreover have "main_thread sample_start = M_Read" "queue_mut sample_start = None" "crashed sample_start = None"
    "request_queue sample_start = static_queue" "\<not> shutdown sample_start" "pushed sample_start = []"
    by (simp_all add: sample_start_def init_server_def)
  moreover have "\<forall>r\<in>set [balance_request 1, balance_request 2]. req_type r \<noteq> OP_SHUTDOWN"
    by (simp add: balance_request_def sample_request_def)
  ultimately show ?thesis
    using arrivals_run [OF sample_env_supplies, of "[balance_request 1, balance_request 2]" sample_start] by auto
qed

theorem requests_taken_in_order_witness:
  "\<exists>s. reachable sample_env s \<and> pushed s = popped s @ queue_list (request_queue s) \<and>
    pushed s = [balance_request 1, balance_request 2]"
proof -
  obtain s where s: "run sample_env (arrivals [balance_request 1, balance_request 2]) sample_start = Some s"
    "\<not> shutdown s" "pushed s = [balance_request 1, balance_request 2]"
    using arrived_run by blast
  have "reachable sample_env s" using run_reachable [OF s(1) sample_start_reachable] .
  then show ?thesis using requests_taken_in_order [OF _ sample_env_supplies s(2)] s(3) by auto
qed

lemma in_hand_split: "over_offices in_hand s = over_offices unacknowledged s + over_offices acked_in_hand s"
proof -
  have "in_hand ofc = unacknowledged ofc + acked_in_hand ofc" for ofc
    by (simp add: in_hand_def unacknowledged_def acked_in_hand_def)
  then show ?thesis by (simp add: over_offices_def sum.distrib)
qed

text \<open>
  C14: Until shutdown every request is answered exactly once. In every reachable state of a server
  that has memory, has received fewer than 2^32 - 1 requests and is not shut down, each request pushed is, with its
  multiplicity, in the queue, with one office that has not finished acknowledge_request for it,
  or acknowledged. And in every reachable state each reply with which acknowledge_request
  ended for a request, other than replies to shutdowns, has been written once to the FIFO of the process that the request
  names or is held by one office about to do so, and no other such message has been written.
  Once the flag is set only this second part is claimed: then a request can be popped twice
  (request_taken_twice_after_shutdown), acknowledged twice and so answered twice.
\<close>

theorem each_request_answered_once:
  assumes "reachable env s"
  shows "(\<not> shutdown s \<and> supplies (env_malloc env) \<and> length (pushed s) + 1 < 2 ^ 32 \<longrightarrow>
      mset (pushed s) = mset (map fst (acknowledged s)) + over_offices unacknowledged s +
        mset (queue_list (request_queue s))) \<and>
    office_messages (sent s) + over_offices reply_in_hand s = office_messages (map addressed (acknowledged s))"
proof -
  have d: "dispatch_inv s" using assms by (rule dispatch.reach_inv)
  have q: "mset (pushed s) = mset (popped s) + mset (queue_list (request_queue s))" if "serving env s"
    using queue.reach_guarded [OF assms that] by (auto simp: queue_ok_def)
  have "delivery_inv s" using delivery.reach_inv [OF assms] by simp
  then show ?thesis
    using d q in_hand_split [of s] by (simp add: dispatch_inv_def delivery_inv_def serving_def ac_simps)
qed

theorem each_request_answered_once_witness:
  "\<exists>s. reachable sample_env s \<and> mset (pushed s) = {#balance_request 1, balance_request 2#} \<and>
    mset (pushed s) = mset (map fst (acknowledged s)) + over_offices unacknowledged s +
      mset (queue_list (request_queue s))"
proof -
  obtain s where s: "run sample_env (arrivals [balance_request 1, balance_request 2]) sample_start = Some s"
    "\<not> shutdown s" "pushed s = [balance_request 1, balance_request 2]"
    using arrived_run by blast
  have r: "reachable sample_env s" using run_reachable [OF s(1) sample_start_reachable] .
  show ?thesis using each_request_answered_once [OF r] r s(2,3) sample_env_supplies by auto
qed

text \<open>The reply of an accepted shutdown on its way to the FIFO.\<close>

definition shutdown_answer :: "tlv_request \<Rightarrow> tlv_reply \<Rightarrow> u32 \<times> tlv_reply" where
  "shutdown_answer req rep =
     (hdr_pid (req_hdr req), rep\<lparr>rep_type := req_type req, rep_length := of_nat sizeof_rep_value\<rparr>)"

definition carries :: "tlv_request \<Rightarrow> tlv_reply \<Rightarrow> server \<Rightarrow> bool" where
  "carries req rep s \<longleftrightarrow> main_thread s \<in> {M_Broadcast req rep, M_Answer req rep} \<or> shutdown_answer req rep \<in> set (sent s)"

lemma carries_cong:
  "carries req rep s \<Longrightarrow> main_thread s' = main_thread s \<Longrightarrow> set (sent s) \<subseteq> set (sent s') \<Longrightarrow> carries req rep s'"
  by (auto simp: carries_def)

lemma carries_sent: "shutdown_answer req rep \<in> set (sent s) \<Longrightarrow> set (sent s) \<subseteq> set (sent s') \<Longrightarrow> carries req rep s'"
  by (auto simp: carries_def)

lemma sent_grows: "server_step env s e s' \<Longrightarrow> set (sent s) \<subseteq> set (sent s')"
proof (induction rule: server_step.induct)
  case (office s i s')
  from office(3) show ?case by (cases rule: office_execE) auto
next
  case (main s s')
  from main(2) show ?case
    by (cases rule: main_execE) (auto simp: answer_shutdown_def Let_def attempt_def split: sum.splits prod.splits)
qed (auto simp: receive_def after_signal_def wake_def)

lemma carries_step:
  assumes "server_step env s e s'" and "carries req rep s"
  shows "carries req rep s'"
proof (cases "shutdown_answer req rep \<in> set (sent s)")
  case True
  then show ?thesis using sent_grows [OF assms(1)] by (rule carries_sent)
next
  case False
  then have m: "main_thread s \<in> {M_Broadcast req rep, M_Answer req rep}" using assms(2) by (simp add: carries_def)
  from assms(1) show ?thesis
  proof (cases rule: server_step.cases)
    case (office i)
    show ?thesis
      by (rule carries_cong [OF assms(2) office_exec_frame(3) [OF office(4)] sent_grows [OF assms(1)]])
  next
    case main
    from main(3) m show ?thesis
      by (cases rule: main_execE)
        (auto simp: carries_def shutdown_answer_def answer_shutdown_def Let_def attempt_def split: sum.splits prod.splits)
  qed (use m in \<open>auto simp: carries_def wake_def\<close>)
qed

lemma carries_steps: "steps env s t \<Longrightarrow> carries req rep s \<Longrightarrow> carries req rep t"
  by (induction rule: reach.induct) (auto intro: carries_step)

text \<open>
  C22: num_active_threads counts the active offices, and a shutdown reports it. In every reachable state, shutdown or
  not, its value is the number of offices between the increment and the decrement, so it is
  never negative nor above the number of offices. When the main thread accepts a shutdown
  request, this number, as 32 bits, goes into the reply's value, and in every later state the
  main thread still holds that reply on its way to the client or has written it, with the
  type and length set, to the FIFO of the process that the request names.
\<close>

theorem active_offices_counted:
  assumes "reachable env s"
  shows "num_active_threads s =
      int (card {i. is_office i s \<and> opc (offices s i) \<in> {O_Pop, O_Release, O_Ack, O_Fifo, O_Write, O_Uncount}}) \<and>
    0 \<le> num_active_threads s \<and> num_active_threads s \<le> max 0 (num_threads s) \<and>
    (\<forall>req rep s'. main_thread s = M_Shutdown req \<and> server_step env s Main s' \<and> main_thread s' = M_Broadcast req rep \<longrightarrow>
       rep_word (rep_val rep) = of_int (num_active_threads s) \<and>
       (\<forall>t. steps env s' t \<longrightarrow>
          main_thread t \<in> {M_Broadcast req rep, M_Answer req rep} \<or>
          (hdr_pid (req_hdr req), rep\<lparr>rep_type := req_type req, rep_length := of_nat sizeof_rep_value\<rparr>) \<in> set (sent t)))"
proof -
  let ?A = "{i. is_office i s \<and> opc (offices s i) \<in> {O_Pop, O_Release, O_Ack, O_Fifo, O_Write, O_Uncount}}"
  have sub: "?A = {i \<in> office_set s. opc (offices s i) \<in> {O_Pop, O_Release, O_Ack, O_Fifo, O_Write, O_Uncount}}"
    by (auto simp: office_set_iff)
  have "num_active_threads s = over_offices active s"
    using dispatch.reach_inv [OF assms] by (simp add: dispatch_inv_def)
  also have "\<dots> = int (card ?A)"
    unfolding over_offices_def active_def sub by (simp add: sum.If_cases Int_def)
  finally have eq: "num_active_threads s = int (card ?A)" .
  have "card ?A \<le> card (office_set s)" unfolding sub by (intro card_mono) auto
  then have le: "int (card ?A) \<le> max 0 (num_threads s)" by (simp add: office_set_def)
  have word: "rep_word (rep_val rep) = of_int (num_active_threads s)"
    if "main_thread s = M_Shutdown req" "server_step env s Main s'" "main_thread s' = M_Broadcast req rep" for req rep s'
  proof -
    from that(2) have "main_exec env s = Some s'" by (rule step_MainE)
    then show ?thesis by (cases rule: main_execE) (use that in auto)
  qed
  have carried: "main_thread t \<in> {M_Broadcast req rep, M_Answer req rep} \<or> shutdown_answer req rep \<in> set (sent t)"
    if "main_thread s' = M_Broadcast req rep" "steps env s' t" for req rep s' t
    using carries_steps [OF that(2), of req rep] that(1) by (simp add: carries_def)
  have range: "0 \<le> num_active_threads s" "num_active_threads s \<le> max 0 (num_threads s)"
    using le unfolding eq by simp_all
  show ?thesis
    by (intro conjI allI impI) (use eq range word carried [unfolded shutdown_answer_def] in blast)+
qed

lemma bank_ok_accounts: "accounts b = accounts b' \<Longrightarrow> bank_ok b = bank_ok b'"
  by (simp add: bank_ok_def bank_inv_def salts_ok_def)

lemma ledger_accounts: "accounts b = accounts b' \<Longrightarrow> ledger b = ledger b'"
  by (simp add: ledger_def fun_eq_iff)

lemma total_funds_accounts: "accounts b = accounts b' \<Longrightarrow> total_funds b = total_funds b'"
  by (simp add: total_funds_def)

text \<open>
  C21: Money comes from account creations only, as long as requests are processed one at a
  time. Let the server have a single office, or more but never two inside
  acknowledge_request at once. Then in every state outside that function, whatever requests
  have arrived, also during and after a shutdown, the accounts are in order and their sum is
  the initial one plus the accepted deposits.
\<close>

theorem server_balances_the_books:
  assumes "serialised env n b fs s" and "bank_ok b" and "\<forall>i. opc (offices s i) \<noteq> O_Ack"
  shows "bank_ok (bank s) \<and> total_funds (bank s) = total_funds b + (\<Sum>(r, rep)\<leftarrow>acknowledged s. deposit r rep)"
  using serialised_history [OF assms(1,3)] history_funds [OF _ assms(2)] bank_ok_accounts total_funds_accounts by metis

text \<open>
  C20: Processed one at a time, requests have the effect their specification says, whatever
  else the threads do meanwhile. Take such a server, for a bank in order and well-formed
  requests, with a shell that prints sha256sum's line and an unused byte behind the array hash (C1). In
  a state outside acknowledge_request, the ledger and the passwords that the accounts accept
  are those that the specification leads to from the initial ones by the acknowledged requests one after the
  other, in the order in which acknowledge_request ended for them: each reply has the code of
  spec_request, the type and account of its request and the new balance after a balance
  request or an accepted transfer, and accepted passwords change by accepted creations only. These
  replies, shutdowns apart, are exactly those written to the FIFOs of the processes the requests name
  and those that offices are about to write.
\<close>

theorem serial_server_follows_the_specification:
  assumes "serialised env n b fs s" and "bank_ok b" and "\<forall>i. opc (offices s i) \<noteq> O_Ack"
    and "sha256_shell (env_sh env) digest" and "\<forall>a \<in> set (acknowledged s). request_ok (fst a)"
  shows "spec_history digest (ledger b, accepts digest b) (acknowledged s) (ledger (bank s), accepts digest (bank s)) \<and>
    office_messages (sent s) + over_offices reply_in_hand s = office_messages (map addressed (acknowledged s))"
proof -
  obtain b0 where b0: "history (env_sh env) (env_rnd env) b (acknowledged s) b0" "accounts b0 = accounts (bank s)"
    using serialised_history [OF assms(1,3)] by blast
  have "delivery_inv s" using delivery_from.reach_inv [OF serialised_steps [OF assms(1)]] by simp
  then show ?thesis
    using history_refines [OF b0(1) assms(4,2,5)] ledger_accounts [OF b0(2)] accepts_accounts [OF b0(2)]
    by (simp add: delivery_inv_def)
qed

text \<open>
  Replies go to the clients that asked. In every state that steps reach from a start,
  however the threads and their accesses to the accounts interleave, each reply written to a
  FIFO is one with which acknowledge_request ended for a request carrying the process id whose
  FIFO it was written to, or is the reply to a shutdown request.
\<close>

theorem replies_answer_requests:
  assumes "steps env (init_server env n b fs) s" and "(pid, rep) \<in> set (sent s)"
  shows "rep_type rep = OP_SHUTDOWN \<or> (\<exists>r. (r, rep) \<in> set (acknowledged s) \<and> pid = hdr_pid (req_hdr r))"
  using steps_service [OF assms(1)] assms(2) by (fastforce simp: service_inv_def answers_def)

section \<open>One request, from the queue to the FIFO\<close>

text \<open>From the top of the loop to the unlock of the mutex, and from there to the top again.\<close>

lemma take_run:
  assumes "is_office i s" "pc s i = O_Top" "crashed s = None" "\<not> shutdown s" "queue_mut s = None"
    and "queue_inv (request_queue s)" "queue_list (request_queue s) = r # rs"
  shows "\<exists>u. run env (replicate 8 (Office i)) s = Some u \<and> pc u i = O_Ack \<and> progress (offices u i) = P_Begin \<and> is_office i u \<and> crashed u = None \<and>
    queue_mut u = None \<and> queue_list (request_queue u) = rs \<and> queue_inv (request_queue u) \<and> next_request (offices u i) = r \<and>
    office_reply (offices u i) = office_reply (offices s i) \<and> acknowledged u = acknowledged s \<and> sent u = sent s \<and> fifos u = fifos s \<and>
    num_active_threads u = num_active_threads s + 1 \<and> bank u = (bank s)\<lparr>slog := slog (bank u)\<rparr>"
proof -
  obtain q1 where q1: "pop (request_queue s) = Inr q1" "queue_list q1 = rs" "queue_inv q1"
    using rq.remove_ok [OF assms(6)] assms(7) by auto
  have f: "front (request_queue s) = Inr r" "\<not> empty (request_queue s)"
    using rq.first_ok [OF assms(6)] rq.is_empty_iff [OF assms(6)] assms(7) by auto
  show ?thesis
    using assms(1-5) f q1 by (simp add: eval_nat_numeral office_exec_def is_office_def Let_def)
qed

text \<open>The sixth statement increments the counter.\<close>

lemma take_run_counts:
  assumes "is_office i s" "pc s i = O_Top" "crashed s = None" "\<not> shutdown s" "queue_mut s = None"
    and "queue_inv (request_queue s)" "queue_list (request_queue s) = r # rs" and "m < 8"
  shows "\<exists>v. run env (replicate m (Office i)) s = Some v \<and>
    num_active_threads v = num_active_threads s + (if 6 \<le> m then 1 else 0)"
proof -
  obtain q1 where q1: "pop (request_queue s) = Inr q1"
    using rq.remove_ok [OF assms(6)] assms(7) by auto
  have f: "front (request_queue s) = Inr r" "\<not> empty (request_queue s)"
    using rq.first_ok [OF assms(6)] rq.is_empty_iff [OF assms(6)] assms(7) by auto
  from assms(8) consider "m = 0" | "m = 1" | "m = 2" | "m = 3" | "m = 4" | "m = 5" | "m = 6" | "m = 7" by linarith
  then show ?thesis
    by cases (use assms(1-5) f q1 in \<open>simp_all add: eval_nat_numeral office_exec_def is_office_def Let_def\<close>)
qed

text \<open>An office runs through \<open>acknowledge_request\<close>.\<close>

definition processed :: "nat \<Rightarrow> processing \<Rightarrow> tlv_reply \<Rightarrow> bank \<Rightarrow> server \<Rightarrow> server" where
  "processed i w r b s = s\<lparr>bank := b, offices := (offices s)(i := (offices s i)\<lparr>office_reply := r, progress := w\<rparr>)\<rparr>"

lemma processed_already:
  "office_reply (offices s i) = r \<Longrightarrow> progress (offices s i) = w \<Longrightarrow> bank s = b \<Longrightarrow> processed i w r b s = s"
  by (auto simp: processed_def fun_upd_idem_iff intro!: server.equality office.equality)

lemma process_step_run:
  assumes "process_exec (env_sh env) (env_rnd env) (int i) (next_request (offices s i)) (progress (offices s i))
      (office_reply (offices s i)) (bank s) = Inr (w, r, b)"
    and "progress (offices s i) \<noteq> P_Length" "is_office i s" "pc s i = O_Ack" "crashed s = None"
  shows "exec env (Office i) s = Some (processed i w r b s)"
  using assms by (simp add: office_exec_def processed_def Let_def)

lemma processed_simps [simp]:
  "bank (processed i w r b s) = b" "crashed (processed i w r b s) = crashed s"
  "pc (processed i w r b s) j = pc s j" "next_request (offices (processed i w r b s) j) = next_request (offices s j)"
  "progress (offices (processed i w r b s) i) = w" "office_reply (offices (processed i w r b s) i) = r"
  "j \<noteq> i \<Longrightarrow> offices (processed i w r b s) j = offices s j"
  "is_office j (processed i w r b s) = is_office j s" "num_threads (processed i w r b s) = num_threads s"
  "processed i w' r' b' (processed i w r b s) = processed i w' r' b' s"
  "queue_mut (processed i w r b s) = queue_mut s" "request_queue (processed i w r b s) = request_queue s"
  "shutdown (processed i w r b s) = shutdown s" "sent (processed i w r b s) = sent s" "fifos (processed i w r b s) = fifos s"
  "acknowledged (processed i w r b s) = acknowledged s" "num_active_threads (processed i w r b s) = num_active_threads s"
  by (simp_all add: processed_def is_office_def)

text \<open>To a position inside the function: one step each. To its end: at most as many.\<close>

lemma process_run_exact:
  assumes "process (env_sh env) (env_rnd env) (int i) (next_request (offices s i)) n
      (progress (offices s i)) (office_reply (offices s i)) (bank s) = Inr (w, r, b)"
    and "w \<noteq> P_Length" "is_office i s" "pc s i = O_Ack" "crashed s = None"
  shows "run env (replicate n (Office i)) s = Some (processed i w r b s)"
  using assms
proof (induction n arbitrary: s)
  case 0
  then show ?case using processed_already [of s i r w b] by simp
next
  case (Suc n)
  have ne: "progress (offices s i) \<noteq> P_Length" using Suc.prems(1,2) by (auto simp del: process.simps)
  from Suc.prems(1) obtain w1 r1 b1 where
    e: "process_exec (env_sh env) (env_rnd env) (int i) (next_request (offices s i)) (progress (offices s i))
      (office_reply (offices s i)) (bank s) = Inr (w1, r1, b1)"
    and n: "process (env_sh env) (env_rnd env) (int i) (next_request (offices s i)) n w1 r1 b1 = Inr (w, r, b)"
    by (auto simp: bind_res_eq_Inr)
  have "exec env (Office i) s = Some (processed i w1 r1 b1 s)"
    by (rule process_step_run [OF e ne Suc.prems(3-5)])
  moreover have "run env (replicate n (Office i)) (processed i w1 r1 b1 s) = Some (processed i w r b (processed i w1 r1 b1 s))"
    by (rule Suc.IH) (use n Suc.prems in simp_all)
  ultimately show ?case by simp
qed

lemma process_run:
  fixes s :: server
  assumes "process (env_sh env) (env_rnd env) (int i) (next_request (offices s i)) n
      (progress (offices s i)) (office_reply (offices s i)) (bank s) = Inr (P_Length, r, b)"
    and "is_office i s" "pc s i = O_Ack" "crashed s = None"
  shows "\<exists>m \<le> n. run env (replicate m (Office i)) s = Some (processed i P_Length r b s) \<and>
    (\<forall>k \<le> m. \<exists>v. run env (replicate k (Office i)) s = Some v \<and> num_active_threads v = num_active_threads s)"
  using assms
proof (induction n arbitrary: s)
  case 0
  then show ?case using processed_already [of s i r P_Length b] by simp
next
  case (Suc n)
  show ?case
  proof (cases "progress (offices s i) = P_Length")
    case True
    have "processed i P_Length r b s = s" by (rule processed_already) (use Suc.prems(1) True in simp_all)
    then show ?thesis by (intro exI [of _ 0]) simp
  next
    case False
    note IH = Suc.IH and prems = Suc.prems
    from prems(1) obtain w r1 b1 where
      e: "process_exec (env_sh env) (env_rnd env) (int i) (next_request (offices s i)) (progress (offices s i))
        (office_reply (offices s i)) (bank s) = Inr (w, r1, b1)"
      and n: "process (env_sh env) (env_rnd env) (int i) (next_request (offices s i)) n w r1 b1 = Inr (P_Length, r, b)"
      by (auto simp: bind_res_eq_Inr)
    have step: "exec env (Office i) s = Some (processed i w r1 b1 s)"
      by (rule process_step_run [OF e False prems(2-4)])
    obtain m where m: "m \<le> n" "run env (replicate m (Office i)) (processed i w r1 b1 s) =
        Some (processed i P_Length r b (processed i w r1 b1 s))"
      "\<forall>k \<le> m. \<exists>v. run env (replicate k (Office i)) (processed i w r1 b1 s) = Some v \<and>
         num_active_threads v = num_active_threads (processed i w r1 b1 s)"
      using IH [of "processed i w r1 b1 s"] n prems(2-4) by auto
    have "\<exists>v. run env (replicate k (Office i)) s = Some v \<and> num_active_threads v = num_active_threads s"
      if "k \<le> Suc m" for k
      using that m(3) step by (cases k) auto
    then show ?thesis using step m(1,2) by (intro exI [of _ "Suc m"]) simp
  qed
qed

lemma answer_run:
  assumes "is_office i u" "pc u i = O_Ack" "crashed u = None" "progress (offices u i) = P_Begin"
    and "acknowledge_request (env_sh env) (env_rnd env) (int i) (next_request (offices u i))
      (office_reply (offices u i)) (bank u) = Inr (rep, b')"
    and "user_fifo_create (env_fs env) (sint (hdr_pid (req_hdr (next_request (offices u i))))) (fifos u) = Inr (p, fs)"
  shows "\<exists>m \<le> 17. \<exists>t. run env (replicate m (Office i)) u = Some t \<and> pc t i = O_Top \<and> crashed t = None \<and>
    queue_mut t = queue_mut u \<and> request_queue t = request_queue u \<and>
    sent t = sent u @ [(hdr_pid (req_hdr (next_request (offices u i))), rep)] \<and>
    accounts (bank t) = accounts b' \<and> num_active_threads t = num_active_threads u - 1 \<and>
    acknowledged t = acknowledged u @ [(next_request (offices u i), rep)] \<and>
    (\<forall>k < m. \<exists>v. run env (replicate k (Office i)) u = Some v \<and> num_active_threads v = num_active_threads u)"
proof -
  from process_alone [of "env_sh env" "env_rnd env" "int i" "next_request (offices u i)" "office_reply (offices u i)" "bank u"]
  obtain r where r: "process (env_sh env) (env_rnd env) (int i) (next_request (offices u i)) 13
      (progress (offices u i)) (office_reply (offices u i)) (bank u) = Inr (P_Length, r, b')" "rep = finish_reply r"
    unfolding assms(4,5) by (auto simp: bind_res_eq_Inr)
  from process_run [OF r(1) assms(1-3)] obtain m where m: "m \<le> 13"
    "run env (replicate m (Office i)) u = Some (processed i P_Length r b' u)"
    "\<forall>k \<le> m. \<exists>v. run env (replicate k (Office i)) u = Some v \<and> num_active_threads v = num_active_threads u" by blast
  have last: "\<exists>v. run env (replicate j (Office i)) (processed i P_Length r b' u) = Some v \<and>
      num_active_threads v = num_active_threads u" if "j < 4" for j
  proof -
    from that consider "j = 0" | "j = 1" | "j = 2" | "j = 3" by linarith
    then show ?thesis
      by cases (use assms(1-3,6) r(2) in \<open>simp_all add: eval_nat_numeral office_exec_def is_office_def processed_def Let_def\<close>)
  qed
  have counts: "\<exists>v. run env (replicate k (Office i)) u = Some v \<and> num_active_threads v = num_active_threads u"
    if "k < m + 4" for k
  proof (cases "k \<le> m")
    case False
    then have "run env (replicate k (Office i)) u = run env (replicate (k - m) (Office i)) (processed i P_Length r b' u)"
      using m(2) run_append [of env "replicate m (Office i)" "replicate (k - m) (Office i)" u]
      by (simp flip: replicate_add)
    then show ?thesis using last [of "k - m"] that False by simp
  qed (use m(3) in blast)
  obtain t where "run env (replicate 4 (Office i)) (processed i P_Length r b' u) = Some t" "pc t i = O_Top" "crashed t = None"
    "queue_mut t = queue_mut u" "request_queue t = request_queue u"
    "sent t = sent u @ [(hdr_pid (req_hdr (next_request (offices u i))), rep)]"
    "accounts (bank t) = accounts b'" "num_active_threads t = num_active_threads u - 1"
    "acknowledged t = acknowledged u @ [(next_request (offices u i), rep)]"
    using assms(1-3,6) r(2) by (simp add: eval_nat_numeral office_exec_def is_office_def processed_def Let_def)
  moreover have "run env (replicate (m + 4) (Office i)) u = run env (replicate 4 (Office i)) (processed i P_Length r b' u)"
    using m(2) by (simp add: replicate_add run_append)
  ultimately show ?thesis using m(1) counts by (intro exI [of _ "m + 4"]) simp
qed

text \<open>The reply names the operation and, after a balance request or transfer, the new balance.\<close>

definition reply_matches :: "tlv_request \<Rightarrow> tlv_reply \<Rightarrow> bank \<Rightarrow> bool" where
  "reply_matches r rep b \<longleftrightarrow> bank_ok b \<and> rep_type rep = req_type r \<and>
     (rep_code rep = RC_OK \<and> req_type r \<in> {OP_BALANCE, OP_TRANSFER} \<longrightarrow>
        ledger b (unat (hdr_account_id (req_hdr r))) = Some (unat (rep_word (rep_val rep))))"

lemma reply_matches_acknowledge:
  assumes "acknowledge_request sh rnd k r reply b = Inr (rep, b')" and "bank_ok b" and "accounts c = accounts b'"
  shows "reply_matches r rep c"
proof -
  have "ledger c = ledger b'" using assms(3) by (simp add: ledger_def fun_eq_iff)
  then show ?thesis
    using acknowledge_effect [OF assms(1,2)] acknowledge_balance [OF assms(1,2)] bank_ok_accounts [OF assms(3)]
    by (simp add: reply_matches_def)
qed

lemma serve_run_counts:
  assumes "is_office i s" "opc (offices s i) = O_Top" "crashed s = None" "\<not> shutdown s" "queue_mut s = None"
    and "queue_inv (request_queue s)" "queue_list (request_queue s) = r # rs"
    and "sha256_shell (env_sh env) digest" "bank_ok (bank s)" "request_ok r"
    and "0 \<le> sint (hdr_pid (req_hdr r))" "sint (hdr_pid (req_hdr r)) < 100000"
    and "env_fs env = \<lparr>creatable = \<lambda>_. True, removable = \<lambda>_. True, openable = \<lambda>_. True\<rparr>"
  shows "\<exists>n t rep. n \<le> 25 \<and> run env (replicate n (Office i)) s = Some t \<and> opc (offices t i) = O_Top \<and> crashed t = None \<and>
    queue_mut t = None \<and> queue_list (request_queue t) = rs \<and>
    sent t = sent s @ [(hdr_pid (req_hdr r), rep)] \<and>
    (rep_code rep, ledger (bank t)) = spec_request (accepts digest (bank s)) r (ledger (bank s)) \<and>
    num_active_threads t = num_active_threads s \<and> reply_matches r rep (bank t) \<and>
    acknowledged t = acknowledged s @ [(r, rep)] \<and>
    (\<forall>k < n. \<exists>v. run env (replicate k (Office i)) s = Some v \<and>
       num_active_threads v = num_active_threads s + (if 6 \<le> k then 1 else 0))"
proof -
  obtain u where u: "run env (replicate 8 (Office i)) s = Some u" "pc u i = O_Ack" "is_office i u" "crashed u = None"
    "queue_mut u = None" "queue_list (request_queue u) = rs" "next_request (offices u i) = r"
    "sent u = sent s" "fifos u = fifos s" "num_active_threads u = num_active_threads s + 1"
    "bank u = (bank s)\<lparr>slog := slog (bank u)\<rparr>" "progress (offices u i) = P_Begin"
    "acknowledged u = acknowledged s"
    using take_run [OF assms(1-7), of env] by blast
  have same: "bank_ok (bank u)" "accepts digest (bank u) = accepts digest (bank s)" "ledger (bank u) = ledger (bank s)"
  proof -
    obtain l where "bank u = (bank s)\<lparr>slog := l\<rparr>" using u(11) by blast
    then show "bank_ok (bank u)" "accepts digest (bank u) = accepts digest (bank s)" "ledger (bank u) = ledger (bank s)"
      using assms(9) by (simp_all add: accepts_def fun_eq_iff)
  qed
  from acknowledge_refines [OF assms(8) same(1) assms(10), of "env_rnd env" "int i" "office_reply (offices u i)"]
  obtain rep b' where ack: "acknowledge_request (env_sh env) (env_rnd env) (int i) (next_request (offices u i))
      (office_reply (offices u i)) (bank u) = Inr (rep, b')"
    and spec: "(rep_code rep, ledger b') = spec_request (accepts digest (bank s)) r (ledger (bank s))"
    unfolding same(2,3) u(7) by blast
  obtain p fs where "user_fifo_create (env_fs env) (sint (hdr_pid (req_hdr (next_request (offices u i))))) (fifos u) = Inr (p, fs)"
    unfolding u(7) using user_fifo_ok [OF assms(11-13)] by blast
  from answer_run [OF u(3,2,4,12) ack this] obtain m t where m: "m \<le> 17" and t: "run env (replicate m (Office i)) u = Some t"
    "pc t i = O_Top" "crashed t = None" "queue_mut t = queue_mut u" "request_queue t = request_queue u"
    "sent t = sent u @ [(hdr_pid (req_hdr r), rep)]" "accounts (bank t) = accounts b'"
    "num_active_threads t = num_active_threads u - 1" "acknowledged t = acknowledged u @ [(r, rep)]"
    "\<forall>k < m. \<exists>v. run env (replicate k (Office i)) u = Some v \<and> num_active_threads v = num_active_threads u"
    unfolding u(7) by blast
  have counts: "\<exists>v. run env (replicate k (Office i)) s = Some v \<and>
      num_active_threads v = num_active_threads s + (if 6 \<le> k then 1 else 0)" if "k < 8 + m" for k
  proof (cases "k < 8")
    case True
    show ?thesis by (rule take_run_counts [OF assms(1-7) True])
  next
    case False
    then have "run env (replicate k (Office i)) s = run env (replicate (k - 8) (Office i)) u"
      using u(1) run_append [of env "replicate 8 (Office i)" "replicate (k - 8) (Office i)" s]
      by (simp flip: replicate_add)
    then show ?thesis using t(10) u(10) that False by (elim allE [of _ "k - 8"]) auto
  qed
  have "run env (replicate (8 + m) (Office i)) s = Some t"
    using u(1) t(1) by (simp only: replicate_add run_append) simp
  moreover have "ledger (bank t) = ledger b'" using t(7) by (simp add: ledger_def fun_eq_iff)
  moreover have "reply_matches r rep (bank t)"
    using reply_matches_acknowledge [OF ack same(1) t(7)] u(7) by simp
  ultimately show ?thesis
    using m counts t(2-6,8,9) u(5,6,8,10,13) spec by (intro exI [of _ "8 + m"] exI [of _ t] exI [of _ rep]) simp
qed

lemma serve_run:
  assumes "is_office i s" "opc (offices s i) = O_Top" "crashed s = None" "\<not> shutdown s" "queue_mut s = None"
    and "queue_inv (request_queue s)" "queue_list (request_queue s) = r # rs"
    and "sha256_shell (env_sh env) digest" "bank_ok (bank s)" "request_ok r"
    and "0 \<le> sint (hdr_pid (req_hdr r))" "sint (hdr_pid (req_hdr r)) < 100000"
    and "env_fs env = \<lparr>creatable = \<lambda>_. True, removable = \<lambda>_. True, openable = \<lambda>_. True\<rparr>"
  shows "\<exists>n t rep. n \<le> 25 \<and> run env (replicate n (Office i)) s = Some t \<and> opc (offices t i) = O_Top \<and> crashed t = None \<and>
    queue_mut t = None \<and> queue_list (request_queue t) = rs \<and>
    sent t = sent s @ [(hdr_pid (req_hdr r), rep)] \<and>
    (rep_code rep, ledger (bank t)) = spec_request (accepts digest (bank s)) r (ledger (bank s)) \<and>
    num_active_threads t = num_active_threads s \<and> reply_matches r rep (bank t) \<and>
    acknowledged t = acknowledged s @ [(r, rep)]"
  using serve_run_counts [OF assms] by blast

text \<open>Office 1 is at the top of its loop, two balance requests wait.\<close>

lemma waiting_offices:
  assumes "1 \<le> n"
  shows "\<exists>s. run sample_env (Office 1 # arrivals [balance_request 1, balance_request 2])
      (init_server sample_env n sample_bank []) = Some s \<and>
    pc s 1 = O_Top \<and> is_office 1 s \<and> crashed s = None \<and> \<not> shutdown s \<and> queue_mut s = None \<and>
    queue_inv (request_queue s) \<and> queue_list (request_queue s) = [balance_request 1, balance_request 2] \<and>
    accounts (bank s) = accounts sample_bank \<and> acknowledged s = []"
proof -
  obtain u where u: "exec sample_env (Office 1) (init_server sample_env n sample_bank []) = Some u" "main_thread u = M_Read" "queue_mut u = None"
    "crashed u = None" "request_queue u = static_queue" "\<not> shutdown u" "num_threads u = n" "acknowledged u = []"
    "accounts (bank u) = accounts sample_bank" "\<forall>j. pc u j = (if j = 1 then O_Top else O_Start)"
    using assms by (simp add: init_server_def office_exec_def is_office_def sample_env_def Let_def)
  have nb: "\<not> someone_blocked u" using u(10) by (auto simp: someone_blocked_def blocked_def list_ex_iff)
  have rs: "\<forall>r\<in>set [balance_request 1, balance_request 2]. req_type r \<noteq> OP_SHUTDOWN"
    by (simp add: balance_request_def sample_request_def)
  have "queue_inv (request_queue u)" "length (queue_list (request_queue u)) + length [balance_request 1, balance_request 2] < 2 ^ 32"
    using u(5) by simp_all
  from arrivals_run [OF sample_env_supplies rs u(2,3,4) nb this]
  obtain t where t: "run sample_env (arrivals [balance_request 1, balance_request 2]) u = Some t"
    "queue_mut t = None" "crashed t = None" "queue_inv (request_queue t)"
    "queue_list (request_queue t) = queue_list (request_queue u) @ [balance_request 1, balance_request 2]"
    "offices t = offices u" "num_threads t = num_threads u" "shutdown t = shutdown u"
    "bank t = (bank u)\<lparr>slog := slog (bank t)\<rparr>" "acknowledged t = acknowledged u"
    by blast
  have "accounts (bank t) = accounts (bank u)" by (subst t(9)) simp
  moreover have "is_office 1 t" using t(7) u(7) assms by (simp add: is_office_def)
  ultimately show ?thesis
    using t(1-8,10) u by (intro exI [of _ t]) simp
qed

lemma waiting_run:
  "\<exists>s. run sample_env (Office 1 # arrivals [balance_request 1, balance_request 2]) sample_start = Some s \<and>
    pc s 1 = O_Top \<and> is_office 1 s \<and> crashed s = None \<and> \<not> shutdown s \<and> queue_mut s = None \<and>
    queue_inv (request_queue s) \<and> queue_list (request_queue s) = [balance_request 1, balance_request 2] \<and>
    accounts (bank s) = accounts sample_bank"
proof -
  have "1 \<le> (2 :: int)" by simp
  from waiting_offices [OF this] show ?thesis unfolding sample_start_def by blast
qed

lemma balance_request_ok: "request_ok (balance_request 1)" "sint (hdr_pid (req_hdr (balance_request 1))) = 4242"
  using sample_words(3)
  by (simp_all add: request_ok_def balance_request_def sample_request_def MAX_PASSWORD_LEN_def MAX_BANK_ACCOUNTS_def)

text \<open>
  C15: One office serves one request, end to end. Let an idle office be at the top of its
  loop with the mutex free, no shutdown, the bank in order, and a well-formed request at the head of a well-formed queue,
  from a client with a process id of 0 to 99999; let every call on a FIFO succeed, and let the shell print sha256sum's line
  with an unused byte behind the array hash (hash_buffer_overflow says what happens without
  it). Then the office's next statements, 25 at most, run
  without a fault if no other thread moves: they take that request from the queue, write to that client's FIFO a
  reply with the code of the specification, leave the ledger of the specification and release
  the mutex. num_active_threads is one higher from the sixth of these statements on until the
  last, which puts it back, and unchanged before.
\<close>

theorem office_serves_request:
  assumes "is_office i s" "opc (offices s i) = O_Top" "crashed s = None" "\<not> shutdown s" "queue_mut s = None"
    and "queue_inv (request_queue s)" "queue_list (request_queue s) = r # rs"
    and "sha256_shell (env_sh env) digest" "bank_ok (bank s)" "request_ok r"
    and "0 \<le> sint (hdr_pid (req_hdr r))" "sint (hdr_pid (req_hdr r)) < 100000"
    and "env_fs env = \<lparr>creatable = \<lambda>_. True, removable = \<lambda>_. True, openable = \<lambda>_. True\<rparr>"
  shows "\<exists>n t rep. n \<le> 25 \<and> run env (replicate n (Office i)) s = Some t \<and> opc (offices t i) = O_Top \<and> crashed t = None \<and>
    queue_mut t = None \<and> queue_list (request_queue t) = rs \<and>
    sent t = sent s @ [(hdr_pid (req_hdr r), rep)] \<and>
    (rep_code rep, ledger (bank t)) = spec_request (accepts digest (bank s)) r (ledger (bank s)) \<and>
    num_active_threads t = num_active_threads s \<and>
    (\<forall>k < n. \<exists>v. run env (replicate k (Office i)) s = Some v \<and>
       num_active_threads v = num_active_threads s + (if 6 \<le> k then 1 else 0))"
  using serve_run_counts [OF assms] by blast

theorem office_serves_request_witness:
  "\<exists>s n t rep. run sample_env (replicate n (Office 1)) s = Some t \<and> reachable sample_env s \<and>
    queue_list (request_queue t) = [balance_request 2] \<and> sent t = sent s @ [(4242, rep)]"
proof -
  obtain s where s: "run sample_env (Office 1 # arrivals [balance_request 1, balance_request 2]) sample_start = Some s"
    "opc (offices s 1) = O_Top" "is_office 1 s" "crashed s = None" "\<not> shutdown s" "queue_mut s = None"
    "queue_inv (request_queue s)" "queue_list (request_queue s) = [balance_request 1, balance_request 2]"
    "accounts (bank s) = accounts sample_bank"
    using waiting_run by blast
  have sh: "sha256_shell (env_sh sample_env) sample_digest"
    "env_fs sample_env = \<lparr>creatable = \<lambda>_. True, removable = \<lambda>_. True, openable = \<lambda>_. True\<rparr>"
    using sample_shell by (simp_all add: sample_env_def)
  have b: "bank_ok (bank s)" using bank_ok_accounts [OF s(9)] sample_bank(1) by simp
  have pid: "hdr_pid (req_hdr (balance_request 1)) = 4242" by (simp add: balance_request_def sample_request_def)
  from office_serves_request [OF s(3,2,4-8) sh(1) b balance_request_ok(1) _ _ sh(2)] balance_request_ok(2)
  show ?thesis using run_reachable [OF s(1) sample_start_reachable] pid by auto
qed

text \<open>A server with one office that has answered the first of two requests.\<close>

lemma single_office_run:
  "\<exists>t rep. serialised sample_env 1 sample_bank [] t \<and> acknowledged t = [(balance_request 1, rep)] \<and>
    (\<forall>i. pc t i \<noteq> O_Ack)"
proof -
  obtain s where s: "run sample_env (Office 1 # arrivals [balance_request 1, balance_request 2])
      (init_server sample_env 1 sample_bank []) = Some s"
    "pc s 1 = O_Top" "is_office 1 s" "crashed s = None" "\<not> shutdown s" "queue_mut s = None"
    "queue_inv (request_queue s)" "queue_list (request_queue s) = [balance_request 1, balance_request 2]"
    "accounts (bank s) = accounts sample_bank" "acknowledged s = []"
    using waiting_offices [of 1] by blast
  have sh: "sha256_shell (env_sh sample_env) sample_digest"
    "env_fs sample_env = \<lparr>creatable = \<lambda>_. True, removable = \<lambda>_. True, openable = \<lambda>_. True\<rparr>"
    using sample_shell by (simp_all add: sample_env_def)
  have b: "bank_ok (bank s)" using bank_ok_accounts [OF s(9)] sample_bank(1) by simp
  obtain n t rep where t: "run sample_env (replicate n (Office 1)) s = Some t" "pc t 1 = O_Top"
    "acknowledged t = acknowledged s @ [(balance_request 1, rep)]"
    using serve_run [OF s(3,2,4-8) sh(1) b balance_request_ok(1) _ _ sh(2)] balance_request_ok(2) by auto
  have st: "steps sample_env (init_server sample_env 1 sample_bank []) t"
    using run_steps_rel [OF s(1)] run_steps_rel [OF t(1)] by (rule reach_trans [rotated])
  have nt: "num_threads t = 1" "mutex_inv t" using single_office_serial [OF st] by simp_all
  have "pc t i = O_Start" if "i \<noteq> 1" for i
    by (rule mutex_not_office [OF nt(2)]) (use that nt(1) in \<open>auto simp: is_office_def\<close>)
  then have "pc t i \<noteq> O_Ack" for i using t(2) by (cases "i = 1") simp_all
  then show ?thesis using st t(3) s(10) by (intro exI [of _ t] exI [of _ rep]) (simp add: serialised_def)
qed

theorem server_balances_the_books_witness:
  "\<exists>t rep. serialised sample_env 1 sample_bank [] t \<and> acknowledged t = [(balance_request 1, rep)] \<and>
    total_funds (bank t) = total_funds sample_bank"
proof -
  obtain t rep where t: "serialised sample_env 1 sample_bank [] t" "acknowledged t = [(balance_request 1, rep)]"
    "\<forall>i. pc t i \<noteq> O_Ack" using single_office_run by blast
  have "deposit (balance_request 1) rep = 0" by (simp add: deposit_def balance_request_def sample_request_def)
  with server_balances_the_books [OF t(1) sample_bank(1) t(3)] t show ?thesis by auto
qed

theorem serial_server_follows_the_specification_witness:
  "\<exists>(t :: server) rep. acknowledged t = [(balance_request 1, rep)] \<and>
    spec_history sample_digest (ledger sample_bank, accepts sample_digest sample_bank) [(balance_request 1, rep)]
      (ledger (bank t), accepts sample_digest (bank t))"
proof -
  obtain t rep where t: "serialised sample_env 1 sample_bank [] t" "acknowledged t = [(balance_request 1, rep)]"
    "\<forall>i. pc t i \<noteq> O_Ack" using single_office_run by blast
  have sh: "sha256_shell (env_sh sample_env) sample_digest" using sample_shell by (simp add: sample_env_def)
  have "\<forall>a \<in> set (acknowledged t). request_ok (fst a)" using t(2) balance_request_ok(1) by simp
  from serial_server_follows_the_specification [OF t(1) sample_bank(1) t(3) sh this] t(2) show ?thesis
    by (intro exI [of _ t] exI [of _ rep]) simp
qed

section \<open>Runs that get stuck\<close>

lemma steps_mutex_inv: "steps env s t \<Longrightarrow> mutex_inv s \<Longrightarrow> mutex_inv t"
  by (induction rule: reach.induct) (auto intro: step_mutex_inv)

lemma steps_locked_out:
  "steps env s t \<Longrightarrow> mutex_inv s \<Longrightarrow> locked_out i s \<Longrightarrow>
    locked_out i t \<and> main_thread t = main_thread s \<and> pushed t = pushed s \<and> popped t = popped s"
proof (induction rule: reach.induct)
  case (reach_step t e u)
  then have "mutex_inv t" using steps_mutex_inv by blast
  with reach_step show ?case using locked_out_step [of env t e u i] by simp
qed simp

text \<open>
  C24: A wake-up on an empty queue deadlocks the server. After pthread_cond_wait an office
  tests the queue again, and when another office has taken the request in between, it goes
  back to the top of its loop and locks queue_mut although it holds it. With two offices and
  two requests such a run exists without any spurious wake-up, and from its end no state is
  reachable in which a further request is queued or taken or the main thread gets past its
  own lock: not even a shutdown request can be read any more.
\<close>

theorem second_test_deadlocks:
  assumes "req_type r \<noteq> OP_SHUTDOWN" and "req_type r' \<noteq> OP_SHUTDOWN" and "env_malloc env Map.empty = Some a"
  shows "\<exists>s. run env (stolen_wakeup r r') (init_server env 2 b fs) = Some s \<and>
    (\<forall>t. steps env s t \<longrightarrow> opc (offices t 1) = O_Lock \<and> queue_mut t = Some 1 \<and> main_thread t = M_Lock r' \<and>
       pushed t = pushed s \<and> popped t = popped s)"
proof -
  obtain s where s: "run env (stolen_wakeup r r') (init_server env 2 b fs) = Some s" "locked_out 1 s"
    "main_thread s = M_Lock r'"
    using stolen [OF assms, of b fs] by blast
  have "mutex_inv s"
    by (rule steps_mutex_inv [OF run_steps_rel [OF s(1)] init_mutex_inv])
  then show ?thesis
    using s steps_locked_out [where i = 1 and s = s and env = env] by (intro exI [of _ s]) (auto simp: locked_out_def)
qed

theorem second_test_deadlocks_witness:
  "\<exists>s. run sample_env (stolen_wakeup (balance_request 1) (balance_request 2)) (init_server sample_env 2 sample_bank []) = Some s \<and>
    queue_mut s = Some 1 \<and> opc (offices s 1) = O_Lock"
proof -
  have "env_malloc sample_env Map.empty = Some 1" by (simp add: sample_env_def next_address_def)
  from second_test_deadlocks [OF _ _ this, of "balance_request 1" "balance_request 2" sample_bank "[]"]
  obtain s where s: "run sample_env (stolen_wakeup (balance_request 1) (balance_request 2)) (init_server sample_env 2 sample_bank []) = Some s"
    "\<forall>t. steps sample_env s t \<longrightarrow> opc (offices t 1) = O_Lock \<and> queue_mut t = Some 1"
    by (auto simp: balance_request_def sample_request_def)
  have "steps sample_env s s" by (rule reach_init) simp
  with s show ?thesis by blast
qed

text \<open>A shutdown request the sample bank accepts.\<close>

definition shutdown_request :: tlv_request where
  "shutdown_request = sample_request OP_SHUTDOWN 0 ''adminpass1'' \<lparr>crt_account_id = 0, crt_balance = 0, crt_password = []\<rparr>"

lemma shutdown_request_accepted:
  "req_type shutdown_request = OP_SHUTDOWN"
  "\<exists>rep. validate_request (env_sh sample_env) sample_bank shutdown_request (env_reply sample_env) = Inr (True, rep)"
proof -
  show "req_type shutdown_request = OP_SHUTDOWN" by (simp add: shutdown_request_def sample_request_def)
  have "request_ok shutdown_request"
    using sample_words(2)
    by (simp add: request_ok_def shutdown_request_def sample_request_def MAX_PASSWORD_LEN_def MAX_BANK_ACCOUNTS_def)
  moreover have "accepts sample_digest sample_bank 0 ''adminpass1''"
    by (simp add: accepts_def sample_bank_def sample_account_def)
  ultimately show "\<exists>rep. validate_request (env_sh sample_env) sample_bank shutdown_request (env_reply sample_env) = Inr (True, rep)"
    using validate_request_eq [OF sample_shell sample_bank(1), of shutdown_request]
    by (simp add: sample_env_def spec_login_admin_def Let_def shutdown_request_def sample_request_def)
qed

theorem active_offices_counted_witness:
  "\<exists>s s' req rep. reachable sample_env s \<and> server_step sample_env s Main s' \<and>
    main_thread s' = M_Broadcast req rep \<and> rep_word (rep_val rep) = of_int (num_active_threads s)"
proof -
  let ?s = "receive shutdown_request sample_start"
  obtain rep where rep: "validate_request (env_sh sample_env) sample_bank shutdown_request (env_reply sample_env) = Inr (True, rep)"
    using shutdown_request_accepted(2) by blast
  have start: "crashed sample_start = None" "main_thread sample_start = M_Read" "bank sample_start = sample_bank"
    by (simp_all add: sample_start_def init_server_def)
  have s: "main_thread ?s = M_Shutdown shutdown_request" "bank ?s = sample_bank" "crashed ?s = None"
    using shutdown_request_accepted(1) start by (simp_all add: receive_def)
  have r: "reachable sample_env ?s"
    by (rule reach_step [OF sample_start_reachable receive]) (use start in simp_all)
  obtain s' rep' where s': "server_step sample_env ?s Main s'" "main_thread s' = M_Broadcast shutdown_request rep'"
    using s rep by (auto simp: server_step_iff_exec main_exec_def Let_def shutdown_server_def)
  have "rep_word (rep_val rep') = of_int (num_active_threads ?s)"
    using active_offices_counted [OF r] s(1) s' by blast
  with r s' show ?thesis by blast
qed

lemma joining_not_exit: "joining i s \<Longrightarrow> main_thread s \<noteq> M_Exit"
  by (auto simp: joining_def)

lemma lost_wakeup_forever:
  "reach (\<lambda>x. x = s) (\<lambda>x e y. server_step env x e y \<and> e \<noteq> Spurious i) t \<Longrightarrow> lost_wakeup i s \<Longrightarrow> lost_wakeup i t"
  by (induction rule: reach.induct) (auto intro: lost_wakeup_step)

text \<open>
  C27: A shutdown can be lost on an office. shutdown_server sets the flag and the broadcast
  follows without queue_mut, so an office that has tested the flag and is about to wait
  misses both. With one office such a run exists, for every accepted shutdown request; from
  its end the office sleeps and the main thread never exits, as long as the office is not
  woken spuriously.
\<close>

theorem shutdown_wakeup_lost:
  assumes "req_type sreq = OP_SHUTDOWN"
    and "validate_request (env_sh env) b sreq (env_reply env) = Inr (True, rep)"
  shows "\<exists>s. run env (late_wait sreq) (init_server env 1 b fs) = Some s \<and>
    (\<forall>t. reach (\<lambda>x. x = s) (\<lambda>x e y. server_step env x e y \<and> e \<noteq> Spurious 1) t \<longrightarrow>
       opc (offices t 1) = O_Blocked \<and> main_thread t \<noteq> M_Exit)"
proof -
  obtain s where s: "run env (late_wait sreq) (init_server env 1 b fs) = Some s" "lost_wakeup 1 s"
    using late_wait_run [OF assms, of fs] by blast
  then show ?thesis
    using lost_wakeup_forever [of s env 1] by (intro exI [of _ s]) (auto simp: lost_wakeup_def dest: joining_not_exit)
qed

theorem shutdown_wakeup_lost_witness:
  "\<exists>s. run sample_env (late_wait shutdown_request) (init_server sample_env 1 sample_bank []) = Some s"
proof -
  obtain rep where "validate_request (env_sh sample_env) sample_bank shutdown_request (env_reply sample_env) = Inr (True, rep)"
    using shutdown_request_accepted(2) by blast
  from shutdown_wakeup_lost [OF shutdown_request_accepted(1) this, of "[]"] show ?thesis by blast
qed

lemma mutex_abandoned_forever:
  "steps env s t \<Longrightarrow> mutex_abandoned i j s \<Longrightarrow> mutex_abandoned i j t"
  by (induction rule: reach.induct) (auto intro: mutex_abandoned_step)

text \<open>
  C26: An office can leave with the mutex. The break on shutdown does not unlock queue_mut,
  which the office holds when the flag was set after it tested it at the top of the loop.
  With two offices such a run exists, for every accepted shutdown request; from its end the
  other office waits for the mutex for ever and the main thread never exits.
\<close>

theorem break_keeps_mutex:
  assumes "req_type sreq = OP_SHUTDOWN"
    and "validate_request (env_sh env) b sreq (env_reply env) = Inr (True, rep)"
  shows "\<exists>s. run env (break_with_mutex sreq) (init_server env 2 b fs) = Some s \<and>
    (\<forall>t. steps env s t \<longrightarrow> queue_mut t = Some 1 \<and> opc (offices t 2) \<in> {O_Lock, O_Woken} \<and> main_thread t \<noteq> M_Exit)"
proof -
  obtain s where s: "run env (break_with_mutex sreq) (init_server env 2 b fs) = Some s" "mutex_abandoned 1 2 s"
    using break_with_mutex_run [OF assms, of fs] by blast
  then show ?thesis
    using mutex_abandoned_forever [where i = 1 and j = 2 and s = s and env = env]
    by (intro exI [of _ s]) (auto simp: mutex_abandoned_def dest: joining_not_exit)
qed

theorem break_keeps_mutex_witness:
  "\<exists>s. run sample_env (break_with_mutex shutdown_request) (init_server sample_env 2 sample_bank []) = Some s"
proof -
  obtain rep where "validate_request (env_sh sample_env) sample_bank shutdown_request (env_reply sample_env) = Inr (True, rep)"
    using shutdown_request_accepted(2) by blast
  from break_keeps_mutex [OF shutdown_request_accepted(1) this, of "[]"] show ?thesis by blast
qed

text \<open>
  C25: After shutdown the queue is used without its mutex. For every accepted shutdown
  request behind at least one waiting request, a run with two offices exists in which both
  take the same first request: when it was the only one the second pop dereferences a null
  pointer, otherwise the request is processed twice and the next one is dropped unanswered.
\<close>

theorem request_taken_twice_after_shutdown:
  assumes "supplies (env_malloc env)" and "\<forall>x\<in>set (r # rs). req_type x \<noteq> OP_SHUTDOWN"
    and "length (r # rs) < 2 ^ 32" and "req_type sreq = OP_SHUTDOWN"
    and "validate_request (env_sh env) b sreq (env_reply env) = Inr (True, rep)"
  shows "\<exists>t. run env (double_take (r # rs) sreq) (init_server env 2 b fs) = Some t \<and> pushed t = r # rs \<and>
    (if rs = [] then crashed t = Some (Undefined NullDeref)
     else crashed t = None \<and> popped t = [r, r] \<and> queue_list (request_queue t) = tl rs)"
  using assms by (rule double_take_run)

theorem request_taken_twice_after_shutdown_witness:
  "\<exists>t. run sample_env (double_take [balance_request 1, balance_request 2] shutdown_request)
      (init_server sample_env 2 sample_bank []) = Some t \<and>
    popped t = [balance_request 1, balance_request 1] \<and> queue_list (request_queue t) = []"
proof -
  obtain rep where "validate_request (env_sh sample_env) sample_bank shutdown_request (env_reply sample_env) = Inr (True, rep)"
    using shutdown_request_accepted(2) by blast
  from request_taken_twice_after_shutdown [OF sample_env_supplies _ _ shutdown_request_accepted(1) this,
      of "balance_request 1" "[balance_request 2]" "[]"]
  show ?thesis by (auto simp: balance_request_def sample_request_def)
qed

section \<open>Shutdown and start\<close>

text \<open>
  C23: A shutdown of an idle server ends. Let all n offices sleep on the condition variable,
  the queue be empty, and the main thread be about to broadcast after an accepted shutdown
  request whose reply FIFO can be created. Then every run has at most 9 n + 4 steps, no
  state before the exit of the main thread is stuck, and at the exit every office has
  finished, nothing has crashed and the server's FIFO is gone.
\<close>

theorem idle_shutdown_terminates:
  assumes "main_thread s = M_Broadcast req reply" and "crashed s = None" "shutdown s"
    and "empty (request_queue s)" and "queue_mut s = None"
    and "\<forall>i. is_office i s \<longrightarrow> opc (offices s i) = O_Blocked"
    and "\<forall>fs. returns (user_fifo_create (env_fs env) (sint (hdr_pid (req_hdr req))) fs)"
  shows "\<forall>es t. run env es s = Some t \<longrightarrow>
    length es \<le> 9 * nat (num_threads s) + 4 \<and> crashed t = None \<and>
    (main_thread t \<noteq> M_Exit \<longrightarrow> (\<exists>e t'. server_step env t e t' \<and> (\<forall>j. e \<noteq> Spurious j))) \<and>
    (main_thread t = M_Exit \<longrightarrow>
       (\<forall>i. is_office i t \<longrightarrow> opc (offices t i) = O_Done) \<and> SERVER_FIFO_PATH \<notin> set (fifos t))"
proof (intro allI impI)
  fix es t assume run: "run env es s = Some t"
  have c: "closing env s"
    using assms by (simp add: closing_def owns_def)
  have left: "steps_left s = 9 * nat (num_threads s) + 4"
  proof -
    have "(\<Sum>i\<in>office_set s. office_rank (pc s i)) = (\<Sum>i\<in>office_set s. 8)"
      using assms(6) by (intro sum.cong) (auto simp: office_set_iff)
    then show ?thesis using assms(1) by (simp add: steps_left_def office_set_def)
  qed
  from run_closing [OF run c] have t: "closing env t" "length es + steps_left t \<le> steps_left s"
    by blast+
  show "length es \<le> 9 * nat (num_threads s) + 4 \<and> crashed t = None \<and>
    (main_thread t \<noteq> M_Exit \<longrightarrow> (\<exists>e t'. server_step env t e t' \<and> (\<forall>j. e \<noteq> Spurious j))) \<and>
    (main_thread t = M_Exit \<longrightarrow>
       (\<forall>i. is_office i t \<longrightarrow> opc (offices t i) = O_Done) \<and> SERVER_FIFO_PATH \<notin> set (fifos t))"
    using t(2) left closingD(1,4,5) [OF t(1)] closing_progress [OF t(1)] by auto
qed

definition idle_server :: server where
  "idle_server = sample_start\<lparr>shutdown := True, main_thread := M_Broadcast shutdown_request sample_reply,
     offices := (\<lambda>i. \<lparr>opc = O_Blocked, next_request = balance_request 0, office_reply = sample_reply, progress = P_Begin\<rparr>)\<rparr>"

theorem idle_shutdown_terminates_witness:
  "\<exists>t e t'. run sample_env [Main] idle_server = Some t \<and> crashed t = None \<and> server_step sample_env t e t'"
proof -
  obtain t where t: "run sample_env [Main] idle_server = Some t" "main_thread t \<noteq> M_Exit"
    by (simp add: idle_server_def sample_start_def init_server_def main_exec_def)
  have "main_thread idle_server = M_Broadcast shutdown_request sample_reply" "crashed idle_server = None"
    "shutdown idle_server" "empty (request_queue idle_server)" "queue_mut idle_server = None"
    "\<forall>i. is_office i idle_server \<longrightarrow> opc (offices idle_server i) = O_Blocked" "num_threads idle_server = 2"
    by (simp_all add: idle_server_def sample_start_def init_server_def empty_def static_queue_def init_def)
  moreover have "returns (user_fifo_create (env_fs sample_env) (sint (hdr_pid (req_hdr shutdown_request))) fs)" for fs
    using user_fifo_path_eq [of 4242] make_and_open_ok [of "env_fs sample_env" "USER_FIFO_PATH_PREFIX @ show_int 4242" "- 2" fs]
    by (auto simp: user_fifo_create_def shutdown_request_def sample_request_def sample_env_def)
  ultimately show ?thesis
    using idle_shutdown_terminates [of idle_server shutdown_request sample_reply sample_env] t by blast
qed

lemma created_admin_ok: "create_admin_account sh rnd p static_bank = Inr b \<Longrightarrow> bank_ok b"
  unfolding create_admin_account_def Let_def rand_string_salt prod.case
  by (auto simp: bind_res_eq_Inr account_at_eq_Inr strcpy_def bank_ok_def account_ok_def ADMIN_ACCOUNT_ID_def SALT_LEN_def
      intro!: bank_inv_set salts_ok_set split: if_splits)

lemma no_office_no_answer:
  "steps env s t \<Longrightarrow> num_threads s \<le> 0 \<Longrightarrow> answered s = [] \<Longrightarrow> popped s = [] \<Longrightarrow>
    answered t = [] \<and> popped t = [] \<and> num_threads t \<le> 0"
proof (induction rule: reach.induct)
  case (reach_step t e u)
  then have ih: "answered t = []" "popped t = []" "num_threads t \<le> 0" by auto
  from reach_step.hyps(2) show ?case
  proof (cases rule: server_step.cases)
    case (office i)
    then show ?thesis using ih(3) by (simp add: is_office_def)
  next
    case main
    then show ?thesis using main_exec_frame [OF main(3)] ih by simp
  qed (use ih in auto)
qed simp

text \<open>With a log file, a shell, a pipe and a password of letters and digits the server starts.\<close>

lemma server_starts:
  assumes "env_log env" "atoi argv1 = Inr n" "sha256_shell (env_sh env) digest"
    and "alnum p" "8 \<le> length p" "length p \<le> 20"
    and "env_fs env = \<lparr>creatable = \<lambda>_. True, removable = \<lambda>_. True, openable = \<lambda>_. True\<rparr>"
  shows "\<exists>s. start_server env 3 argv1 p fs = Inr s"
proof -
  have "\<exists>b. create_admin_account (env_sh env) (env_rnd env) p static_bank = Inr b"
    using create_admin_account_eq [OF assms(3-6)] by simp
  moreover have "\<exists>fs'. server_fifo_create (env_fs env) fs = Inr fs'"
    using make_and_open_ok [of "env_fs env" SERVER_FIFO_PATH "- 1" fs] assms(7)
    by (auto simp: server_fifo_create_def)
  ultimately show ?thesis using assms(1,2) by (auto simp: start_server_def)
qed

text \<open>
  C34: The start of the server. If main gets to its loop it was called with two arguments,
  it runs as many offices as the first one says but at most 99, its accounts are in order
  and its state is one the other properties speak of. Nothing rejects zero or a negative
  number: such a server accepts requests and never answers one.
\<close>

theorem server_start_bounds:
  assumes "start_server env argc argv1 argv2 fs = Inr s"
  shows "argc = 3 \<and> (\<exists>n. atoi argv1 = Inr n \<and> num_threads s = min n 99) \<and>
    reachable env s \<and> main_thread s = M_Read \<and> bank_ok (bank s) \<and>
    (num_threads s \<le> 0 \<longrightarrow> (\<forall>t. steps env s t \<longrightarrow> answered t = [] \<and> popped t = []))"
proof -
  from assms obtain n b fs' l where a: "argc = 3" "atoi argv1 = Inr n"
    and b: "create_admin_account (env_sh env) (env_rnd env) argv2 static_bank = Inr b"
    and s: "s = init_server env (min_macro n MAX_BANK_OFFICES) (b\<lparr>slog := l\<rparr>) fs'"
    by (auto simp: start_server_def bind_res_eq_Inr split: if_splits)
  have m: "min_macro n MAX_BANK_OFFICES = min n 99" by (simp add: min_macro_def MAX_BANK_OFFICES_def)
  have ok: "bank_ok (b\<lparr>slog := l\<rparr>)" using created_admin_ok [OF b] by simp
  have "reachable env s"
    unfolding s by (rule steps_reachable [OF reach_init ok]) (auto simp: min_macro_def)
  moreover have "num_threads s = min n 99" "main_thread s = M_Read" "bank_ok (bank s)" "answered s = []" "popped s = []"
    using ok by (simp_all add: s m init_server_def)
  ultimately show ?thesis using a no_office_no_answer by blast
qed

theorem server_start_bounds_witness:
  "\<exists>s. start_server sample_env 3 ''-4'' ''adminpass1'' [] = Inr s \<and>
    num_threads s = - 4 \<and> reachable sample_env s \<and> answered s = []"
proof -
  have n: "atoi ''-4'' = Inr (- 4)" by code_simp
  obtain s where s: "start_server sample_env 3 ''-4'' ''adminpass1'' [] = Inr s"
    using server_starts [of sample_env "''-4''" "- 4" sample_digest "''adminpass1''" "[]"] n sample_shell sample_words(2)
    by (auto simp: sample_env_def)
  have "steps sample_env s s" by (rule reach_init) simp
  with server_start_bounds [OF s] n s show ?thesis by auto
qed

text \<open>A run in which a reply is written.\<close>

lemma served_balance_run:
  "\<exists>s rep. steps sample_env (init_server sample_env 2 sample_bank []) s \<and> (4242, rep) \<in> set (sent s)"
proof -
  obtain s where s: "run sample_env (Office 1 # arrivals [balance_request 1, balance_request 2]) sample_start = Some s"
    "opc (offices s 1) = O_Top" "is_office 1 s" "crashed s = None" "\<not> shutdown s" "queue_mut s = None"
    "queue_inv (request_queue s)" "queue_list (request_queue s) = [balance_request 1, balance_request 2]"
    "accounts (bank s) = accounts sample_bank"
    using waiting_run by blast
  have sh: "sha256_shell (env_sh sample_env) sample_digest"
    "env_fs sample_env = \<lparr>creatable = \<lambda>_. True, removable = \<lambda>_. True, openable = \<lambda>_. True\<rparr>"
    using sample_shell by (simp_all add: sample_env_def)
  have b: "bank_ok (bank s)" using bank_ok_accounts [OF s(9)] sample_bank(1) by simp
  have pid: "hdr_pid (req_hdr (balance_request 1)) = 4242" by (simp add: balance_request_def sample_request_def)
  obtain n t rep where t: "run sample_env (replicate n (Office 1)) s = Some t" "sent t = sent s @ [(4242, rep)]"
    using serve_run [OF s(3,2,4-8) sh(1) b balance_request_ok(1) _ _ sh(2)] balance_request_ok(2) pid by auto
  have st: "steps sample_env (init_server sample_env 2 sample_bank []) t"
    using run_steps_rel [OF s(1)] run_steps_rel [OF t(1)] unfolding sample_start_def by (rule reach_trans [rotated])
  have "(4242, rep) \<in> set (sent t)" using t(2) by simp
  with st show ?thesis by blast
qed

theorem replies_answer_requests_witness:
  "\<exists>s rep. steps sample_env (init_server sample_env 2 sample_bank []) s \<and> (4242, rep) \<in> set (sent s) \<and>
    (rep_type rep = OP_SHUTDOWN \<or> (\<exists>r. (r, rep) \<in> set (acknowledged s) \<and> 4242 = hdr_pid (req_hdr r)))"
  using served_balance_run replies_answer_requests by blast

end
