(* ===== verification/Client.thy ===== *)
theory Client
  imports Log_File Messages Fifos
begin

text \<open>
  The client, \<open>user.c\<close>: the request built from the command line, the exchange over the two
  FIFOs, and the message printed for a reply. The uninitialised variables of \<open>main\<close> and
  what the rest of the system does (whether the server can be reached, when the reply FIFO
  appears, the bytes in it) are parameters. The client waits for its FIFO in a loop that
  need not end: no return is the value \<open>None\<close>.
\<close>

section \<open>The request\<close>

text \<open>\<open>atoi (token)\<close> and \<open>strcpy (dst, token)\<close> where \<open>token\<close> is the result of \<open>strtok\<close>.\<close>

definition atoi_token :: "(string \<times> string) option \<Rightarrow> int res" where
  "atoi_token t = (case t of None \<Rightarrow> Inl (Undefined NullDeref) | Some (tok, _) \<Rightarrow> atoi tok)"

definition strcpy_token :: "nat \<Rightarrow> (string \<times> string) option \<Rightarrow> string res" where
  "strcpy_token n t = (case t of None \<Rightarrow> Inl (Undefined NullDeref) | Some (tok, _) \<Rightarrow> strcpy n tok)"

text \<open>What the next \<open>strtok (NULL, delims)\<close> continues with.\<close>

definition strtok_next :: "string \<Rightarrow> (string \<times> string) option \<Rightarrow> (string \<times> string) option" where
  "strtok_next delims t = (case t of None \<Rightarrow> None | Some (_, rest) \<Rightarrow> strtok delims rest)"

definition get_create :: "string \<Rightarrow> req_create_account \<Rightarrow> req_create_account res" where
  "get_create extra create =
     (let token = strtok '' '' extra in
      bind_res (atoi_token token) (\<lambda>account_created.
      let create = create\<lparr>crt_account_id := of_int account_created\<rparr>;
          token = strtok_next '' '' token in
      bind_res (atoi_token token) (\<lambda>balance.
      let create = create\<lparr>crt_balance := of_int balance\<rparr>;
          token = strtok_next '' '' token in
      bind_res (strcpy_token (MAX_PASSWORD_LEN + 1) token) (\<lambda>password.
        Inr (create\<lparr>crt_password := password\<rparr>)))))"

text \<open>The two words of a transfer are the first two of the union.\<close>

definition get_transfer :: "string \<Rightarrow> req_create_account \<Rightarrow> req_create_account res" where
  "get_transfer extra u =
     (let token = strtok '' '' extra in
      bind_res (atoi_token token) (\<lambda>account_destination.
      let u = u\<lparr>crt_account_id := of_int account_destination\<rparr>;
          token = strtok_next '' '' token in
      bind_res (atoi_token token) (\<lambda>amount.
        Inr (u\<lparr>crt_balance := of_int amount\<rparr>))))"

definition get_request :: "int \<Rightarrow> string list \<Rightarrow> tlv_request \<Rightarrow> tlv_request res" where
  "get_request getpid argv request =
     bind_res (atoi (argv ! 1)) (\<lambda>account_id.
     bind_res (strcpy (MAX_PASSWORD_LEN + 1) (argv ! 2)) (\<lambda>password.
     bind_res (atoi (argv ! 3)) (\<lambda>delay.
     let h = \<lparr>hdr_pid = of_int getpid, hdr_account_id = of_int account_id,
              hdr_password = password, hdr_op_delay_ms = of_int delay\<rparr>;
         request = request\<lparr>req_val := (req_val request)\<lparr>val_header := h\<rparr>\<rparr>;
         set_type = (\<lambda>t r. r\<lparr>req_type := t\<rparr>);
         set_union = (\<lambda>u r. r\<lparr>req_val := (req_val r)\<lparr>val_union := u\<rparr>\<rparr>) in
     bind_res (atoi (argv ! 4)) (\<lambda>id_op.
       if id_op = 0 then
         bind_res (get_create (argv ! 5) (val_union (req_val request))) (\<lambda>u.
           Inr (set_union u (set_type OP_CREATE_ACCOUNT request)))
       else if id_op = 1 then Inr (set_type OP_BALANCE request)
       else if id_op = 2 then
         bind_res (get_transfer (argv ! 5) (val_union (req_val request))) (\<lambda>u.
           Inr (set_union u (set_type OP_TRANSFER request)))
       else if id_op = 3 then Inr (set_type OP_SHUTDOWN request)
       else Inr request))))"

section \<open>The reply\<close>

definition print_reply :: "tlv_reply \<Rightarrow> string" where
  "print_reply reply =
     (case rep_code reply of
        RC_OK \<Rightarrow>
          (case rep_type reply of
             OP_CREATE_ACCOUNT \<Rightarrow> ''OP_CREATE_ACCOUNT'' @ [newline]
           | OP_BALANCE \<Rightarrow> ''YOUR BALANCE IS '' @ show_int (sint (rep_balance (rep_val reply))) @ [newline]
           | OP_TRANSFER \<Rightarrow>
               ''TRANSFER SUCCESSFUL. BALANCE IS NOW '' @ show_int (sint (rep_transfer_balance (rep_val reply))) @ [newline]
           | OP_SHUTDOWN \<Rightarrow>
               ''SERVER SHUTDOWN. '' @ show_int (sint (rep_active_offices (rep_val reply))) @
               '' ACTIVE OFFICES REMAINING'' @ [newline]
           | _ \<Rightarrow> [])
      | RC_SRV_DOWN \<Rightarrow> ''The server is currently (down).'' @ [newline]
      | RC_SRV_TIMEOUT \<Rightarrow> ''The request sent to server timed out.'' @ [newline]
      | RC_USR_DOWN \<Rightarrow> ''Unable to send reply message to user.'' @ [newline]
      | RC_LOGIN_FAIL \<Rightarrow> ''Invalid account id / password.'' @ [newline]
      | RC_OP_NALLOW \<Rightarrow> ''You are not allowed to request such an operation.'' @ [newline]
      | RC_ID_IN_USE \<Rightarrow> ''That account id is already in use.'' @ [newline]
      | RC_ID_NOT_FOUND \<Rightarrow> ''There is no account with that id.'' @ [newline]
      | RC_SAME_ID \<Rightarrow> ''The source and destination accounts are the same.'' @ [newline]
      | RC_NO_FUNDS \<Rightarrow> ''The final balance would be too low.'' @ [newline]
      | RC_TOO_HIGH \<Rightarrow> ''The final balance would be too high.'' @ [newline]
      | _ \<Rightarrow> ''An unknown error occured'' @ [newline])"

section \<open>The exchange\<close>

text \<open>
  The surroundings of one run of the client: \<open>getpid ()\<close>, whether the log file can be
  opened, whether the server's FIFO has a
  reader, whether the reply FIFO exists at each successive test and can be opened, the
  bytes found in it, and the initial contents of the local variables (the bytes of the
  request's two arrays behind their terminators, and the 20 bytes of the reply).
\<close>

record client_env =
  c_pid :: int
  c_log :: bool
  c_server :: bool
  c_exists :: "nat \<Rightarrow> bool"
  c_openable :: bool
  c_pipe :: string
  c_request :: tlv_request
  c_fill1 :: string
  c_fill2 :: string
  c_reply :: string

record client_result =
  written :: string
  ulog :: log
  printed :: string
  removed :: string

definition user_connect_server :: "client_env \<Rightarrow> unit res" where
  "user_connect_server env = (if c_server env then Inr () else Inl (Exit (- 1)))"

text \<open>\<open>while (access (user_fifo_path, F_OK)) sleep (1);\<close> -- the number of the test that succeeds.\<close>

partial_function (option) wait_fifo :: "(nat \<Rightarrow> bool) \<Rightarrow> nat \<Rightarrow> nat option" where
  "wait_fifo exists k = (if exists k then Some k else wait_fifo exists (Suc k))"

definition user_connect_fifo_reply :: "client_env \<Rightarrow> string res option" where
  "user_connect_fifo_reply env =
     (case get_user_fifo_path (c_pid env) of
        Inl e \<Rightarrow> Some (Inl e)
      | Inr path \<Rightarrow>
          (case wait_fifo (c_exists env) 0 of
             None \<Rightarrow> None
           | Some _ \<Rightarrow> Some (if c_openable env then Inr path else Inl (Exit (- 1)))))"

text \<open>The two halves of \<open>main\<close>: up to the connection, and from the reply to the end.\<close>

definition receive_reply :: "client_env \<Rightarrow> string \<Rightarrow> string \<Rightarrow> log \<Rightarrow> client_result res" where
  "receive_reply env out path lg =
     (let (_, bytes, _) = read_reply (c_reply env) (c_pipe env); reply = dec_reply bytes
      in bind_res (logReply (c_pid env) (c_pid env) (Some reply) lg) (\<lambda>(_, lg).
           Inr \<lparr>written = out, ulog = lg, printed = print_reply reply, removed = path\<rparr>))"

definition user_main :: "client_env \<Rightarrow> string list \<Rightarrow> log \<Rightarrow> client_result res option" where
  "user_main env argv lg =
     (if \<not> c_log env then Some (Inl (Exit 1))
      else if length argv < 6 then Some (Inl (Exit 1))
      else if 6 < length argv then Some (Inl (Exit 1))
      else case bind_res (get_request (c_pid env) argv (c_request env)) (\<lambda>request.
             bind_res (logRequest (c_pid env) (sint (hdr_pid (req_hdr request))) (Some request) lg) (\<lambda>(_, lg).
             bind_res (user_connect_server env) (\<lambda>_. Inr (request, lg)))) of
          Inl e \<Rightarrow> Some (Inl e)
        | Inr (request, lg) \<Rightarrow>
            (let out = enc_request (c_fill1 env) (c_fill2 env) request in
             case user_connect_fifo_reply env of
               None \<Rightarrow> None
             | Some (Inl e) \<Rightarrow> Some (Inl e)
             | Some (Inr path) \<Rightarrow> Some (receive_reply env out path lg)))"

section \<open>Waiting for the FIFO\<close>

lemma wait_fifo_found: "exists (k + n) \<Longrightarrow> \<exists>j. wait_fifo exists k = Some j"
proof (induction n arbitrary: k)
  case 0
  then show ?case by (simp add: wait_fifo.simps)
next
  case (Suc n)
  then have "\<exists>j. wait_fifo exists (Suc k) = Some j" by simp
  then show ?case by (subst wait_fifo.simps) simp
qed

lemma wait_fifo_sound: "wait_fifo exists k = Some j \<Longrightarrow> exists j \<and> k \<le> j"
proof (rule wait_fifo.raw_induct [where P = "\<lambda>ex k j. ex j \<and> k \<le> j"])
  fix wait ex k j
  assume IH: "\<And>ex k j. wait ex k = Some j \<Longrightarrow> ex j \<and> k \<le> j"
    and eq: "(if ex k then Some k else wait ex (Suc k)) = Some j"
  show "ex j \<and> k \<le> j"
    using eq IH [of ex "Suc k" j] by (cases "ex k") auto
qed


lemma wait_fifo_None: "wait_fifo exists 0 = None \<longleftrightarrow> (\<forall>k. \<not> exists k)"
proof
  assume "wait_fifo exists 0 = None"
  then show "\<forall>k. \<not> exists k" using wait_fifo_found [of "exists" 0] by auto
next
  assume "\<forall>k. \<not> exists k"
  then show "wait_fifo exists 0 = None" using wait_fifo_sound [of "exists" 0] by (cases "wait_fifo exists 0") auto
qed

section \<open>The command line\<close>

text \<open>
  The operations a user can ask for, the arguments \<open>user\<close> is started with for them (the
  last one is ignored by two), and the request meant.
\<close>

datatype operands = Create_Account nat nat string | Check_Balance string | Transfer_To nat nat | Shut_Down string

fun operation_id :: "operands \<Rightarrow> nat" where
  "operation_id (Create_Account _ _ _) = 0"
| "operation_id (Check_Balance _) = 1"
| "operation_id (Transfer_To _ _) = 2"
| "operation_id (Shut_Down _) = 3"

fun operand_text :: "operands \<Rightarrow> string" where
  "operand_text (Create_Account i x p) = dec i @ CHR '' '' # dec x @ CHR '' '' # p"
| "operand_text (Check_Balance s) = s"
| "operand_text (Transfer_To i x) = dec i @ CHR '' '' # dec x"
| "operand_text (Shut_Down s) = s"

definition command_line :: "string \<Rightarrow> nat \<Rightarrow> string \<Rightarrow> nat \<Rightarrow> operands \<Rightarrow> string list" where
  "command_line exe account password delay op =
     [exe, dec account, password, dec delay, dec (operation_id op), operand_text op]"

fun operation_request :: "operands \<Rightarrow> tlv_request \<Rightarrow> tlv_request" where
  "operation_request (Create_Account i x p) r =
     r\<lparr>req_type := OP_CREATE_ACCOUNT,
       req_val := (req_val r)\<lparr>val_union := \<lparr>crt_account_id = of_nat i, crt_balance = of_nat x, crt_password = p\<rparr>\<rparr>\<rparr>"
| "operation_request (Check_Balance _) r = r\<lparr>req_type := OP_BALANCE\<rparr>"
| "operation_request (Transfer_To i x) r =
     r\<lparr>req_type := OP_TRANSFER,
       req_val := (req_val r)\<lparr>val_union := (val_union (req_val r))\<lparr>crt_account_id := of_nat i, crt_balance := of_nat x\<rparr>\<rparr>\<rparr>"
| "operation_request (Shut_Down _) r = r\<lparr>req_type := OP_SHUTDOWN\<rparr>"

definition command_request :: "int \<Rightarrow> nat \<Rightarrow> string \<Rightarrow> nat \<Rightarrow> operands \<Rightarrow> tlv_request \<Rightarrow> tlv_request" where
  "command_request pid account password delay op r =
     operation_request op
       (r\<lparr>req_val := (req_val r)\<lparr>val_header :=
            \<lparr>hdr_pid = of_int pid, hdr_account_id = of_nat account, hdr_password = password,
             hdr_op_delay_ms = of_nat delay\<rparr>\<rparr>\<rparr>)"

fun operands_ok :: "operands \<Rightarrow> bool" where
  "operands_ok (Create_Account i x p) \<longleftrightarrow>
     int i \<le> INT_MAX \<and> int x \<le> INT_MAX \<and> p \<noteq> [] \<and> CHR '' '' \<notin> set p \<and> c_string MAX_PASSWORD_LEN p"
| "operands_ok (Transfer_To i x) \<longleftrightarrow> int i \<le> INT_MAX \<and> int x \<le> INT_MAX"
| "operands_ok _ \<longleftrightarrow> True"

lemma dec_no_blank: "CHR '' '' \<notin> set (dec n)"
  using dec_chars [of "CHR '' ''" n] digit_char_simps(7) by metis

lemma strtok_dec:
  "strtok '' '' (dec n @ CHR '' '' # r) = Some (dec n, r)" "strtok '' '' (dec n) = Some (dec n, [])"
  using dec_no_blank by (simp_all add: strtok_token strtok_last)

lemma atoi_operation_id: "atoi (dec (operation_id op)) = Inr (int (operation_id op))"
  by (cases op) (simp_all add: atoi_dec)

lemma get_create_text:
  assumes "operands_ok (Create_Account i x p)"
  shows "get_create (operand_text (Create_Account i x p)) u =
    Inr \<lparr>crt_account_id = of_nat i, crt_balance = of_nat x, crt_password = p\<rparr>"
proof -
  have "strtok '' '' p = Some (p, [])" using assms by (simp add: strtok_last)
  moreover have "length p < MAX_PASSWORD_LEN + 1" using assms by (simp add: c_string_def)
  ultimately show ?thesis
    using assms by (cases u) (simp add: get_create_def strtok_dec atoi_token_def strtok_next_def strcpy_token_def atoi_dec Let_def)
qed

lemma get_transfer_text:
  assumes "operands_ok (Transfer_To i x)"
  shows "get_transfer (operand_text (Transfer_To i x)) u = Inr (u\<lparr>crt_account_id := of_nat i, crt_balance := of_nat x\<rparr>)"
  using assms by (simp add: get_transfer_def strtok_dec atoi_token_def strtok_next_def atoi_dec Let_def)

lemma get_request_command_line:
  assumes "operands_ok op" and "int account \<le> INT_MAX" and "int delay \<le> INT_MAX"
    and "length password \<le> MAX_PASSWORD_LEN"
  shows "get_request pid (command_line exe account password delay op) r =
    Inr (command_request pid account password delay op r)"
proof -
  have "strcpy (MAX_PASSWORD_LEN + 1) password = Inr password" using assms(4) by simp
  with assms show ?thesis
    by (cases op)
      (simp_all add: get_request_def command_line_def atoi_dec command_request_def Let_def
        get_create_text [simplified] get_transfer_text [simplified])
qed

lemma command_request_wf:
  assumes "operands_ok op" and "c_string MAX_PASSWORD_LEN password" and "wf_request r"
  shows "wf_request (command_request pid account password delay op r)"
    "op_ok (req_type (command_request pid account password delay op r))"
    "req_type (command_request pid account password delay op r) \<in>
       {OP_CREATE_ACCOUNT, OP_BALANCE, OP_TRANSFER, OP_SHUTDOWN}"
  using assms by (cases op; simp add: command_request_def wf_request_def op_ok_def op_of_word_def)+

section \<open>One run of the client\<close>

lemma logRequest_returns: "\<exists>n lg'. logRequest pid i (Some r) lg = Inr (n, lg')"
  by (cases "req_type r") (simp_all add: logRequest_def logBaseRequestInfo_def Let_def atomicPrintf_def)

text \<open>The codes that have a name; a raw value is an index outside \<open>RC_STR\<close>.\<close>

definition named_code :: "ret_code \<Rightarrow> bool" where "named_code c \<longleftrightarrow> returns (RC_STR c)"

lemma named_code_rc_ok: "named_code c \<Longrightarrow> rc_ok c"
  by (auto simp: named_code_def rc_ok_def rc_of_word_of_rc)

lemma logReply_returns:
  assumes "named_code (rep_code reply)"
  shows "\<exists>n lg'. logReply pid i (Some reply) lg = Inr (n, lg')"
proof -
  obtain s where "RC_STR (rep_code reply) = Inr s" using assms by (auto simp: named_code_def returns_iff)
  then show ?thesis
    by (cases "rep_type reply") (simp_all add: logReply_def logBaseReplyInfo_def Let_def atomicPrintf_def)
qed

lemma get_user_fifo_path_eq:
  "0 \<le> pid \<Longrightarrow> pid < 100000 \<Longrightarrow> get_user_fifo_path pid = Inr (USER_FIFO_PATH_PREFIX @ show_int pid)"
  using user_fifo_path_eq [of pid] by (simp add: get_user_fifo_path_def user_fifo_path_def)

lemma read_reply_message:
  "length old = sizeof_tlv_reply \<Longrightarrow> read_reply old (enc_reply reply @ rest) = (True, enc_reply reply, rest)"
  by (simp add: read_reply_def read_bytes_def length_enc_reply message_sizes)

lemma receive_reply_message:
  assumes "length (c_reply env) = sizeof_tlv_reply" and "c_pipe env = enc_reply reply @ rest"
    and "op_ok (rep_type reply)" and "named_code (rep_code reply)"
  shows "\<exists>lg'. receive_reply env out path lg =
    Inr \<lparr>written = out, ulog = lg', printed = print_reply reply, removed = path\<rparr>"
proof -
  obtain n lg' where "logReply (c_pid env) (c_pid env) (Some reply) lg = Inr (n, lg')"
    using logReply_returns [OF assms(4)] by blast
  then show ?thesis
    using assms(1,2) dec_enc_reply [OF assms(3) named_code_rc_ok [OF assms(4)], of "[]"]
    by (simp add: receive_reply_def read_reply_message)
qed

lemma user_main_cases:
  assumes "length argv = 6" and "get_request (c_pid env) argv (c_request env) = Inr r" and "c_log env \<and> c_server env"
    and "0 \<le> c_pid env" and "c_pid env < 100000"
  obtains lg' where "user_main env argv lg =
    (case wait_fifo (c_exists env) 0 of
       None \<Rightarrow> None
     | Some _ \<Rightarrow> Some
         (if c_openable env then
            receive_reply env (enc_request (c_fill1 env) (c_fill2 env) r)
              (USER_FIFO_PATH_PREFIX @ show_int (c_pid env)) lg'
          else Inl (Exit (- 1))))"
proof -
  obtain n lg' where l: "logRequest (c_pid env) (sint (hdr_pid (req_hdr r))) (Some r) lg = Inr (n, lg')"
    using logRequest_returns by blast
  show thesis
    by (rule that [of lg'])
      (use assms l in \<open>simp add: user_main_def user_connect_server_def user_connect_fifo_reply_def
        get_user_fifo_path_eq Let_def split: option.splits\<close>)
qed

lemma client_hangs:
  assumes "length argv = 6" and "get_request (c_pid env) argv (c_request env) = Inr r" and "c_log env \<and> c_server env"
    and "0 \<le> c_pid env" and "c_pid env < 100000"
  shows "user_main env argv lg = None \<longleftrightarrow> (\<forall>k. \<not> c_exists env k)"
proof -
  have "user_main env argv lg = None \<longleftrightarrow> wait_fifo (c_exists env) 0 = None"
    by (rule user_main_cases [OF assms, of lg]) (simp split: option.splits)
  then show ?thesis by (simp add: wait_fifo_None)
qed

lemma client_prints:
  assumes "length argv = 6" and "get_request (c_pid env) argv (c_request env) = Inr r" and "c_log env \<and> c_server env"
    and "0 \<le> c_pid env" and "c_pid env < 100000"
    and "c_exists env k" and "c_openable env" and "length (c_reply env) = sizeof_tlv_reply"
    and "c_pipe env = enc_reply reply @ rest" and "op_ok (rep_type reply)" and "named_code (rep_code reply)"
  shows "\<exists>res. user_main env argv lg = Some (Inr res) \<and> printed res = print_reply reply \<and>
    written res = enc_request (c_fill1 env) (c_fill2 env) r \<and>
    removed res = USER_FIFO_PATH_PREFIX @ show_int (c_pid env)"
proof -
  obtain j where j: "wait_fifo (c_exists env) 0 = Some j"
    using wait_fifo_None [of "c_exists env"] assms(6) by auto
  show ?thesis
    by (rule user_main_cases [OF assms(1-5), of lg])
      (use j assms(7) receive_reply_message [OF assms(8-11)] in force)
qed

section \<open>Properties\<close>

lemma strtok_blank: "set s \<subseteq> {CHR '' ''} \<Longrightarrow> strtok '' '' s = None"
proof -
  assume "set s \<subseteq> {CHR '' ''}"
  then have "dropWhile (\<lambda>c. c \<in> set '' '') s = []" by auto
  then show ?thesis by (simp only: strtok_def list.case)
qed

lemma get_request_length: "get_request pid argv r = Inr r' \<Longrightarrow> req_length r' = req_length r"
  by (auto simp: get_request_def bind_res_eq_Inr Let_def split: if_splits)



text \<open>
  C19: What the client does with bad arguments. A password of more than 20 characters
  overflows its field; a creation or transfer whose last argument holds no operand reads
  through the null pointer strtok returns; an operation number above 3 is not rejected but
  leaves the operation and its operands uninitialised; and in no case is the length field of
  the message ever set.
\<close>

theorem get_request_faults:
  assumes "atoi a1 = Inr account" and "atoi a3 = Inr delay"
  shows "(20 < length pw \<longrightarrow> get_request pid [exe, a1, pw, a3, a4, text] r = Inl (Undefined BufferOverflow)) \<and>
    (length pw \<le> 20 \<and> k \<in> {0, 2} \<and> set text \<subseteq> {CHR '' ''} \<longrightarrow>
       get_request pid [exe, a1, pw, a3, dec k, text] r = Inl (Undefined NullDeref)) \<and>
    (length pw \<le> 20 \<and> 3 < k \<and> int k \<le> INT_MAX \<longrightarrow>
       (\<exists>req. get_request pid [exe, a1, pw, a3, dec k, text] r = Inr req \<and> req_type req = req_type r \<and>
          val_union (req_val req) = val_union (req_val r))) \<and>
    (\<forall>argv req. get_request pid argv r = Inr req \<longrightarrow> req_length req = req_length r)"
proof -
  have null: "get_create text u = Inl (Undefined NullDeref)" "get_transfer text u = Inl (Undefined NullDeref)"
    if "set text \<subseteq> {CHR '' ''}" for u
    using strtok_blank [OF that] by (simp_all add: get_create_def get_transfer_def atoi_token_def Let_def)
  have k: "atoi (dec k) = Inr (int k)" if "int k \<le> INT_MAX" using that by (rule atoi_dec)
  show ?thesis
    using assms null k get_request_length
    by (auto simp: get_request_def Let_def strcpy_def MAX_PASSWORD_LEN_def)
qed

theorem get_request_faults_witness:
  "get_request 4242 [''user'', dec 0, ''adminpass1'', dec 0, dec 0, []] (balance_request 9) =
      Inl (Undefined NullDeref) \<and>
    get_request 4242 [''user'', dec 0, replicate 21 CHR ''x'', dec 0, dec 0, []] (balance_request 9) =
      Inl (Undefined BufferOverflow)"
proof -
  have "atoi (dec 0) = Inr (int 0)" by (rule atoi_dec) simp
  from get_request_faults [OF this this, of "''adminpass1''" 4242 "''user''" "dec 0" "[]" "balance_request 9" 0]
    get_request_faults [OF this this, of "replicate 21 CHR ''x''" 4242 "''user''" "dec 0" "[]" "balance_request 9" 0]
  show ?thesis by simp
qed

text \<open>
  C18: The client has no timeout. With six arguments that parse, a log file, a reachable server and a
  process id below 100000, the client returns if and only if its reply FIFO exists at one of
  its tests: if the server never creates it (it was shut down, or an office crashed), the
  client waits for ever, and the timeout of FIFO_TIMEOUT_SECS seconds is nowhere used. When
  the FIFO appears and can be opened, the client prints the reply in it and removes the FIFO.
\<close>

theorem client_waits_for_its_fifo:
  assumes "length argv = 6" and "get_request (c_pid env) argv (c_request env) = Inr r" and "c_log env \<and> c_server env"
    and "0 \<le> c_pid env" and "c_pid env < 100000"
  shows "(user_main env argv lg = None \<longleftrightarrow> (\<forall>k. \<not> c_exists env k)) \<and>
    ((\<exists>k. c_exists env k) \<and> c_openable env \<and> length (c_reply env) = 20 \<and> c_pipe env = enc_reply reply \<and>
       op_ok (rep_type reply) \<and> named_code (rep_code reply) \<longrightarrow>
     (\<exists>res. user_main env argv lg = Some (Inr res) \<and> printed res = print_reply reply \<and>
        written res = enc_request (c_fill1 env) (c_fill2 env) r \<and>
        removed res = USER_FIFO_PATH_PREFIX @ show_int (c_pid env)))"
  using client_hangs [OF assms] client_prints [OF assms, where rest = "[]" and reply = reply and lg = lg]
  by (auto simp: message_sizes)

text \<open>Surroundings for evaluation: the FIFO appears at test \<open>n\<close>, if at all.\<close>

definition sample_client :: "nat option \<Rightarrow> string \<Rightarrow> client_env" where
  "sample_client n pipe =
     \<lparr>c_pid = 4242, c_log = True, c_server = True, c_exists = (\<lambda>k. n = Some k), c_openable = True, c_pipe = pipe,
      c_request = balance_request 9, c_fill1 = replicate 20 CHR ''x'', c_fill2 = replicate 20 CHR ''y'',
      c_reply = replicate 20 NUL\<rparr>"

lemma sample_client [simp]:
  "c_pid (sample_client n p) = 4242" "c_log (sample_client n p)" "c_server (sample_client n p)" "c_exists (sample_client n p) k = (n = Some k)"
  "c_openable (sample_client n p)" "c_pipe (sample_client n p) = p" "c_request (sample_client n p) = balance_request 9"
  "c_fill1 (sample_client n p) = replicate 20 CHR ''x''" "c_fill2 (sample_client n p) = replicate 20 CHR ''y''"
  "length (c_reply (sample_client n p)) = 20"
  by (simp_all add: sample_client_def)

theorem client_waits_for_its_fifo_witness:
  "user_main (sample_client None []) (command_line ''user'' 1 ''userpass1'' 5 (Check_Balance [])) [] = None \<and>
    (\<exists>res. user_main (sample_client (Some 3) (enc_reply sample_reply))
        (command_line ''user'' 1 ''userpass1'' 5 (Check_Balance [])) [] = Some (Inr res) \<and>
      printed res = ''YOUR BALANCE IS '' @ show_int 500 @ [newline])"
proof -
  let ?argv = "command_line ''user'' 1 ''userpass1'' 5 (Check_Balance [])"
  have l: "length ?argv = 6" by (simp add: command_line_def)
  have g: "get_request (c_pid (sample_client n p)) ?argv (c_request (sample_client n p)) =
      Inr (command_request 4242 1 ''userpass1'' 5 (Check_Balance []) (balance_request 9))" for n p
    using get_request_command_line [of "Check_Balance []" 1 5 "''userpass1''" 4242 "''user''" "balance_request 9"]
    by (simp add: MAX_PASSWORD_LEN_def)
  have "named_code (rep_code sample_reply)" by (simp add: named_code_def sample_reply_def)
  then show ?thesis
    using client_waits_for_its_fifo [OF l g, of None "[]" "[]"]
      client_waits_for_its_fifo [OF l g, of "Some 3" "enc_reply sample_reply" "[]" sample_reply] sample_messages_ok(3)
    by (auto simp: print_reply_def sample_reply_def)
qed

end
