(* ===== verification/End_To_End.thy ===== *)
theory End_To_End
  imports Server_Properties Client
begin

text \<open>
  What server and client need to know of each other: the codes and balances the server sends
  are ones the client can print, and the message the client prints for an accepted request
  shows the balance of the server's ledger.
\<close>

section \<open>Codes and balances as the client reads them\<close>

lemma spec_code_named: "request_ok r \<Longrightarrow> named_code (fst (spec_request auth r L))"
  by (auto simp: named_code_def spec_request_def spec_login_admin_def spec_login_user_def spec_create_def
      spec_transfer_def request_ok_def Let_def split: option.splits op_type.splits)

lemma show_balance: "unat (w :: u32) \<le> 1000000000 \<Longrightarrow> show_int (sint w) = dec (unat w)"
proof -
  assume "unat w \<le> 1000000000"
  then have "int (unat w) \<le> 1000000000" by linarith
  then have le: "uint w \<le> 1000000000" by simp
  have "- (2 ^ 31) \<le> uint w" by (rule order_trans [OF _ uint_ge_0]) simp
  then have "signed_take_bit 31 (uint w) = uint w"
    by (rule signed_take_bit_int_eq_self) (use le in simp)
  then have "sint w = int (unat w)" by (simp add: sint_uint)
  then show ?thesis by (simp only: show_int_def) simp
qed

text \<open>The message for an operation carried out, with the balance it leaves the user.\<close>

fun success_text :: "operands \<Rightarrow> nat \<Rightarrow> string" where
  "success_text (Check_Balance _) x = ''YOUR BALANCE IS '' @ dec x @ [newline]"
| "success_text (Transfer_To _ _) x = ''TRANSFER SUCCESSFUL. BALANCE IS NOW '' @ dec x @ [newline]"
| "success_text _ x = []"

definition about_balance :: "operands \<Rightarrow> bool" where
  "about_balance op \<longleftrightarrow> operation_id op \<in> {1, 2}"

lemma command_request_simps [simp]:
  "hdr_pid (req_hdr (command_request pid account password delay op r)) = of_int pid"
  "hdr_account_id (req_hdr (command_request pid account password delay op r)) = of_nat account"
  "hdr_password (req_hdr (command_request pid account password delay op r)) = password"
  "hdr_op_delay_ms (req_hdr (command_request pid account password delay op r)) = of_nat delay"
  by (cases op; simp add: command_request_def)+

lemma command_request_about_balance:
  "about_balance op \<Longrightarrow> req_type (command_request pid account password delay op r) =
     (if operation_id op = 1 then OP_BALANCE else OP_TRANSFER)"
  by (cases op) (simp_all add: about_balance_def command_request_def)

lemma prints_success:
  assumes "about_balance op" and "reply_matches (command_request pid account password delay op r) rep b"
    and "rep_code rep = RC_OK" and "account < 2 ^ 32"
  shows "\<exists>x. ledger b account = Some x \<and> print_reply rep = success_text op x"
proof -
  let ?w = "rep_word (rep_val rep)"
  have l: "ledger b account = Some (unat ?w)" and ok: "bank_ok b"
    using assms command_request_about_balance [OF assms(1), of pid account password delay r]
    by (auto simp: reply_matches_def unat_of_nat_u32 split: if_splits)
  have "unat ?w \<le> 1000000000"
    using ledger_SomeD [OF l] bank_inv_balance [of b account] ok by (simp add: bank_ok_def)
  then have "show_int (sint ?w) = dec (unat ?w)" by (rule show_balance)
  then have "print_reply rep = success_text op (unat ?w)"
    using assms(1,2) command_request_about_balance [OF assms(1), of pid account password delay r] assms(3)
    by (cases op) (simp_all add: print_reply_def reply_matches_def about_balance_def)
  then show ?thesis using l by blast
qed

text \<open>The message for a refusal.\<close>

lemma prints_refusal:
  "rep_code rep = RC_LOGIN_FAIL \<Longrightarrow> print_reply rep = ''Invalid account id / password.'' @ [newline]"
  "rep_code rep = RC_NO_FUNDS \<Longrightarrow> print_reply rep = ''The final balance would be too low.'' @ [newline]"
  "rep_code rep = RC_ID_IN_USE \<Longrightarrow> print_reply rep = ''That account id is already in use.'' @ [newline]"
  by (simp_all add: print_reply_def)

lemma client_pid_word: "0 \<le> pid \<Longrightarrow> pid < 100000 \<Longrightarrow> sint (of_int pid :: u32) = pid"
  by (simp add: sint_uint uint_word_of_int signed_take_bit_int_eq_self)

lemma sample_balance_wf: "wf_request (balance_request i)"
  by (rule sample_messages_ok)

lemma sample_command: "command_request 4242 1 ''userpass1'' 5 (Check_Balance []) (balance_request 9) = balance_request 1"
  by (simp add: command_request_def balance_request_def sample_request_def)

lemma sample_balance_spec:
  assumes "accounts b = accounts sample_bank"
  shows "spec_request (accepts sample_digest b) (balance_request 1) (ledger b) = (RC_OK, ledger b)" and "ledger b 1 = Some 500"
proof -
  have l: "ledger b = ledger sample_bank" using assms by (simp add: ledger_def fun_eq_iff)
  then show "ledger b 1 = Some 500" using sample_bank(2) by simp
  show "spec_request (accepts sample_digest b) (balance_request 1) (ledger b) = (RC_OK, ledger b)"
    using sample_bank unfolding l
    by (simp add: spec_request_def balance_request_def sample_request_def spec_login_user_def accepts_def assms Let_def)
      (simp add: sample_bank_def sample_account_def)
qed

end
