(* ===== verification/Races.thy ===== *)
theory Races
  imports Server_Properties
begin

text \<open>
  What happens in the running server when two offices process transfers from one account at
  the same time: the interleavings of \<open>Transfers\<close> are runs of the server, from the queue to
  the replies.
\<close>

section \<open>Schedules of accesses as runs of the server\<close>

lemma exec_office: "exec env (Office i) s = Some s' \<Longrightarrow> office_exec env i s = Some s'"
  by (auto split: if_splits)

lemma office_run_frame:
  assumes "run env (replicate n (Office i)) s = Some t"
  shows "j \<noteq> i \<Longrightarrow> offices t j = offices s j" and "num_threads t = num_threads s" and "shutdown t = shutdown s"
  using assms
proof (induction n arbitrary: s)
  case (Suc n)
  {
    case 1 then show ?case using Suc.IH(1) office_exec_frame(2) [OF exec_office] by (fastforce split: option.splits)
  next
    case 2 then show ?case using Suc.IH(2) office_exec_frame(1) [OF exec_office] by (fastforce split: option.splits)
  next
    case 3 then show ?case using Suc.IH(3) office_exec_frame(5) [OF exec_office] by (fastforce split: option.splits)
  }
qed simp_all

text \<open>The offices of \<open>K\<close> are in their transfers where the threads of \<open>p\<close> are, on the same accounts.\<close>

definition mirrors :: "nat set \<Rightarrow> transfers \<Rightarrow> server \<Rightarrow> bool" where
  "mirrors K p s \<longleftrightarrow> shared p = bank s \<and> crashed s = None \<and>
     (\<forall>k \<in> K. is_office k s \<and> pc s k = O_Ack \<and>
        (if t_pc (pool p k) = T_Done
         then progress (offices s k) = P_Length \<and> rep_val (office_reply (offices s k)) = t_value (pool p k)
         else progress (offices s k) = P_Transfer (pool p k)))"

definition only_processing :: "server \<Rightarrow> server \<Rightarrow> bool" where
  "only_processing s s' \<longleftrightarrow> sent s' = sent s \<and> acknowledged s' = acknowledged s \<and>
     (\<forall>j. pc s' j = pc s j \<and> next_request (offices s' j) = next_request (offices s j))"

lemma only_processing_refl [simp]: "only_processing s s"
  by (simp add: only_processing_def)

lemma only_processing_trans: "only_processing s t \<Longrightarrow> only_processing t u \<Longrightarrow> only_processing s u"
  by (simp add: only_processing_def)

lemma only_processing_processed [simp]: "only_processing s (processed i w r b s)"
  by (simp add: only_processing_def)

lemma mirrors_turn:
  assumes "mirrors K p s" and "k \<in> K" and "transfer_turn k p = Inr p'"
  shows "\<exists>es s'. run env (map Office es) s = Some s' \<and> mirrors K p' s' \<and> only_processing s s'"
proof (cases "t_pc (pool p k) = T_Done")
  case True
  then have "p' = p" using idle_turns [of p k 1] assms(3) by simp
  then show ?thesis using assms(1) by (intro exI [of _ "[]"]) simp
next
  case False
  obtain th b where th: "transfer_exec (pool p k) (shared p) = Inr (th, b)"
    and p': "p' = \<lparr>pool = (pool p)(k := th), shared = b\<rparr>"
    using assms(3) by (auto simp: transfer_turn_def bind_res_eq_Inr)
  have k: "is_office k s" "pc s k = O_Ack" "progress (offices s k) = P_Transfer (pool p k)" "crashed s = None" "shared p = bank s"
    using assms(1,2) False by (auto simp: mirrors_def)
  let ?rep = "office_reply (offices s k)"
  let ?w = "if t_pc th = T_Done then P_Length else P_Transfer th"
  let ?r = "if t_pc th = T_Done then ?rep\<lparr>rep_val := t_value th\<rparr> else ?rep"
  have "process_exec (env_sh env) (env_rnd env) (int k) (next_request (offices s k)) (progress (offices s k))
      ?rep (bank s) = Inr (?w, ?r, b)"
    using th k by simp
  from process_step_run [OF this _ k(1,2,4)] have "exec env (Office k) s = Some (processed k ?w ?r b s)"
    using k(3) by simp
  moreover have "mirrors K p' (processed k ?w ?r b s)"
    using assms(1) p' by (auto simp: mirrors_def processed_def is_office_def)
  ultimately show ?thesis by (intro exI [of _ "[k]"] exI [of _ "processed k ?w ?r b s"]) simp
qed

lemma mirrors_schedule:
  "mirrors K p s \<Longrightarrow> set ks \<subseteq> K \<Longrightarrow> schedule ks p = Inr p' \<Longrightarrow>
    \<exists>es s'. run env (map Office es) s = Some s' \<and> mirrors K p' s' \<and> only_processing s s'"
proof (induction ks arbitrary: p s)
  case Nil
  then show ?case by (intro exI [of _ "[]"]) simp
next
  case (Cons k ks)
  then obtain q where q: "transfer_turn k p = Inr q" "schedule ks q = Inr p'"
    by (auto simp: bind_res_eq_Inr)
  obtain es s1 where s1: "run env (map Office es) s = Some s1" "mirrors K q s1" "only_processing s s1"
    using mirrors_turn [OF Cons.prems(1) _ q(1)] Cons.prems(2) by fastforce
  obtain es' s2 where "run env (map Office es') s1 = Some s2" "mirrors K p' s2" "only_processing s1 s2"
    using Cons.IH [OF s1(2) _ q(2)] Cons.prems(2) by auto
  then show ?case
    using s1 only_processing_trans by (intro exI [of _ "es @ es'"] exI [of _ s2]) (auto simp: run_append)
qed

section \<open>Before and after the transfer\<close>

lemma transfer_login:
  assumes "sha256_shell sh digest" and "bank_ok b" and "request_ok r" and "req_type r = OP_TRANSFER"
    and "spec_login_user (accepts digest b) (req_hdr r) (ledger b) = RC_OK"
  shows "\<exists>rep b'. process sh rnd k r 4 P_Begin reply b =
      Inr (P_Transfer (transfer_start (hdr_account_id (req_hdr r)) (value_transfer (req_val r)) (rep_val rep)), rep, b') \<and>
    accounts b' = accounts b"
proof -
  let ?b = "usleep (hdr_op_delay_ms (req_hdr r)) b"
  have "accepts digest ?b = accepts digest b" by (simp add: accepts_def fun_eq_iff)
  then show ?thesis
    unfolding process_validation using validate_request_eq [OF assms(1) _ assms(3), of ?b] assms(2,4,5)
    by (simp add: dispatch_on_def Let_def)
qed

lemma deliver_run:
  assumes "is_office k s" "pc s k = O_Ack" "progress (offices s k) = P_Length" "crashed s = None"
    and "0 \<le> sint (hdr_pid (req_hdr (next_request (offices s k))))"
    and "sint (hdr_pid (req_hdr (next_request (offices s k)))) < 100000"
    and "env_fs env = \<lparr>creatable = \<lambda>_. True, removable = \<lambda>_. True, openable = \<lambda>_. True\<rparr>"
  shows "\<exists>t. run env (replicate 3 (Office k)) s = Some t \<and> crashed t = None \<and> bank t = bank s \<and>
    sent t = sent s @ [(hdr_pid (req_hdr (next_request (offices s k))), finish_reply (office_reply (offices s k)))] \<and>
    acknowledged t = acknowledged s @ [(next_request (offices s k), finish_reply (office_reply (offices s k)))]"
proof -
  obtain p fs where "user_fifo_create (env_fs env) (sint (hdr_pid (req_hdr (next_request (offices s k))))) (fifos s) = Inr (p, fs)"
    using user_fifo_ok [OF assms(5-7)] by blast
  then show ?thesis
    using assms(1-4) by (simp add: numeral_3_eq_3 office_exec_def is_office_def Let_def)
qed

section \<open>Two transfers that would both be accepted\<close>

lemma accepted_transfer:
  assumes "bank_ok b" and "request_ok r" and "req_type r = OP_TRANSFER"
    and "fst (spec_request (accepts digest b) r (ledger b)) = RC_OK"
  shows "spec_login_user (accepts digest b) (req_hdr r) (ledger b) = RC_OK"
    and "passes (hdr_account_id (req_hdr r)) (value_transfer (req_val r)) b"
proof -
  let ?i = "hdr_account_id (req_hdr r)" and ?t = "value_transfer (req_val r)"
  show login: "spec_login_user (accepts digest b) (req_hdr r) (ledger b) = RC_OK"
    using assms(3,4) by (auto simp: spec_request_def Let_def split: if_splits)
  then have led: "ledger b (unat ?i) \<noteq> None" by (auto simp: spec_login_user_def Let_def split: if_splits)
  have dst: "unat (trf_account_id ?t) < 4096"
    using assms(2,3) by (auto simp: request_ok_def value_transfer_def)
  have "transfer_verdict ?i ?t b = RC_OK"
    using transfer_verdict_spec [OF led dst] login assms(3,4) by (auto simp: spec_request_def Let_def)
  then show "passes ?i ?t b"
    using led dst assms(1) by (auto simp: passes_def bank_ok_def dest: ledger_SomeD)
qed

text \<open>Two idle offices take the first two requests.\<close>

lemma both_taken:
  assumes "i \<noteq> j" "is_office i s" "is_office j s" "pc s i = O_Top" "pc s j = O_Top"
    and "crashed s = None" "\<not> shutdown s" "queue_mut s = None"
    and "queue_inv (request_queue s)" "queue_list (request_queue s) = r # r' # rs"
  shows "\<exists>u. run env (map Office (replicate 8 i @ replicate 8 j)) s = Some u \<and> crashed u = None \<and>
    is_office i u \<and> pc u i = O_Ack \<and> progress (offices u i) = P_Begin \<and> next_request (offices u i) = r \<and>
    is_office j u \<and> pc u j = O_Ack \<and> progress (offices u j) = P_Begin \<and> next_request (offices u j) = r' \<and>
    acknowledged u = acknowledged s \<and> sent u = sent s \<and> bank u = (bank s)\<lparr>slog := slog (bank u)\<rparr>"
proof -
  obtain u1 where u1: "run env (replicate 8 (Office i)) s = Some u1" "pc u1 i = O_Ack" "progress (offices u1 i) = P_Begin"
    "is_office i u1" "crashed u1 = None" "queue_mut u1 = None" "queue_list (request_queue u1) = r' # rs"
    "queue_inv (request_queue u1)" "next_request (offices u1 i) = r" "acknowledged u1 = acknowledged s" "sent u1 = sent s"
    "bank u1 = (bank s)\<lparr>slog := slog (bank u1)\<rparr>"
    using take_run [OF assms(2,4,6,7,8,9,10), of env] by blast
  have fr1: "offices u1 j = offices s j" "num_threads u1 = num_threads s" "\<not> shutdown u1"
    using office_run_frame [OF u1(1)] assms(1,7) by auto
  have j1: "is_office j u1" "pc u1 j = O_Top" using fr1 assms(3,5) by (simp_all add: is_office_def)
  obtain u2 where u2: "run env (replicate 8 (Office j)) u1 = Some u2" "pc u2 j = O_Ack" "progress (offices u2 j) = P_Begin"
    "is_office j u2" "crashed u2 = None" "next_request (offices u2 j) = r'" "acknowledged u2 = acknowledged u1" "sent u2 = sent u1"
    "bank u2 = (bank u1)\<lparr>slog := slog (bank u2)\<rparr>"
    using take_run [OF j1 u1(5) fr1(3) u1(6,8,7), of env] by blast
  have fr2: "offices u2 i = offices u1 i" "num_threads u2 = num_threads u1"
    using office_run_frame [OF u2(1)] assms(1) by auto
  have "bank u2 = (bank s)\<lparr>slog := slog (bank u2)\<rparr>" by (subst u2(9), subst u1(12)) simp
  moreover have "run env (map Office (replicate 8 i @ replicate 8 j)) s = Some u2"
    using u1(1) u2(1) by (simp add: run_append)
  ultimately show ?thesis
    using u1(2,3,4,9,10,11) u2(2-8) fr2 by (intro exI [of _ u2]) (simp add: is_office_def)
qed

text \<open>They log their users in.\<close>

lemma both_in_transfer:
  assumes "i \<noteq> j" "is_office i s" "is_office j s" "pc s i = O_Top" "pc s j = O_Top"
    and "crashed s = None" "\<not> shutdown s" "queue_mut s = None"
    and "queue_inv (request_queue s)" "queue_list (request_queue s) = r # r' # rs"
    and "sha256_shell (env_sh env) digest" "bank_ok (bank s)"
    and "request_ok r" "req_type r = OP_TRANSFER" "spec_login_user (accepts digest (bank s)) (req_hdr r) (ledger (bank s)) = RC_OK"
    and "request_ok r'" "req_type r' = OP_TRANSFER" "spec_login_user (accepts digest (bank s)) (req_hdr r') (ledger (bank s)) = RC_OK"
  shows "\<exists>es u p rv rv'. run env (map Office es) s = Some u \<and> mirrors {i, j} p u \<and> sent u = sent s \<and>
    acknowledged u = acknowledged s \<and> next_request (offices u i) = r \<and> next_request (offices u j) = r' \<and>
    pool p i = transfer_start (hdr_account_id (req_hdr r)) (value_transfer (req_val r)) rv \<and>
    pool p j = transfer_start (hdr_account_id (req_hdr r')) (value_transfer (req_val r')) rv' \<and>
    accounts (bank u) = accounts (bank s)"
proof -
  obtain u2 where u2: "run env (map Office (replicate 8 i @ replicate 8 j)) s = Some u2" "crashed u2 = None"
    "is_office i u2" "pc u2 i = O_Ack" "progress (offices u2 i) = P_Begin" "next_request (offices u2 i) = r"
    "is_office j u2" "pc u2 j = O_Ack" "progress (offices u2 j) = P_Begin" "next_request (offices u2 j) = r'"
    "acknowledged u2 = acknowledged s" "sent u2 = sent s" "bank u2 = (bank s)\<lparr>slog := slog (bank u2)\<rparr>"
    using both_taken [OF assms(1-10), of env] by blast
  have same: "accounts (bank u2) = accounts (bank s)" by (subst u2(13)) simp
  have auth: "accepts digest b = accepts digest b'" if "accounts b = accounts b'" for b b' :: bank
    using that by (simp add: accepts_def fun_eq_iff)
  have b2: "bank_ok (bank u2)" "spec_login_user (accepts digest (bank u2)) (req_hdr r) (ledger (bank u2)) = RC_OK"
    using bank_ok_accounts [OF same] auth [OF same] ledger_accounts [OF same] assms(12,15) by simp_all
  obtain rep b where p3: "process (env_sh env) (env_rnd env) (int i) r 4 P_Begin (office_reply (offices u2 i)) (bank u2) =
      Inr (P_Transfer (transfer_start (hdr_account_id (req_hdr r)) (value_transfer (req_val r)) (rep_val rep)), rep, b)"
    "accounts b = accounts (bank u2)"
    using transfer_login [OF assms(11) b2(1) assms(13,14) b2(2)] by blast
  let ?th = "transfer_start (hdr_account_id (req_hdr r)) (value_transfer (req_val r)) (rep_val rep)"
  let ?u3 = "processed i (P_Transfer ?th) rep b u2"
  have run3: "run env (replicate 4 (Office i)) u2 = Some ?u3"
    by (rule process_run_exact) (use p3(1) u2(2-6) in simp_all)
  have same3: "accounts b = accounts (bank s)" using p3(2) same by simp
  have b3: "bank_ok b" "spec_login_user (accepts digest b) (req_hdr r') (ledger b) = RC_OK"
    using bank_ok_accounts [OF same3] auth [OF same3] ledger_accounts [OF same3] assms(12,18) by simp_all
  obtain rep' b' where p4: "process (env_sh env) (env_rnd env) (int j) r' 4 P_Begin (office_reply (offices u2 j)) b =
      Inr (P_Transfer (transfer_start (hdr_account_id (req_hdr r')) (value_transfer (req_val r')) (rep_val rep')), rep', b')"
    "accounts b' = accounts b"
    using transfer_login [OF assms(11) b3(1) assms(16,17) b3(2)] by blast
  let ?th' = "transfer_start (hdr_account_id (req_hdr r')) (value_transfer (req_val r')) (rep_val rep')"
  let ?u4 = "processed j (P_Transfer ?th') rep' b' ?u3"
  have run4: "run env (replicate 4 (Office j)) ?u3 = Some ?u4"
    by (rule process_run_exact) (use p4(1) u2(2,7-10) assms(1) in simp_all)
  let ?p = "\<lparr>pool = (\<lambda>k. if k = i then ?th else ?th'), shared = b'\<rparr>"
  have "run env (map Office (replicate 8 i @ replicate 8 j @ replicate 4 i @ replicate 4 j)) s = Some ?u4"
    using u2(1) run3 run4 by (auto simp: run_append split: option.splits)
  moreover have "mirrors {i, j} ?p ?u4"
    using assms(1) u2(2,3,4,7,8) by (simp add: mirrors_def transfer_start_def)
  moreover have "next_request (offices ?u4 i) = r" "next_request (offices ?u4 j) = r'"
    using u2(6,10) by simp_all
  moreover have "sent ?u4 = sent s" "acknowledged ?u4 = acknowledged s" "accounts (bank ?u4) = accounts (bank s)"
    using u2(11,12) p4(2) same3 by simp_all
  ultimately show ?thesis
    using assms(1) by (intro exI [of _ "replicate 8 i @ replicate 8 j @ replicate 4 i @ replicate 4 j"] exI [of _ ?u4]
        exI [of _ ?p] exI [of _ "rep_val rep"] exI [of _ "rep_val rep'"]) simp
qed

text \<open>Two offices that are done write their replies.\<close>

lemma deliver_two:
  assumes "i \<noteq> j" "crashed v = None" "is_office i v" "pc v i = O_Ack" "progress (offices v i) = P_Length"
    "is_office j v" "pc v j = O_Ack" "progress (offices v j) = P_Length"
    and "next_request (offices v i) = r" and "next_request (offices v j) = r'"
    and "0 \<le> sint (hdr_pid (req_hdr r))" "sint (hdr_pid (req_hdr r)) < 100000"
    and "0 \<le> sint (hdr_pid (req_hdr r'))" "sint (hdr_pid (req_hdr r')) < 100000"
    and "env_fs env = \<lparr>creatable = \<lambda>_. True, removable = \<lambda>_. True, openable = \<lambda>_. True\<rparr>"
  shows "\<exists>t rep rep'. run env (map Office (replicate 3 i @ replicate 3 j)) v = Some t \<and> bank t = bank v \<and>
    sent t = sent v @ [(hdr_pid (req_hdr r), rep), (hdr_pid (req_hdr r'), rep')] \<and>
    acknowledged t = acknowledged v @ [(r, rep), (r', rep')] \<and>
    rep_code rep = rep_code (office_reply (offices v i)) \<and> rep_code rep' = rep_code (office_reply (offices v j))"
proof -
  let ?rep = "finish_reply (office_reply (offices v i))" and ?rep' = "finish_reply (office_reply (offices v j))"
  obtain u where u: "run env (replicate 3 (Office i)) v = Some u" "crashed u = None" "bank u = bank v"
    "sent u = sent v @ [(hdr_pid (req_hdr r), ?rep)]" "acknowledged u = acknowledged v @ [(r, ?rep)]"
    using deliver_run [OF assms(3-5,2) _ _ assms(15)] assms(9,11,12) by blast
  have fr: "offices u j = offices v j" "num_threads u = num_threads v"
    using office_run_frame [OF u(1)] assms(1) by auto
  obtain t where t: "run env (replicate 3 (Office j)) u = Some t" "bank t = bank u"
    "sent t = sent u @ [(hdr_pid (req_hdr r'), ?rep')]" "acknowledged t = acknowledged u @ [(r', ?rep')]"
    using deliver_run [of j u env] assms(6-8) u(2) assms(10,13,14,15) fr by (auto simp: is_office_def)
  have "run env (map Office (replicate 3 i @ replicate 3 j)) v = Some t"
    using u(1) t(1) by (simp add: run_append)
  then show ?thesis
    using t(2-4) u(3-5) by (intro exI [of _ t] exI [of _ ?rep] exI [of _ ?rep']) (simp add: finish_reply_def)
qed

lemma deliver_both:
  assumes "mirrors {i, j} p v" and "i \<noteq> j" and "finished_ok (pool p i)" and "finished_ok (pool p j)"
    and "next_request (offices v i) = r" and "next_request (offices v j) = r'"
    and "0 \<le> sint (hdr_pid (req_hdr r))" "sint (hdr_pid (req_hdr r)) < 100000"
    and "0 \<le> sint (hdr_pid (req_hdr r'))" "sint (hdr_pid (req_hdr r')) < 100000"
    and "env_fs env = \<lparr>creatable = \<lambda>_. True, removable = \<lambda>_. True, openable = \<lambda>_. True\<rparr>"
  shows "\<exists>t rep rep'. run env (map Office (replicate 3 i @ replicate 3 j)) v = Some t \<and> bank t = bank v \<and>
    sent t = sent v @ [(hdr_pid (req_hdr r), rep), (hdr_pid (req_hdr r'), rep')] \<and>
    acknowledged t = acknowledged v @ [(r, rep), (r', rep')] \<and> rep_code rep = RC_OK \<and> rep_code rep' = RC_OK"
proof -
  have at: "is_office i v" "pc v i = O_Ack" "progress (offices v i) = P_Length" "is_office j v" "pc v j = O_Ack"
    "progress (offices v j) = P_Length" "crashed v = None" "rep_code (office_reply (offices v i)) = RC_OK"
    "rep_code (office_reply (offices v j)) = RC_OK"
    using assms(1,3,4) by (auto simp: mirrors_def finished_ok_def)
  show ?thesis using deliver_two [OF assms(2) at(7,1-6) assms(5-11)] at(8,9) by simp
qed

text \<open>Any schedule of the accesses after which both transfers have succeeded is a run from the queue to the replies.\<close>

lemma schedule_served:
  assumes "run env (map Office es) s = Some u" "mirrors {i, j} p u" "sent u = sent s" "acknowledged u = acknowledged s"
    and "next_request (offices u i) = r" "next_request (offices u j) = r'" and "i \<noteq> j"
    and "set ks \<subseteq> {i, j}" "schedule ks p = Inr p'" "finished_ok (pool p' i)" "finished_ok (pool p' j)"
    and "0 \<le> sint (hdr_pid (req_hdr r))" "sint (hdr_pid (req_hdr r)) < 100000"
    and "0 \<le> sint (hdr_pid (req_hdr r'))" "sint (hdr_pid (req_hdr r')) < 100000"
    and "env_fs env = \<lparr>creatable = \<lambda>_. True, removable = \<lambda>_. True, openable = \<lambda>_. True\<rparr>"
  shows "\<exists>es t rep rep'. run env (map Office es) s = Some t \<and> bank t = shared p' \<and>
    sent t = sent s @ [(hdr_pid (req_hdr r), rep), (hdr_pid (req_hdr r'), rep')] \<and> rep_code rep = RC_OK \<and> rep_code rep' = RC_OK"
proof -
  obtain es' v where v: "run env (map Office es') u = Some v" "mirrors {i, j} p' v" "only_processing u v"
    using mirrors_schedule [OF assms(2,8,9)] by blast
  have "next_request (offices v i) = r" "next_request (offices v j) = r'" "sent v = sent s"
    using v(3) assms(3,5,6) by (simp_all add: only_processing_def)
  moreover from deliver_both [OF v(2) assms(7,10,11) this(1,2) assms(12-16)] obtain t rep rep' where
    "run env (map Office (replicate 3 i @ replicate 3 j)) v = Some t" "bank t = bank v"
    "sent t = sent v @ [(hdr_pid (req_hdr r), rep), (hdr_pid (req_hdr r'), rep')]" "rep_code rep = RC_OK" "rep_code rep' = RC_OK"
    by blast
  moreover have "bank v = shared p'" using v(2) by (simp add: mirrors_def)
  ultimately show ?thesis
    using assms(1) v(1)
    by (intro exI [of _ "es @ es' @ replicate 3 i @ replicate 3 j"] exI [of _ t] exI [of _ rep] exI [of _ rep'])
      (simp add: run_append)
qed

text \<open>
  C5: Two transfers from one account at the same time break the books. Let two idle offices
  find at the head of a well-formed queue two well-formed transfer requests of one user, from clients with process
  ids of 0 to 99999, to two different accounts, neither the user's, and let the specification accept either of them in the present bank, which
  is in order; let every call on a FIFO succeed, and let the shell print sha256sum's line with an unused byte behind the array
  hash (C1). Because nothing locks the accounts, the offices have a run of
  their own statements that ends with both clients being told RC_OK while the first amount was
  credited but never debited, so that the bank has that much money more; and if the two amounts
  together exceed the balance, one that ends with both being told RC_OK and the user's balance
  wrapped around: it is 2^32 plus the balance before minus both amounts.
\<close>

theorem racing_requests_break_the_books:
  assumes "i \<noteq> j" "is_office i s" "is_office j s" "opc (offices s i) = O_Top" "opc (offices s j) = O_Top"
    and "crashed s = None" "\<not> shutdown s" "queue_mut s = None"
    and "queue_inv (request_queue s)" "queue_list (request_queue s) = r # r' # rs"
    and "sha256_shell (env_sh env) digest" "bank_ok (bank s)"
    and "request_ok r" "req_type r = OP_TRANSFER" "request_ok r'" "req_type r' = OP_TRANSFER"
    and "fst (spec_request (accepts digest (bank s)) r (ledger (bank s))) = RC_OK"
    and "fst (spec_request (accepts digest (bank s)) r' (ledger (bank s))) = RC_OK"
    and "t = value_transfer (req_val r)" "t' = value_transfer (req_val r')"
    and "a = hdr_account_id (req_hdr r)" "hdr_account_id (req_hdr r') = a"
    and "trf_account_id t \<noteq> a" "trf_account_id t' \<noteq> a" "trf_account_id t \<noteq> trf_account_id t'"
    and "0 \<le> sint (hdr_pid (req_hdr r))" "sint (hdr_pid (req_hdr r)) < 100000"
    and "0 \<le> sint (hdr_pid (req_hdr r'))" "sint (hdr_pid (req_hdr r')) < 100000"
    and "env_fs env = \<lparr>creatable = \<lambda>_. True, removable = \<lambda>_. True, openable = \<lambda>_. True\<rparr>"
  shows "(\<exists>es u rep rep'. run env (map Office es) s = Some u \<and>
      sent u = sent s @ [(hdr_pid (req_hdr r), rep), (hdr_pid (req_hdr r'), rep')] \<and> rep_code rep = RC_OK \<and> rep_code rep' = RC_OK \<and>
      total_funds (bank u) = total_funds (bank s) + unat (trf_amount t)) \<and>
    (unat (acc_balance (accounts (bank s) (unat a))) < unat (trf_amount t) + unat (trf_amount t') \<longrightarrow>
     (\<exists>es u rep rep'. run env (map Office es) s = Some u \<and>
      sent u = sent s @ [(hdr_pid (req_hdr r), rep), (hdr_pid (req_hdr r'), rep')] \<and> rep_code rep = RC_OK \<and> rep_code rep' = RC_OK \<and>
      unat (acc_balance (accounts (bank u) (unat a))) + unat (trf_amount t) + unat (trf_amount t') =
        2 ^ 32 + unat (acc_balance (accounts (bank s) (unat a)))))"
proof -
  note acc = accepted_transfer [OF assms(12,13,14,17)] and acc' = accepted_transfer [OF assms(12,15,16,18)]
  obtain es u p rv rv' where u: "run env (map Office es) s = Some u" "mirrors {i, j} p u" "sent u = sent s"
    "acknowledged u = acknowledged s" "next_request (offices u i) = r" "next_request (offices u j) = r'"
    "pool p i = transfer_start a t rv" "pool p j = transfer_start a t' rv'" "accounts (bank u) = accounts (bank s)"
    using both_in_transfer [OF assms(1-12,13,14) acc(1) assms(15,16) acc'(1)] unfolding assms(19-22) by blast
  have sh: "accounts (shared p) = accounts (bank s)" using u(2,9) by (simp add: mirrors_def)
  have "passes a t (shared p) = passes a t (bank s)" for a t
    unfolding passes_def bank_inv_def transfer_verdict_def Let_def sh ..
  then have ps: "passes a t (shared p)" "passes a t' (shared p)" using acc(2) acc'(2) assms(19-22) by simp_all
  note served = schedule_served [OF u(1-6) assms(1) _ _ _ _ assms(26-30)]
  obtain p1 where "schedule (replicate 5 i @ replicate 5 j @ replicate 4 i @ replicate 4 j) p = Inr p1"
    "finished_ok (pool p1 i)" "finished_ok (pool p1 j)" "total_funds (shared p1) = total_funds (shared p) + unat (trf_amount t)"
    using lost_update [OF ps assms(1) u(7,8) assms(23-25)] by blast
  with served [OF _ this(1)] total_funds_accounts [OF sh]
  have lost: "\<exists>es u rep rep'. run env (map Office es) s = Some u \<and>
      sent u = sent s @ [(hdr_pid (req_hdr r), rep), (hdr_pid (req_hdr r'), rep')] \<and> rep_code rep = RC_OK \<and> rep_code rep' = RC_OK \<and>
      total_funds (bank u) = total_funds (bank s) + unat (trf_amount t)"
    by fastforce
  {
    assume "unat (acc_balance (accounts (bank s) (unat a))) < unat (trf_amount t) + unat (trf_amount t')"
    then obtain p2 where "schedule (replicate 4 i @ replicate 4 j @ replicate 5 i @ replicate 5 j) p = Inr p2"
      "finished_ok (pool p2 i)" "finished_ok (pool p2 j)"
      "unat (acc_balance (accounts (shared p2) (unat a))) + unat (trf_amount t) + unat (trf_amount t') =
        2 ^ 32 + unat (acc_balance (accounts (bank s) (unat a)))"
      using overdraft [OF ps assms(1) u(7,8) assms(23,24)] unfolding sh by blast
    with served [OF _ this(1)]
    have "\<exists>es u rep rep'. run env (map Office es) s = Some u \<and>
      sent u = sent s @ [(hdr_pid (req_hdr r), rep), (hdr_pid (req_hdr r'), rep')] \<and> rep_code rep = RC_OK \<and> rep_code rep' = RC_OK \<and>
      unat (acc_balance (accounts (bank u) (unat a))) + unat (trf_amount t) + unat (trf_amount t') =
        2 ^ 32 + unat (acc_balance (accounts (bank s) (unat a)))"
      by fastforce
  }
  with lost show ?thesis by blast
qed

text \<open>Three users, two requests of the first that each take all the money, and two offices.\<close>

definition racing_bank :: bank where
  "racing_bank = set_account 3 (sample_account 3 ''userpass3'' 7) sample_bank"

definition racing_request :: "u32 \<Rightarrow> tlv_request" where
  "racing_request k = transfer_request 1 ''userpass1'' k 500"

lemma racing_bank: "bank_ok racing_bank" "ledger racing_bank = (ledger sample_bank)(3 \<mapsto> 7)"
proof -
  show "bank_ok racing_bank"
    using sample_bank(1) sample_words(1)
    by (auto simp: bank_ok_def racing_bank_def sample_account_def account_ok_def SALT_LEN_def intro!: bank_inv_set salts_ok_set)
  show "ledger racing_bank = (ledger sample_bank)(3 \<mapsto> 7)"
    by (simp add: fun_eq_iff ledger_def racing_bank_def sample_account_def)
qed

lemma racing_request:
  assumes "k = 2 \<or> k = 3"
  shows "request_ok (racing_request k)" "req_type (racing_request k) = OP_TRANSFER"
    "value_transfer (req_val (racing_request k)) = \<lparr>trf_account_id = k, trf_amount = 500\<rparr>"
    "hdr_account_id (req_hdr (racing_request k)) = 1" "sint (hdr_pid (req_hdr (racing_request k))) = 4242"
    "fst (spec_request (accepts sample_digest racing_bank) (racing_request k) (ledger racing_bank)) = RC_OK"
proof -
  have "accepts sample_digest racing_bank 1 ''userpass1''"
    by (simp add: accepts_def racing_bank_def sample_bank_def sample_account_def)
  then show "fst (spec_request (accepts sample_digest racing_bank) (racing_request k) (ledger racing_bank)) = RC_OK"
    using assms sample_bank(2,3) unfolding racing_bank(2)
    by (auto simp: spec_request_def racing_request_def transfer_request_def sample_request_def spec_login_user_def
        spec_transfer_def value_transfer_def ledger_transfer_def Let_def)
qed (use assms sample_words(3) in \<open>auto simp: racing_request_def transfer_request_def sample_request_def request_ok_def
    value_transfer_def MAX_PASSWORD_LEN_def MAX_BANK_ACCOUNTS_def\<close>)

lemma idle_offices_run:
  assumes "\<forall>r\<in>set rs. req_type r \<noteq> OP_SHUTDOWN" and "length rs < 2 ^ 32"
  shows "\<exists>s. run sample_env ([Office 1, Office 2] @ arrivals rs) (init_server sample_env 2 b []) = Some s \<and>
    pc s 1 = O_Top \<and> pc s 2 = O_Top \<and> num_threads s = 2 \<and> crashed s = None \<and> \<not> shutdown s \<and> queue_mut s = None \<and>
    queue_inv (request_queue s) \<and> queue_list (request_queue s) = rs \<and> accounts (bank s) = accounts b"
proof -
  obtain u where u: "run sample_env [Office 1, Office 2] (init_server sample_env 2 b []) = Some u" "main_thread u = M_Read"
    "queue_mut u = None" "crashed u = None" "request_queue u = static_queue" "\<not> shutdown u" "num_threads u = 2"
    "accounts (bank u) = accounts b" "\<forall>j. pc u j = (if j = 1 \<or> j = 2 then O_Top else O_Start)"
    by (simp add: init_server_def office_exec_def is_office_def sample_env_def Let_def)
  have nb: "\<not> someone_blocked u" using u(9) by (auto simp: someone_blocked_def blocked_def list_ex_iff)
  have q: "queue_inv (request_queue u)" "length (queue_list (request_queue u)) + length rs < 2 ^ 32"
    using u(5) assms(2) by simp_all
  from arrivals_run [OF sample_env_supplies assms(1) u(2,3,4) nb q]
  obtain t where t: "run sample_env (arrivals rs) u = Some t" "queue_mut t = None" "crashed t = None"
    "queue_inv (request_queue t)" "queue_list (request_queue t) = queue_list (request_queue u) @ rs"
    "offices t = offices u" "num_threads t = num_threads u" "shutdown t = shutdown u" "bank t = (bank u)\<lparr>slog := slog (bank t)\<rparr>"
    by blast
  have "accounts (bank t) = accounts (bank u)" by (subst t(9)) simp
  moreover have "run sample_env ([Office 1, Office 2] @ arrivals rs) (init_server sample_env 2 b []) = Some t"
    using u(1) t(1) by (simp only: run_append option.case)
  ultimately show ?thesis using t(2-8) u(5-9) by (intro exI [of _ t]) simp
qed

theorem racing_requests_break_the_books_witness:
  "\<exists>es u. run sample_env es (init_server sample_env 2 racing_bank []) = Some u \<and>
    unat (acc_balance (accounts (bank u) 1)) = 4294966796"
proof -
  let ?rs = "[racing_request 2, racing_request 3]"
  note r = racing_request [of 2, simplified] and r' = racing_request [of 3, simplified]
  obtain s where s: "run sample_env ([Office 1, Office 2] @ arrivals ?rs) (init_server sample_env 2 racing_bank []) = Some s"
    "pc s 1 = O_Top" "pc s 2 = O_Top" "num_threads s = 2" "crashed s = None" "\<not> shutdown s" "queue_mut s = None"
    "queue_inv (request_queue s)" "queue_list (request_queue s) = ?rs" "accounts (bank s) = accounts racing_bank"
    using idle_offices_run [of ?rs racing_bank] r(2) r'(2) by auto
  have o: "is_office 1 s" "is_office 2 s" using s(4) by (simp_all add: is_office_def)
  have sh: "sha256_shell (env_sh sample_env) sample_digest"
    "env_fs sample_env = \<lparr>creatable = \<lambda>_. True, removable = \<lambda>_. True, openable = \<lambda>_. True\<rparr>"
    using sample_shell by (simp_all add: sample_env_def)
  have b: "bank_ok (bank s)" using bank_ok_accounts [OF s(10)] racing_bank(1) by simp
  have same: "accepts sample_digest (bank s) = accepts sample_digest racing_bank" "ledger (bank s) = ledger racing_bank"
    using s(10) ledger_accounts [OF s(10)] by (simp_all add: accepts_def fun_eq_iff)
  have bal: "acc_balance (accounts (bank s) (Suc 0)) = 500"
    by (simp add: s(10) racing_bank_def sample_bank_def sample_account_def)
  have "\<exists>es u. run sample_env (map Office es) s = Some u \<and>
      unat (acc_balance (accounts (bank u) (unat (1 :: u32)))) + 500 + 500 = 2 ^ 32 + 500"
    using racing_requests_break_the_books [OF _ o s(2,3) s(5-9) sh(1) b r(1,2) r'(1,2) _ _ refl refl refl _ _ _ _ _ _ _ _ sh(2)]
      r(3-6) r'(3-6) by (auto simp: same bal)
  then obtain es u where u: "run sample_env (map Office es) s = Some u" "unat (acc_balance (accounts (bank u) 1)) = 4294966796"
    by auto
  have "run sample_env (([Office 1, Office 2] @ arrivals ?rs) @ map Office es) (init_server sample_env 2 racing_bank []) = Some u"
    using s(1) u(1) by (simp only: run_append option.case)
  with u(2) show ?thesis by blast
qed

end
