(* ===== verification/Robustness.thy ===== *)
theory Robustness
  imports Server_Properties
begin

text \<open>
  What holds of the accounts and the offices however the accesses of the offices interleave:
  well-formed requests do not fault, and neither an account that is open nor the
  credentials of the administrator are lost.
\<close>

section \<open>Steps of processing\<close>

text \<open>What an office knows at each position of \<open>acknowledge_request\<close>, for a well-formed request.\<close>

definition creates :: "processing \<Rightarrow> bool" where
  "creates w \<longleftrightarrow> (case w of P_Store_Id \<Rightarrow> True | P_Store_Balance \<Rightarrow> True | P_Store_Salt \<Rightarrow> True
     | P_Store_Hash _ \<Rightarrow> True | _ \<Rightarrow> False)"

fun progress_ok :: "tlv_request \<Rightarrow> processing \<Rightarrow> bool" where
  "progress_ok r P_Salt = (hdr_account_id (req_hdr r) < MAX_BANK_ACCOUNTS)"
| "progress_ok r (P_Compare h) = (hdr_account_id (req_hdr r) < MAX_BANK_ACCOUNTS)"
| "progress_ok r P_Balance = (hdr_account_id (req_hdr r) < MAX_BANK_ACCOUNTS)"
| "progress_ok r (P_Transfer th) = in_array th"
| "progress_ok r P_In_Use = (req_type r = OP_CREATE_ACCOUNT)"
| "progress_ok r P_Log = (req_type r = OP_CREATE_ACCOUNT)"
| "progress_ok r (P_Store_Hash salt) = (req_type r = OP_CREATE_ACCOUNT \<and> alnum salt \<and> length salt < SALT_LEN \<and>
     length (crt_password (value_create (req_val r))) \<le> MAX_PASSWORD_LEN)"
| "progress_ok r w = (creates w \<longrightarrow> req_type r = OP_CREATE_ACCOUNT \<and>
     length (crt_password (value_create (req_val r))) \<le> MAX_PASSWORD_LEN)"

lemma process_shell:
  assumes "sha256_shell sh digest" and "alnum p" and "alnum salt" and "length p \<le> MAX_PASSWORD_LEN" and "length salt < SALT_LEN"
  shows "\<exists>c h. echo_quoted p salt = Inr c \<and> popen_line sh c = Inr h \<and> (\<exists>t. copy_token REQ_HASH_SIZE h = Inr t)"
    and "\<exists>c h. echo_plain p salt = Inr c \<and> popen_line sh c = Inr h \<and> (\<exists>t. strcpy (HASH_LEN + 1) (strtok_buffer '' '' h) = Inr t)"
proof -
  let ?s = "p @ salt"
  note d = sha256_shellD [OF assms(1), of ?s]
  have al: "alnum ?s" using assms(2,3) by simp
  have "popen_line sh (quoted_command ?s) = Inr (sha256_line (digest ?s))"
    "popen_line sh (plain_command ?s) = Inr (sha256_line (digest ?s))"
    by (rule popen_sha256; use d al in auto)+
  moreover have "copy_token REQ_HASH_SIZE (sha256_line (digest ?s)) = Inr (digest ?s)"
    "strcpy (HASH_LEN + 1) (strtok_buffer '' '' (sha256_line (digest ?s))) = Inr (digest ?s)"
    using d(1,2) [OF al] sha256_tokens [OF d(1,2) [OF al]]
    by (simp_all add: REQ_HASH_SIZE_def MAX_PASSWORD_LEN_def SALT_LEN_def HASH_LEN_def)
  ultimately show "\<exists>c h. echo_quoted p salt = Inr c \<and> popen_line sh c = Inr h \<and> (\<exists>t. copy_token REQ_HASH_SIZE h = Inr t)"
    "\<exists>c h. echo_plain p salt = Inr c \<and> popen_line sh c = Inr h \<and> (\<exists>t. strcpy (HASH_LEN + 1) (strtok_buffer '' '' h) = Inr t)"
    using echo_fits [OF assms(4,5)] by auto
qed

lemma request_okD:
  assumes "request_ok r"
  shows "alnum (hdr_password (req_hdr r))" "length (hdr_password (req_hdr r)) \<le> MAX_PASSWORD_LEN"
    "between 1 (hdr_account_id (req_hdr r)) MAX_BANK_ACCOUNTS \<Longrightarrow> hdr_account_id (req_hdr r) < MAX_BANK_ACCOUNTS"
    "req_type r = OP_CREATE_ACCOUNT \<Longrightarrow> crt_account_id (value_create (req_val r)) < MAX_BANK_ACCOUNTS"
    "req_type r = OP_CREATE_ACCOUNT \<Longrightarrow> alnum (crt_password (value_create (req_val r)))"
    "req_type r = OP_TRANSFER \<Longrightarrow> trf_account_id (value_transfer (req_val r)) < MAX_BANK_ACCOUNTS"
proof -
  have "hdr_account_id (req_hdr r) \<noteq> MAX_BANK_ACCOUNTS" using assms by (simp add: request_ok_def)
  then show "between 1 (hdr_account_id (req_hdr r)) MAX_BANK_ACCOUNTS \<Longrightarrow> hdr_account_id (req_hdr r) < MAX_BANK_ACCOUNTS"
    by (simp add: between_def order.strict_iff_order)
qed (use assms in \<open>auto simp: request_ok_def value_transfer_def index_less_iff\<close>)

lemma transfer_exec_salts:
  "transfer_exec th b = Inr (th', b') \<Longrightarrow> salts_ok b \<Longrightarrow> salts_ok b'"
  by (cases "t_pc th")
    (auto simp: transfer_exec_def Let_def bind_res_eq_Inr account_at_eq_Inr index_less_iff salts_okD intro!: salts_ok_set split: if_splits)

lemma store_salts:
  "store i f b = Inr b' \<Longrightarrow> salts_ok b \<Longrightarrow>
    (\<And>a. alnum (acc_salt a) \<and> length (acc_salt a) < SALT_LEN \<Longrightarrow> alnum (acc_salt (f a)) \<and> length (acc_salt (f a)) < SALT_LEN) \<Longrightarrow>
    salts_ok b'"
  by (auto simp: store_def bind_res_eq_Inr account_at_eq_Inr index_less_iff salts_okD intro!: salts_ok_set)

text \<open>A step of a well-formed request does not fault, whatever the others have done to the accounts.\<close>

lemma login_step_ok:
  assumes "request_ok r"
  shows "\<exists>w rep'. login_step r rep b = Inr (w, rep') \<and> progress_ok r w"
proof -
  have "is_admin (hdr_account_id (req_hdr r)) \<Longrightarrow> hdr_account_id (req_hdr r) < MAX_BANK_ACCOUNTS"
    by (simp add: is_admin_def MAX_BANK_ACCOUNTS_def)
  then show ?thesis
    using request_okD(3) [OF assms]
    by (auto simp: login_step_def creates_def Let_def split: op_type.splits)
qed

lemma in_use_step_ok:
  assumes "request_ok r" and "req_type r = OP_CREATE_ACCOUNT"
  shows "\<exists>w rep'. in_use_step (value_create (req_val r)) rep b = Inr (w, rep') \<and> progress_ok r w"
  using request_okD(4) [OF assms(1,2)] assms(2)
  by (auto simp: in_use_step_def between_def creates_def Let_def MAX_PASSWORD_LEN_def)

lemma dispatch_ok:
  assumes "request_ok r" and "hdr_account_id (req_hdr r) < MAX_BANK_ACCOUNTS"
  shows "progress_ok r (dispatch_on r rep)"
  using assms(2) request_okD(6) [OF assms(1)]
  by (simp add: dispatch_on_def creates_def in_array_def transfer_start_def split: op_type.splits)

lemma process_no_fault:
  assumes "sha256_shell sh digest" and "salts_ok b" and "request_ok r" and "progress_ok r w"
  shows "\<exists>w' rep' b'. process_exec sh rnd k r w rep b = Inr (w', rep', b') \<and> progress_ok r w' \<and> salts_ok b'"
proof -
  let ?i = "hdr_account_id (req_hdr r)" and ?c = "value_create (req_val r)"
  note ok = request_okD [OF assms(3)]
  show ?thesis
  proof (cases w)
    case P_Login
    obtain w1 rep1 where "login_step r rep b = Inr (w1, rep1)" "progress_ok r w1"
      using login_step_ok [OF assms(3)] by blast
    then show ?thesis using P_Login assms(2) by simp
  next
    case P_Salt
    then have at: "account_at b ?i = Inr (accounts b (unat ?i))" "unat ?i < 4096"
      using assms(4) by (simp_all add: index_less_iff)
    from process_shell(1) [OF assms(1) ok(1) _ ok(2)] salts_okD [OF assms(2) at(2)]
    obtain c h t where "echo_quoted (hdr_password (req_hdr r)) (acc_salt (accounts b (unat ?i))) = Inr c"
      "popen_line sh c = Inr h" "copy_token REQ_HASH_SIZE h = Inr t" by blast
    then show ?thesis using P_Salt at assms(2,4) by simp
  next
    case (P_Compare h)
    then show ?thesis using dispatch_ok [OF assms(3)] assms(2,4) by (auto simp: creates_def)
  next
    case P_In_Use
    with assms(4) have "req_type r = OP_CREATE_ACCOUNT" by simp
    then obtain w1 rep1 where "in_use_step ?c rep b = Inr (w1, rep1)" "progress_ok r w1"
      using in_use_step_ok [OF assms(3)] by blast
    then show ?thesis using P_In_Use assms(2) by simp
  next
    case P_Store_Salt
    then have "crt_account_id ?c < MAX_BANK_ACCOUNTS" "length (crt_password ?c) \<le> MAX_PASSWORD_LEN"
      using assms(4) ok(4) by (simp_all add: creates_def)
    moreover have "strcpy (SALT_LEN + 1) (new_salt rnd b) = Inr (new_salt rnd b)" by (simp add: SALT_LEN_def)
    ultimately show ?thesis
      using P_Store_Salt assms(2,4)
      by (auto simp: store_in creates_def SALT_LEN_def intro!: salts_ok_set)
  next
    case (P_Store_Hash salt)
    then have c: "crt_account_id ?c < MAX_BANK_ACCOUNTS" "req_type r = OP_CREATE_ACCOUNT"
      using assms(4) ok(4) by simp_all
    have salt: "alnum salt" "length (crt_password ?c) \<le> MAX_PASSWORD_LEN" "length salt < SALT_LEN"
      using P_Store_Hash assms(4) by simp_all
    from process_shell(2) [OF assms(1) ok(5) [OF c(2)] salt]
    obtain l h t where "echo_plain (crt_password ?c) salt = Inr l" "popen_line sh l = Inr h"
      "strcpy (HASH_LEN + 1) (strtok_buffer '' '' h) = Inr t" by blast
    then show ?thesis
      using P_Store_Hash c assms(2) salts_okD [OF assms(2), of "unat (crt_account_id ?c)"]
      by (auto simp: store_in creates_def index_less_iff intro!: salts_ok_set)
  next
    case (P_Transfer th)
    then obtain th' b' where "transfer_exec th b = Inr (th', b')" "in_array th'"
      using transfer_exec_returns [of th b] assms(4) by auto
    then show ?thesis using P_Transfer transfer_exec_salts [OF _ assms(2)] by (auto simp: creates_def)
  qed (use assms(2,4) ok salts_okD [OF assms(2), of "unat (crt_account_id ?c)"] in
      \<open>auto simp: creates_def store_in check_user_balance_def index_less_iff usleep_def intro!: salts_ok_set\<close>)
qed

section \<open>The server\<close>

text \<open>Requests as a client sends them whose process id fits the buffer of its path.\<close>

definition served_request :: "tlv_request \<Rightarrow> bool" where
  "served_request r \<longleftrightarrow> request_ok r \<and> 0 \<le> sint (hdr_pid (req_hdr r)) \<and> sint (hdr_pid (req_hdr r)) < 100000"

text \<open>Steps of a server that receives only such requests.\<close>

definition proper_step :: "server_env \<Rightarrow> server \<Rightarrow> event \<Rightarrow> server \<Rightarrow> bool" where
  "proper_step env s e s' \<longleftrightarrow> server_step env s e s' \<and> (\<forall>r. e = Receive r \<longrightarrow> served_request r)"

text \<open>An environment that works: the shell hashes, and the FIFOs can be made.\<close>

definition works :: "server_env \<Rightarrow> bool" where
  "works env \<longleftrightarrow> (\<exists>digest. sha256_shell (env_sh env) digest) \<and>
     env_fs env = \<lparr>creatable = \<lambda>_. True, removable = \<lambda>_. True, openable = \<lambda>_. True\<rparr>"

fun main_request :: "main_pc \<Rightarrow> tlv_request option" where
  "main_request (M_Lock r) = Some r"
| "main_request (M_Push r) = Some r"
| "main_request (M_Shutdown r) = Some r"
| "main_request (M_Refuse r _) = Some r"
| "main_request (M_Broadcast r _) = Some r"
| "main_request (M_Answer r _) = Some r"
| "main_request _ = None"

definition has_request :: "office_pc \<Rightarrow> bool" where
  "has_request p \<longleftrightarrow> p \<in> {O_Count, O_Pop, O_Release, O_Ack, O_Fifo}"

definition robust :: "server \<Rightarrow> bool" where
  "robust s \<longleftrightarrow> crashed s = None \<and> salts_ok (bank s) \<and> (\<forall>r \<in> set (pushed s). served_request r) \<and>
     (\<forall>r. main_request (main_thread s) = Some r \<longrightarrow> served_request r) \<and>
     (\<forall>i. has_request (pc s i) \<longrightarrow> served_request (next_request (offices s i))) \<and>
     (\<forall>i. pc s i = O_Ack \<longrightarrow> progress_ok (next_request (offices s i)) (progress (offices s i)))"

lemma robust_cong:
  assumes "robust s" and "crashed s' = None" "salts_ok (bank s')"
    and "\<And>r. r \<in> set (pushed s') \<Longrightarrow> r \<in> set (pushed s) \<or> main_request (main_thread s) = Some r"
    and "\<And>r. main_request (main_thread s') = Some r \<Longrightarrow> main_request (main_thread s) = Some r \<or> served_request r"
    and "\<And>i. has_request (pc s' i) \<Longrightarrow> has_request (pc s i) \<and> next_request (offices s' i) = next_request (offices s i) \<or>
      next_request (offices s' i) \<in> set (pushed s)"
    and "\<And>i. pc s' i = O_Ack \<Longrightarrow> pc s i = O_Ack \<and> next_request (offices s' i) = next_request (offices s i) \<and>
      progress (offices s' i) = progress (offices s i) \<or> progress_ok (next_request (offices s' i)) (progress (offices s' i))"
  shows "robust s'"
  unfolding robust_def using assms unfolding robust_def by metis

lemma office_robust:
  assumes "office_exec env i s = Some s'" and "robust s" and "queue_ok s" and "works env"
  shows "robust s'"
proof -
  have cr: "crashed s = None" and salts: "salts_ok (bank s)"
    and has: "has_request (pc s i) \<Longrightarrow> served_request (next_request (offices s i))"
    and prog: "pc s i = O_Ack \<Longrightarrow> progress_ok (next_request (offices s i)) (progress (offices s i))"
    using assms(2) by (simp_all add: robust_def)
  obtain digest where sh: "sha256_shell (env_sh env) digest"
    and fs: "env_fs env = \<lparr>creatable = \<lambda>_. True, removable = \<lambda>_. True, openable = \<lambda>_. True\<rparr>"
    using assms(4) by (auto simp: works_def)
  have no_fault: "pc s i \<in> {O_Front, O_Count, O_Pop} \<Longrightarrow> crashed s' = crashed s"
    by (rule office_queue_no_fault [OF assms(1,3)])
  from assms(1) show ?thesis
  proof (cases rule: office_execE)
    case (front req)
    have q: "queue_inv (request_queue s)" "queue_list (request_queue s) \<noteq> []" "pushed s = popped s @ queue_list (request_queue s)"
      using assms(3) front(1) by (auto simp: queue_ok_def at_queue_def)
    then have "req \<in> set (pushed s)" using rq.first_ok [OF q(1,2)] front(2) by simp
    then show ?thesis
      using front by (intro robust_cong [OF assms(2)]) (auto simp: cr salts has_request_def split: if_splits)
  next
    case (front_fault e)
    then show ?thesis using no_fault cr by simp
  next
    case (pop_fault e)
    then show ?thesis using no_fault cr by simp
  next
    case (process w rep b)
    from process_no_fault [OF sh salts _ prog [OF process(1)], of "env_rnd env" "int i" "office_reply (offices s i)"]
    have "progress_ok (next_request (offices s i)) w" "salts_ok b"
      using has process(1,3) by (auto simp: has_request_def served_request_def)
    then show ?thesis
      using process by (intro robust_cong [OF assms(2)]) (auto simp: cr split: if_splits)
  next
    case (process_fault e)
    from process_no_fault [OF sh salts _ prog [OF process_fault(1)], of "env_rnd env" "int i" "office_reply (offices s i)"]
    show ?thesis using has process_fault(1,3) by (auto simp: has_request_def served_request_def)
  next
    case (fifo_fault e)
    then show ?thesis
      using user_fifo_ok [OF _ _ fs, of "sint (hdr_pid (req_hdr (next_request (offices s i))))" "fifos s"] has
      by (auto simp: has_request_def served_request_def)
  qed (intro robust_cong [OF assms(2)]; use cr salts in \<open>auto simp: has_request_def creates_def split: if_splits\<close>; fail)+
qed

lemma answer_shutdown_robust:
  assumes "robust s" and "works env" and "main_request (main_thread s) = Some req" and "main_request m = Some req \<or> main_request m = None"
  shows "robust (answer_shutdown env req rep m s)"
proof -
  have "served_request req" using assms(1,3) by (simp add: robust_def)
  then obtain p fs where "user_fifo_create (env_fs env) (sint (hdr_pid (req_hdr req))) (fifos s) = Inr (p, fs)"
    using user_fifo_ok [of "sint (hdr_pid (req_hdr req))" "env_fs env" "fifos s"] assms(2)
    by (auto simp: served_request_def works_def)
  then have cr: "crashed (answer_shutdown env req rep m s) = None"
    using assms(1) by (simp add: answer_shutdown_def robust_def)
  show ?thesis
    using answer_shutdown_main [of env req rep m s] cr assms(1,3,4)
    by (intro robust_cong [OF assms(1)]) (auto simp: robust_def)
qed

lemma main_robust:
  assumes "main_exec env s = Some s'" and "robust s" and "queue_ok s" and "works env"
    and "supplies (env_malloc env)" and "length (pushed s) + 1 < 2 ^ 32"
    and "req_type (the (shutdown_request_of (main_thread s))) = OP_SHUTDOWN \<or> shutdown_request_of (main_thread s) = None"
  shows "robust s'"
proof -
  have cr: "crashed s = None" and salts: "salts_ok (bank s)"
    and req: "\<And>r. main_request (main_thread s) = Some r \<Longrightarrow> served_request r"
    using assms(2) by (simp_all add: robust_def)
  obtain digest where sh: "sha256_shell (env_sh env) digest" using assms(4) by (auto simp: works_def)
  from assms(1) show ?thesis
  proof (cases rule: main_execE)
    case (push_fault req e)
    then show ?thesis using main_queue_ok(2) [OF assms(1,3,5,6) push_fault(1)] cr by simp
  next
    case (shutdown_fault req e)
    then have r: "request_ok req" "req_type req = OP_SHUTDOWN"
      using req assms(7) by (auto simp: served_request_def)
    then show ?thesis
      using shutdown_fault(2) validate_admin_eq [OF sh salts request_okD(1,2) [OF r(1)]]
      by (auto simp: validate_request_def split: if_splits)
  next
    case (refuse req rep)
    then show ?thesis using answer_shutdown_robust [OF assms(2,4), of req M_Read rep] by simp
  next
    case (answer req rep)
    then show ?thesis using answer_shutdown_robust [OF assms(2,4), of req "M_Join 0" rep] by simp
  qed (intro robust_cong [OF assms(2)]; use cr salts in \<open>auto simp: has_request_def split: if_splits\<close>; fail)+
qed

lemma step_robust:
  assumes "proper_step env s e s'" and "robust s" and "queue_ok s" and "service_inv s" and "works env" and "serving env s"
  shows "robust s'"
proof -
  from assms(1) have "server_step env s e s'" and new: "\<And>r. e = Receive r \<Longrightarrow> served_request r"
    by (simp_all add: proper_step_def)
  from this(1) show ?thesis
  proof (cases rule: server_step.cases)
    case (office i)
    then show ?thesis using office_robust [OF _ assms(2,3,5)] by blast
  next
    case main
    have "req_type (the (shutdown_request_of (main_thread s))) = OP_SHUTDOWN \<or> shutdown_request_of (main_thread s) = None"
      using assms(4) by (cases "shutdown_request_of (main_thread s)") (auto simp: service_inv_def)
    then show ?thesis using main_robust [OF main(3) assms(2,3,5)] assms(6) by (simp add: serving_def)
  next
    case (receive req)
    then have r: "served_request req" using new by blast
    have m: "main_request (main_thread (receive req s)) = Some req" by (simp add: receive_def)
    have "salts_ok (bank (receive req s))" "crashed s = None" using assms(2) by (simp_all add: salts_ok_def robust_def)
    then show ?thesis
      unfolding receive(2) using r m by (intro robust_cong [OF assms(2)]) auto
  next
    case (signal req j)
    then show ?thesis
      using assms(2) by (intro robust_cong [OF assms(2)]) (auto simp: after_signal_def has_request_def robust_def blocked_def split: if_splits)
  next
    case (signal_none req)
    then show ?thesis
      using assms(2) by (intro robust_cong [OF assms(2)]) (auto simp: after_signal_def robust_def)
  next
    case (spurious j)
    then show ?thesis
      using assms(2) by (intro robust_cong [OF assms(2)]) (auto simp: has_request_def robust_def blocked_def split: if_splits)
  qed
qed

lemma init_robust: "bank_ok b \<Longrightarrow> robust (init_server env n b fs)"
  by (simp add: robust_def init_server_def has_request_def bank_ok_def)

interpretation robust: guarded_invariant "server_start env" "proper_step env" "\<lambda>s. serving env s \<and> works env"
  "\<lambda>s. mutex_inv s \<and> queue_ok s \<and> service_inv s \<and> robust s" for env
proof unfold_locales
  fix s e s'
  assume "proper_step env s e s'" "serving env s' \<and> works env" "mutex_inv s \<and> queue_ok s \<and> service_inv s \<and> robust s"
  then show "mutex_inv s' \<and> queue_ok s' \<and> service_inv s' \<and> robust s'"
    using serving_before [of env s e s'] step_queue_ok [of env s e s'] step_mutex_inv [of env s e s']
      step_service_inv [of env s e s'] step_robust [of env s e s']
    by (auto simp: serving_def proper_step_def)
qed (auto simp: server_start_def proper_step_def init_mutex_inv init_queue_ok init_service_inv init_robust dest: serving_before)

section \<open>Accounts under any interleaving\<close>

text \<open>
  Between two states: no account is closed, and the id and the credentials of the
  administrator's are the same.
\<close>

definition keeps_accounts :: "bank \<Rightarrow> bank \<Rightarrow> bool" where
  "keeps_accounts b b' \<longleftrightarrow> (\<forall>k. ledger b k \<noteq> None \<longrightarrow> ledger b' k \<noteq> None) \<and>
     acc_account_id (accounts b' 0) = acc_account_id (accounts b 0) \<and>
     acc_salt (accounts b' 0) = acc_salt (accounts b 0) \<and> acc_hash (accounts b' 0) = acc_hash (accounts b 0)"

lemma keeps_accounts_refl: "accounts b' = accounts b \<Longrightarrow> keeps_accounts b b'"
  using ledger_accounts [of b' b] by (simp add: keeps_accounts_def)

lemma keeps_accounts_frame [simp]:
  "keeps_accounts b b" "keeps_accounts b (c\<lparr>slog := l\<rparr>) = keeps_accounts b c"
  "keeps_accounts b (c\<lparr>rand_pos := p\<rparr>) = keeps_accounts b c" "keeps_accounts b (usleep us c) = keeps_accounts b c"
  by (simp_all add: keeps_accounts_def)

lemma keeps_accounts_trans: "keeps_accounts b c \<Longrightarrow> keeps_accounts c d \<Longrightarrow> keeps_accounts b d"
  by (simp add: keeps_accounts_def)

lemma set_account_keeps:
  assumes "acc_account_id a = acc_account_id (accounts b (unat i)) \<or> 0 < unat i \<and> acc_account_id a = i"
    and "unat i = 0 \<Longrightarrow> acc_salt a = acc_salt (accounts b 0) \<and> acc_hash a = acc_hash (accounts b 0)"
  shows "keeps_accounts b (set_account i a b)"
  using assms by (auto simp: keeps_accounts_def ledger_def split: if_splits)

lemma transfer_exec_keeps:
  "transfer_exec th b = Inr (th', b') \<Longrightarrow> keeps_accounts b b'"
  by (cases "t_pc th")
    (auto simp: transfer_exec_def Let_def bind_res_eq_Inr account_at_eq_Inr intro!: set_account_keeps split: if_splits)

lemma store_keeps:
  "store i f b = Inr b' \<Longrightarrow> 0 < unat i \<Longrightarrow> (\<And>a. acc_account_id (f a) = acc_account_id a \<or> acc_account_id (f a) = i) \<Longrightarrow>
    keeps_accounts b b'"
  by (auto simp: store_def bind_res_eq_Inr account_at_eq_Inr intro!: set_account_keeps)

lemma process_keeps:
  assumes "process_exec sh rnd k r w rep b = Inr (w', rep', b')"
    and "creates w \<longrightarrow> 0 < unat (crt_account_id (value_create (req_val r)))"
  shows "keeps_accounts b b'" and "creates w' \<longrightarrow> 0 < unat (crt_account_id (value_create (req_val r)))"
proof -
  let ?c = "crt_account_id (value_create (req_val r))"
  show "keeps_accounts b b'"
  proof (cases w)
    case P_Store_Salt
    with assms(1) obtain t c where c: "store ?c (\<lambda>a. a\<lparr>acc_salt := t\<rparr>) b = Inr c" "b' = c\<lparr>rand_pos := rand_pos b + 63\<rparr>"
      by (auto simp: bind_res_eq_Inr)
    have "keeps_accounts b c" by (rule store_keeps [OF c(1)]) (use assms(2) P_Store_Salt in \<open>simp_all add: creates_def\<close>)
    then show ?thesis using c(2) by simp
  qed (use assms transfer_exec_keeps in \<open>auto simp: bind_res_eq_Inr creates_def intro: store_keeps split: if_splits\<close>)
  show "creates w' \<longrightarrow> 0 < unat ?c"
  proof (cases w)
    case P_In_Use
    then show ?thesis
      using assms(1) by (auto simp: bind_res_eq_Inr in_use_step_def creates_def index_le_iff Let_def split: if_splits)
  qed (use assms in \<open>auto simp: bind_res_eq_Inr login_step_def dispatch_on_def creates_def Let_def split: if_splits op_type.splits\<close>)
qed

definition creating_users :: "server \<Rightarrow> bool" where
  "creating_users s \<longleftrightarrow> (\<forall>i. pc s i = O_Ack \<longrightarrow> creates (progress (offices s i)) \<longrightarrow>
     0 < unat (crt_account_id (value_create (req_val (next_request (offices s i))))))"

lemma office_keeps:
  assumes "office_exec env i s = Some s'" and "creating_users s"
  shows "creating_users s' \<and> keeps_accounts (bank s) (bank s')"
  using assms(1)
proof (cases rule: office_execE)
  case (process w rep b)
  from assms(2) process(1) have "creates (progress (offices s i)) \<longrightarrow>
      0 < unat (crt_account_id (value_create (req_val (next_request (offices s i)))))"
    by (simp add: creating_users_def)
  from process_keeps [OF process(3) this] show ?thesis
    using assms(2) process(4) by (simp add: creating_users_def)
qed (use assms(2) in \<open>auto simp: creating_users_def creates_def intro!: keeps_accounts_refl\<close>)

lemma step_keeps:
  assumes "server_step env s e s'" and "creating_users s"
  shows "creating_users s' \<and> keeps_accounts (bank s) (bank s')"
  using assms(1)
proof (cases rule: server_step.cases)
  case (office i)
  then show ?thesis using office_keeps assms(2) by blast
next
  case main
  have "accounts (bank s') = accounts (bank s)"
    using main(3) by (cases rule: main_execE) simp_all
  moreover have "pc s' i = O_Ack \<Longrightarrow> offices s' i = offices s i" for i
    using main_exec_frame(6) [OF main(3), of i] by auto
  ultimately show ?thesis
    using assms(2) unfolding creating_users_def by (metis keeps_accounts_refl)
qed (use assms(2) in \<open>auto simp: creating_users_def after_signal_def blocked_def intro!: keeps_accounts_refl\<close>)

lemma init_creating_users: "server_start env s \<Longrightarrow> creating_users s"
  by (auto simp: server_start_def creating_users_def init_server_def)

interpretation creating: transition_invariant "server_start env" "server_step env" creating_users for env
  by unfold_locales (auto dest: init_creating_users step_keeps)

lemma steps_keep_accounts:
  assumes "steps env s t" and "creating_users s"
  shows "creating_users t \<and> keeps_accounts (bank s) (bank t)"
  using assms
proof (induction rule: reach.induct)
  case (reach_init t)
  then show ?case by (simp add: keeps_accounts_refl)
next
  case (reach_step t e u)
  then show ?case using step_keeps [of env t e u] keeps_accounts_trans by blast
qed

section \<open>Properties\<close>

text \<open>
  C7: Well-formed requests do not crash a server whose hash buffers have room. Let the shell print sha256sum's
  line and let there be an unused byte behind the array hash, which that line overruns by one: without it the first password
  looked at is undefined behaviour (hash_buffer_overflow). Let every call on a FIFO succeed and every request that arrives be
  well-formed, from a process id of 0 to 99999. Then in
  every reachable state before a shutdown, with memory and fewer than 2^32 - 1 requests, nothing
  else has faulted: not the queue, not acknowledge_request and not the replies, although the
  offices read and write the accounts at the same time without a lock.
\<close>

theorem proper_requests_do_not_crash:
  assumes "reach (server_start env) (proper_step env) s" and "works env" and "serving env s"
  shows "crashed s = None"
  using robust.reach_guarded [OF assms(1)] assms(2,3) by (simp add: robust_def)

text \<open>Two balance requests have arrived.\<close>

lemma run_proper:
  "run env es s = Some t \<Longrightarrow> \<forall>r. Receive r \<in> set es \<longrightarrow> served_request r \<Longrightarrow> reach I (proper_step env) s \<Longrightarrow>
    reach I (proper_step env) t"
proof (induction es arbitrary: s)
  case (Cons e es)
  then obtain u where "exec env e s = Some u" "run env es u = Some t" by (auto split: option.splits)
  moreover from this(1) Cons.prems(2) have "proper_step env s e u"
    by (simp add: proper_step_def server_step_iff_exec)
  ultimately show ?case using Cons.IH [of u] Cons.prems(2,3) by (auto intro: reach.reach_step)
qed simp

theorem proper_requests_do_not_crash_witness:
  "\<exists>s. reach (server_start sample_env) (proper_step sample_env) s \<and> pushed s \<noteq> [] \<and> crashed s = None"
proof -
  obtain s where s: "run sample_env (arrivals [balance_request 1, balance_request 2]) sample_start = Some s"
    "pushed s = [balance_request 1, balance_request 2]" "\<not> shutdown s"
    using arrived_run by blast
  have "served_request (balance_request 1)" "served_request (balance_request 2)"
    using sample_words(3)
    by (simp_all add: served_request_def request_ok_def balance_request_def sample_request_def MAX_PASSWORD_LEN_def MAX_BANK_ACCOUNTS_def)
  then have served: "\<forall>r. Receive r \<in> set (arrivals [balance_request 1, balance_request 2]) \<longrightarrow> served_request r" by auto
  have start: "server_start sample_env sample_start"
    unfolding server_start_def sample_start_def
    by (intro exI [of _ 2] exI [of _ sample_bank] exI [of _ "[]"]) (simp add: sample_bank(1) MAX_BANK_OFFICES_def)
  have r: "reach (server_start sample_env) (proper_step sample_env) s"
    by (rule run_proper [OF s(1) served]) (rule reach.reach_init, rule start)
  have works: "works sample_env" using sample_shell by (auto simp: works_def sample_env_def)
  have serving: "serving sample_env s" using s(2,3) sample_env_supplies by (simp add: serving_def)
  have "crashed s = None" by (rule proper_requests_do_not_crash [OF r works serving])
  with r s(2) show ?thesis by (intro exI [of _ s]) simp
qed

text \<open>
  C9: No interleaving loses an account. From every reachable state on, whatever requests arrive
  and however the offices' accesses interleave, also during and after a shutdown, an account
  that is open stays open, and the id, the salt and the hash of the administrator's account stay
  what they were.
\<close>

theorem accounts_stay_open:
  assumes "reachable env s" and "steps env s t"
  shows "(\<forall>k. ledger (bank s) k \<noteq> None \<longrightarrow> ledger (bank t) k \<noteq> None) \<and>
    acc_account_id (accounts (bank t) 0) = acc_account_id (accounts (bank s) 0) \<and>
    acc_salt (accounts (bank t) 0) = acc_salt (accounts (bank s) 0) \<and>
    acc_hash (accounts (bank t) 0) = acc_hash (accounts (bank s) 0)"
  using steps_keep_accounts [OF assms(2)] creating.reach_inv [OF assms(1)] by (simp add: keeps_accounts_def)

theorem accounts_stay_open_witness:
  "\<exists>t. reachable sample_env sample_start \<and> steps sample_env sample_start t \<and> pushed t \<noteq> [] \<and> ledger (bank t) 1 \<noteq> None"
proof -
  obtain t where t: "run sample_env (arrivals [balance_request 1, balance_request 2]) sample_start = Some t"
    "pushed t = [balance_request 1, balance_request 2]"
    using arrived_run by blast
  have "ledger (bank sample_start) 1 \<noteq> None" using sample_bank(2) by (simp add: sample_start_def init_server_def)
  then show ?thesis
    using accounts_stay_open [OF sample_start_reachable run_steps_rel [OF t(1)]] sample_start_reachable
      run_steps_rel [OF t(1)] t(2) by auto
qed

end
