(* ===== verification/Creation_Race.thy ===== *)
theory Creation_Race
  imports Races Robustness
begin

text \<open>
  What happens in the running server when two offices create the same account at the same
  time: both find the id unused, both assign the fields of the account, and what is left
  is the salt of one request with the hash of the other.
\<close>

section \<open>The steps of a creation\<close>

abbreviation creation :: "tlv_request \<Rightarrow> req_create_account" where
  "creation r \<equiv> value_create (req_val r)"

text \<open>From the start to the first assignment: nothing is written yet.\<close>

lemma creation_login:
  assumes "sha256_shell sh digest" and "bank_ok b" and "request_ok r" and "req_type r = OP_CREATE_ACCOUNT"
    and "spec_login_admin (accepts digest b) (req_hdr r) = RC_OK" and "create_verdict (creation r) b = RC_OK"
  shows "\<exists>rep b'. process sh rnd k r 5 P_Begin reply b = Inr (P_Store_Id, rep, b') \<and>
    accounts b' = accounts b \<and> rand_pos b' = rand_pos b"
proof -
  let ?b = "usleep (hdr_op_delay_ms (req_hdr r)) b" and ?c = "crt_account_id (creation r)"
  have "accepts digest ?b = accepts digest b" by (simp add: accepts_def fun_eq_iff)
  then obtain rep where four: "process sh rnd k r 4 P_Begin reply b = Inr (P_In_Use, rep, ?b)"
    unfolding process_validation using validate_request_eq [OF assms(1) _ assms(3), of ?b] assms(2,4,5)
    by (simp add: dispatch_on_def Let_def)
  have c: "?c < MAX_BANK_ACCOUNTS" using request_okD(4) [OF assms(3,4)] .
  have "in_use_step (creation r) rep ?b = Inr (P_Store_Id, rep)"
    using assms(6) c by (auto simp: in_use_step_def create_verdict_OK index_less_iff index_le_iff
        balance_between_iff password_between_iff Let_def)
  then have "process sh rnd k r 5 P_Begin reply b = Inr (P_Store_Id, rep, ?b)"
    using process_snoc [OF four] by simp
  then show ?thesis by (intro exI [of _ rep] exI [of _ ?b]) simp
qed

text \<open>The assignments of the id, the balance and the salt.\<close>

lemma creation_stores:
  assumes "crt_account_id (creation r) < MAX_BANK_ACCOUNTS"
  shows "process sh rnd k r 3 P_Store_Id rep b =
    Inr (P_Store_Hash (new_salt rnd b), rep,
      (set_account (crt_account_id (creation r))
        ((accounts b (unat (crt_account_id (creation r))))
          \<lparr>acc_account_id := crt_account_id (creation r), acc_balance := crt_balance (creation r),
           acc_salt := new_salt rnd b\<rparr>) b)\<lparr>rand_pos := rand_pos b + 63\<rparr>)"
proof -
  have "new_salt rnd (b\<lparr>accounts := x\<rparr>) = new_salt rnd b" for x by (simp add: new_salt_def)
  moreover have "strcpy (Suc SALT_LEN) (new_salt rnd b) = Inr (new_salt rnd b)" by (simp add: SALT_LEN_def)
  ultimately show ?thesis using assms by (simp add: numeral_3_eq_3 store_in set_account_def)
qed

text \<open>The assignment of the hash.\<close>

lemma creation_hash:
  assumes "sha256_shell sh digest" and "alnum (crt_password (creation r))" and "alnum salt"
    and "length (crt_password (creation r)) \<le> MAX_PASSWORD_LEN" and "length salt < SALT_LEN"
    and "crt_account_id (creation r) < MAX_BANK_ACCOUNTS"
  shows "process_exec sh rnd k r (P_Store_Hash salt) rep b =
    Inr (P_Length, code_reply RC_OK rep,
      set_account (crt_account_id (creation r))
        ((accounts b (unat (crt_account_id (creation r))))\<lparr>acc_hash := digest (crt_password (creation r) @ salt)\<rparr>) b)"
proof -
  let ?s = "crt_password (creation r) @ salt"
  note d = sha256_shellD [OF assms(1), of ?s]
  have al: "alnum ?s" using assms(2,3) by simp
  have "popen_line sh (plain_command ?s) = Inr (sha256_line (digest ?s))"
    by (rule popen_sha256) (use d al in auto)
  moreover have "strcpy (HASH_LEN + 1) (strtok_buffer '' '' (sha256_line (digest ?s))) = Inr (digest ?s)"
    using sha256_tokens(2) [OF d(1) [OF al] d(2) [OF al]] d(1) [OF al] by (simp add: HASH_LEN_def)
  moreover have "echo_plain (crt_password (creation r)) salt = Inr (plain_command ?s)"
    using echo_fits [OF assms(4,5)] by simp
  ultimately show ?thesis using assms(6) by (simp add: store_in)
qed

lemma new_salt_cong: "rand_pos b = rand_pos b' \<Longrightarrow> new_salt rnd b = new_salt rnd b'"
  by (simp add: new_salt_def)

lemma accepted_creation:
  assumes "request_ok r" and "req_type r = OP_CREATE_ACCOUNT"
    and "fst (spec_request (accepts digest b) r (ledger b)) = RC_OK"
  shows "spec_login_admin (accepts digest b) (req_hdr r) = RC_OK" and "create_verdict (creation r) b = RC_OK"
proof -
  have "unat (crt_account_id (creation r)) < 4096" using request_okD(4) [OF assms(1,2)] by (simp add: index_less_iff)
  then show "spec_login_admin (accepts digest b) (req_hdr r) = RC_OK" "create_verdict (creation r) b = RC_OK"
    using assms(2,3) create_verdict_spec [of "creation r" b] by (auto simp: spec_request_def Let_def split: if_splits)
qed

section \<open>Two at once\<close>

text \<open>
  Both offices pass the checks; the first assigns all but the hash, then the second assigns
  everything, then the first the hash.
\<close>

lemma both_stored:
  assumes "i \<noteq> j" "is_office i s" "is_office j s" "pc s i = O_Ack" "pc s j = O_Ack" "crashed s = None"
    and "progress (offices s i) = P_Begin" "progress (offices s j) = P_Begin"
    and "next_request (offices s i) = r" "next_request (offices s j) = r'"
    and "sha256_shell (env_sh env) digest" "bank_ok (bank s)"
    and "request_ok r" "req_type r = OP_CREATE_ACCOUNT" "request_ok r'" "req_type r' = OP_CREATE_ACCOUNT"
    and "fst (spec_request (accepts digest (bank s)) r (ledger (bank s))) = RC_OK"
    and "fst (spec_request (accepts digest (bank s)) r' (ledger (bank s))) = RC_OK"
    and "c = crt_account_id (creation r)" "crt_account_id (creation r') = c"
  shows "\<exists>es v a. run env (map Office es) s = Some v \<and> only_processing s v \<and> crashed v = None \<and>
    is_office i v \<and> is_office j v \<and> progress (offices v i) = P_Length \<and> progress (offices v j) = P_Length \<and>
    rep_code (office_reply (offices v i)) = RC_OK \<and> rep_code (office_reply (offices v j)) = RC_OK \<and>
    accounts (bank v) = (accounts (bank s))(unat c := a\<lparr>acc_account_id := c, acc_balance := crt_balance (creation r'),
      acc_salt := new_salt (env_rnd env) ((bank s)\<lparr>rand_pos := rand_pos (bank s) + 63\<rparr>),
      acc_hash := digest (crt_password (creation r) @ new_salt (env_rnd env) (bank s))\<rparr>)"
proof -
  let ?rnd = "env_rnd env" and ?sh = "env_sh env"
  note ok = request_okD [OF assms(13)] and ok' = request_okD [OF assms(15)]
  note acc = accepted_creation [OF assms(13,14,17)] and acc' = accepted_creation [OF assms(15,16,18)]
  have pw: "length (crt_password (creation r)) \<le> MAX_PASSWORD_LEN" "length (crt_password (creation r')) \<le> MAX_PASSWORD_LEN"
    using acc(2) acc'(2) by (simp_all add: create_verdict_OK MAX_PASSWORD_LEN_def)
  have c: "crt_account_id (creation r) < MAX_BANK_ACCOUNTS" "crt_account_id (creation r') < MAX_BANK_ACCOUNTS"
    using ok(4) ok'(4) assms(14,16) by simp_all
  obtain rep b1 where p1: "process ?sh ?rnd (int i) r 5 P_Begin (office_reply (offices s i)) (bank s) = Inr (P_Store_Id, rep, b1)"
    "accounts b1 = accounts (bank s)" "rand_pos b1 = rand_pos (bank s)"
    using creation_login [OF assms(11-14) acc] by blast
  have auth: "accepts digest b1 = accepts digest (bank s)" by (simp add: accepts_def fun_eq_iff p1(2))
  have b1: "bank_ok b1" "spec_login_admin (accepts digest b1) (req_hdr r') = RC_OK" "create_verdict (creation r') b1 = RC_OK"
    using bank_ok_accounts [OF p1(2)] assms(12) acc' auth by (simp_all add: create_verdict_OK p1(2))
  obtain rep' b2 where p2: "process ?sh ?rnd (int j) r' 5 P_Begin (office_reply (offices s j)) b1 = Inr (P_Store_Id, rep', b2)"
    "accounts b2 = accounts b1" "rand_pos b2 = rand_pos b1"
    using creation_login [OF assms(11) b1(1) assms(15,16) b1(2,3)] by blast
  let ?salt = "new_salt ?rnd b2"
  define b3 where "b3 = (set_account c ((accounts b2 (unat c))\<lparr>acc_account_id := c, acc_balance := crt_balance (creation r),
      acc_salt := ?salt\<rparr>) b2)\<lparr>rand_pos := rand_pos b2 + 63\<rparr>"
  have p3: "process ?sh ?rnd (int i) r 3 P_Store_Id rep b2 = Inr (P_Store_Hash ?salt, rep, b3)"
    using creation_stores [OF c(1), of ?sh ?rnd "int i" rep b2] assms(19) by (simp add: b3_def)
  let ?salt' = "new_salt ?rnd b3"
  define b4 where "b4 = (set_account c ((accounts b3 (unat c))\<lparr>acc_account_id := c, acc_balance := crt_balance (creation r'),
      acc_salt := ?salt'\<rparr>) b3)\<lparr>rand_pos := rand_pos b3 + 63\<rparr>"
  have p4: "process ?sh ?rnd (int j) r' 3 P_Store_Id rep' b3 = Inr (P_Store_Hash ?salt', rep', b4)"
    using creation_stores [OF c(2), of ?sh ?rnd "int j" rep' b3] assms(20) by (simp add: b4_def)
  have alnums: "alnum (crt_password (creation r))" "alnum (crt_password (creation r'))"
    using ok(5) ok'(5) assms(14,16) by simp_all
  have salts: "length ?salt < SALT_LEN" "length ?salt' < SALT_LEN" by (simp_all add: SALT_LEN_def)
  define b5 where "b5 = set_account c ((accounts b4 (unat c))\<lparr>acc_hash := digest (crt_password (creation r') @ ?salt')\<rparr>) b4"
  have p5: "process_exec ?sh ?rnd (int j) r' (P_Store_Hash ?salt') rep' b4 = Inr (P_Length, code_reply RC_OK rep', b5)"
    using creation_hash [OF assms(11) alnums(2) new_salt(2) pw(2) salts(2) c(2)] assms(20) by (simp add: b5_def)
  define b6 where "b6 = set_account c ((accounts b5 (unat c))\<lparr>acc_hash := digest (crt_password (creation r) @ ?salt)\<rparr>) b5"
  have p6: "process_exec ?sh ?rnd (int i) r (P_Store_Hash ?salt) rep b5 = Inr (P_Length, code_reply RC_OK rep, b6)"
    using creation_hash [OF assms(11) alnums(1) new_salt(2) pw(1) salts(1) c(1)] assms(19) by (simp add: b6_def)
  let ?v1 = "processed i P_Store_Id rep b1 s"
  let ?v2 = "processed j P_Store_Id rep' b2 ?v1"
  let ?v3 = "processed i (P_Store_Hash ?salt) rep b3 ?v2"
  let ?v4 = "processed j (P_Store_Hash ?salt') rep' b4 ?v3"
  let ?v5 = "processed j P_Length (code_reply RC_OK rep') b5 ?v4"
  let ?v6 = "processed i P_Length (code_reply RC_OK rep) b6 ?v5"
  have "run env (replicate 5 (Office i)) s = Some ?v1"
    by (rule process_run_exact) (use p1(1) assms(1-10) in simp_all)
  moreover have "run env (replicate 5 (Office j)) ?v1 = Some ?v2"
    by (rule process_run_exact) (use p2(1) assms(1-10) in simp_all)
  moreover have "run env (replicate 3 (Office i)) ?v2 = Some ?v3"
    by (rule process_run_exact) (use p3(1) assms(1-10) in simp_all)
  moreover have "run env (replicate 3 (Office j)) ?v3 = Some ?v4"
    by (rule process_run_exact) (use p4(1) assms(1-10) in simp_all)
  moreover have "exec env (Office j) ?v4 = Some ?v5"
    by (rule process_step_run) (use p5 assms(1-10) in simp_all)
  moreover have "exec env (Office i) ?v5 = Some ?v6"
    by (rule process_step_run) (use p6 assms(1-10) in simp_all)
  ultimately have run: "run env (map Office (replicate 5 i @ replicate 5 j @ replicate 3 i @ replicate 3 j @ [j, i])) s = Some ?v6"
    by (simp add: run_append del: exec.simps)
  have pos: "rand_pos b2 = rand_pos (bank s)" "rand_pos b3 = rand_pos (bank s) + 63" using p1(3) p2(3) by (simp_all add: b3_def)
  have "new_salt ?rnd b2 = new_salt ?rnd (bank s)"
    "new_salt ?rnd b3 = new_salt ?rnd ((bank s)\<lparr>rand_pos := rand_pos (bank s) + 63\<rparr>)"
    by (rule new_salt_cong, simp add: pos)+
  then have "accounts b6 = (accounts (bank s))(unat c := (accounts (bank s) (unat c))\<lparr>acc_account_id := c,
      acc_balance := crt_balance (creation r'), acc_salt := new_salt ?rnd ((bank s)\<lparr>rand_pos := rand_pos (bank s) + 63\<rparr>),
      acc_hash := digest (crt_password (creation r) @ new_salt ?rnd (bank s))\<rparr>)"
    using p1(2) p2(2) by (simp add: b6_def b5_def b4_def b3_def)
  then show ?thesis
    using assms(1-6) run
    by (intro exI [of _ "replicate 5 i @ replicate 5 j @ replicate 3 i @ replicate 3 j @ [j, i]"] exI [of _ ?v6]
        exI [of _ "accounts (bank s) (unat c)"]) (auto simp: only_processing_def code_reply_def)
qed

section \<open>Properties\<close>

text \<open>
  C6: Two creations of one account at the same time break the account. Let two idle offices find
  at the head of a well-formed queue two well-formed creation requests, with passwords of letters and digits, for the same id, from
  clients with process ids of 0 to 99999, and let the specification accept either of them in the present bank, which is
  in order; it would refuse the second after the first. Let every call on a FIFO succeed, and let the shell
  print sha256sum's line with an unused byte behind the array hash (C1). The offices have a
  run of their own statements that ends with both clients being told RC_OK, with the
  balance of the second request, and with the hash of the first request's password and
  salt beside the salt of the second: a password is accepted from then on exactly when its hash
  with the one salt is that of the first password with the other.
\<close>

theorem simultaneous_creations_break_the_account:
  assumes "i \<noteq> j" "is_office i s" "is_office j s" "opc (offices s i) = O_Top" "opc (offices s j) = O_Top"
    and "crashed s = None" "\<not> shutdown s" "queue_mut s = None"
    and "queue_inv (request_queue s)" "queue_list (request_queue s) = r # r' # rs"
    and "sha256_shell (env_sh env) digest" "bank_ok (bank s)"
    and "request_ok r" "req_type r = OP_CREATE_ACCOUNT" "request_ok r'" "req_type r' = OP_CREATE_ACCOUNT"
    and "fst (spec_request (accepts digest (bank s)) r (ledger (bank s))) = RC_OK"
    and "fst (spec_request (accepts digest (bank s)) r' (ledger (bank s))) = RC_OK"
    and "a = value_create (req_val r)" "a' = value_create (req_val r')"
    and "k = unat (crt_account_id a)" "unat (crt_account_id a') = k"
    and "0 \<le> sint (hdr_pid (req_hdr r))" "sint (hdr_pid (req_hdr r)) < 100000"
    and "0 \<le> sint (hdr_pid (req_hdr r'))" "sint (hdr_pid (req_hdr r')) < 100000"
    and "env_fs env = \<lparr>creatable = \<lambda>_. True, removable = \<lambda>_. True, openable = \<lambda>_. True\<rparr>"
    and "salt = new_salt (env_rnd env) (bank s)" "salt' = new_salt (env_rnd env) ((bank s)\<lparr>rand_pos := rand_pos (bank s) + 63\<rparr>)"
  shows "\<exists>es u rep rep'. run env (map Office es) s = Some u \<and>
    sent u = sent s @ [(hdr_pid (req_hdr r), rep), (hdr_pid (req_hdr r'), rep')] \<and> rep_code rep = RC_OK \<and> rep_code rep' = RC_OK \<and>
    ledger (bank u) = (ledger (bank s))(k \<mapsto> unat (crt_balance a')) \<and>
    (\<forall>p. accepts digest (bank u) k p \<longleftrightarrow> digest (p @ salt') = digest (crt_password a @ salt))"
proof -
  obtain w where w: "run env (map Office (replicate 8 i @ replicate 8 j)) s = Some w" "crashed w = None"
    "is_office i w" "pc w i = O_Ack" "progress (offices w i) = P_Begin" "next_request (offices w i) = r"
    "is_office j w" "pc w j = O_Ack" "progress (offices w j) = P_Begin" "next_request (offices w j) = r'"
    "sent w = sent s" "bank w = (bank s)\<lparr>slog := slog (bank w)\<rparr>"
    using both_taken [OF assms(1-10), of env] by blast
  have same: "accounts (bank w) = accounts (bank s)" "rand_pos (bank w) = rand_pos (bank s)"
    by (subst w(12), simp)+
  have b: "bank_ok (bank w)" "accepts digest (bank w) = accepts digest (bank s)" "ledger (bank w) = ledger (bank s)"
    using bank_ok_accounts [OF same(1)] ledger_accounts [OF same(1)] assms(12) by (simp_all add: accepts_def fun_eq_iff same(1))
  have salts: "new_salt (env_rnd env) (bank w) = salt"
    "new_salt (env_rnd env) ((bank w)\<lparr>rand_pos := rand_pos (bank w) + 63\<rparr>) = salt'"
    unfolding assms(28,29) by (rule new_salt_cong, simp add: same(2))+
  have ids: "crt_account_id a' = crt_account_id a" using assms(21,22) by (simp add: word_unat_eq_iff)
  obtain es v x where v: "run env (map Office es) w = Some v" "only_processing w v" "crashed v = None"
    "is_office i v" "is_office j v" "progress (offices v i) = P_Length" "progress (offices v j) = P_Length"
    "rep_code (office_reply (offices v i)) = RC_OK" "rep_code (office_reply (offices v j)) = RC_OK"
    "accounts (bank v) = (accounts (bank s))(k := x\<lparr>acc_account_id := crt_account_id a, acc_balance := crt_balance a',
      acc_salt := salt', acc_hash := digest (crt_password a @ salt)\<rparr>)"
    using both_stored [OF assms(1) w(3,7,4,8,2,5,9,6,10) assms(11) b(1) assms(13-16) _ _ refl] assms(17,18) ids
    unfolding b(2,3) salts same(1) assms(19-21) by blast
  have at: "pc v i = O_Ack" "pc v j = O_Ack" "next_request (offices v i) = r" "next_request (offices v j) = r'" "sent v = sent s"
    using v(2) w(4,6,8,10,11) by (simp_all add: only_processing_def)
  from deliver_two [OF assms(1) v(3,4) at(1) v(6,5) at(2) v(7) at(3,4) assms(23-27)] obtain u rep rep' where
    u: "run env (map Office (replicate 3 i @ replicate 3 j)) v = Some u" "bank u = bank v"
      "sent u = sent v @ [(hdr_pid (req_hdr r), rep), (hdr_pid (req_hdr r'), rep')]" "rep_code rep = RC_OK" "rep_code rep' = RC_OK"
    using v(8,9) by auto
  let ?es = "(replicate 8 i @ replicate 8 j) @ es @ replicate 3 i @ replicate 3 j"
  have "run env (map Office ?es) s = Some u"
    unfolding map_append [of Office "replicate 8 i @ replicate 8 j"] map_append [of Office es] run_append w(1) option.case v(1)
    by (rule u(1))
  moreover have "0 < k" "k < 4096"
    using accepted_creation(2) [OF assms(13,14,17)] request_okD(4) [OF assms(13,14)] assms(19,21)
    by (simp_all add: create_verdict_OK index_less_iff)
  then have "ledger (bank u) = (ledger (bank s))(k \<mapsto> unat (crt_balance a'))"
    using assms(21) by (simp add: fun_eq_iff ledger_def u(2) v(10))
  moreover have "accepts digest (bank u) k p \<longleftrightarrow> digest (p @ salt') = digest (crt_password a @ salt)" for p
    by (simp add: accepts_def u(2) v(10))
  ultimately show ?thesis
    using u(3-5) at(5) by (intro exI [of _ ?es] exI [of _ u] exI [of _ rep] exI [of _ rep']) (simp del: map_append)
qed

text \<open>Two requests of the administrator for account 3; afterwards neither password is accepted.\<close>

definition creating_request :: "u32 \<Rightarrow> string \<Rightarrow> tlv_request" where
  "creating_request x p = create_request ''adminpass1'' 3 x p"

lemma creating_request:
  assumes "p = ''userpass3'' \<or> p = ''userpass4''" and "x = 70 \<or> x = 90"
  shows "request_ok (creating_request x p)" "req_type (creating_request x p) = OP_CREATE_ACCOUNT"
    "value_create (req_val (creating_request x p)) = \<lparr>crt_account_id = 3, crt_balance = x, crt_password = p\<rparr>"
    "sint (hdr_pid (req_hdr (creating_request x p))) = 4242"
    "fst (spec_request (accepts sample_digest sample_bank) (creating_request x p) (ledger sample_bank)) = RC_OK"
proof -
  have "accepts sample_digest sample_bank 0 ''adminpass1''"
    by (simp add: accepts_def sample_bank_def sample_account_def)
  moreover have "ledger sample_bank 3 = None"
    by (simp add: ledger_def sample_bank_def sample_account_def static_bank_def zero_account_def)
  ultimately show "fst (spec_request (accepts sample_digest sample_bank) (creating_request x p) (ledger sample_bank)) = RC_OK"
    using assms by (auto simp: spec_request_def creating_request_def create_request_def sample_request_def
        spec_login_admin_def spec_create_def Let_def)
qed (use assms in \<open>auto simp: creating_request_def create_request_def sample_request_def request_ok_def
    MAX_PASSWORD_LEN_def MAX_BANK_ACCOUNTS_def alnum_def charset_def\<close>)

lemma sample_salts:
  assumes "length p = length q" and "length p < 64"
  shows "sample_digest (p @ new_salt id (b\<lparr>rand_pos := rand_pos b + 63\<rparr>)) \<noteq> sample_digest (q @ new_salt id b)"
proof
  assume eq: "sample_digest (p @ new_salt id (b\<lparr>rand_pos := rand_pos b + 63\<rparr>)) = sample_digest (q @ new_salt id b)"
  have d: "sample_digest (p' @ s) ! length p' = s ! 0" if "length p' < 64" "length s = 63" for p' s
    using that by (simp add: sample_digest_def nth_append)
  have first: "new_salt id b' ! 0 = charset ! (rand_pos b' mod 62)" for b'
    by (simp add: new_salt_def rand_string_eq SALT_LEN_def length_charset del: upt_Suc)
  have "charset ! ((rand_pos b + 63) mod 62) = charset ! (rand_pos b mod 62)"
    using d [of p "new_salt id (b\<lparr>rand_pos := rand_pos b + 63\<rparr>)"] d [of q "new_salt id b"]
    unfolding eq first new_salt(1) assms(1) [symmetric] using assms(2) by simp
  moreover have "distinct charset" by code_simp
  ultimately have "(rand_pos b + 63) mod 62 = rand_pos b mod 62"
    by (simp add: nth_eq_iff_index_eq length_charset)
  moreover have "(rand_pos b + 63) mod 62 = Suc (rand_pos b) mod 62"
    using mod_add_self2 [of "Suc (rand_pos b)" 62] by (simp add: add.commute)
  ultimately show False by (simp add: mod_Suc split: if_splits)
qed

theorem simultaneous_creations_break_the_account_witness:
  "\<exists>es u. run sample_env es (init_server sample_env 2 sample_bank []) = Some u \<and> ledger (bank u) 3 = Some 90 \<and>
    \<not> accepts sample_digest (bank u) 3 ''userpass3'' \<and> \<not> accepts sample_digest (bank u) 3 ''userpass4''"
proof -
  let ?r = "creating_request 70 ''userpass3''" and ?r' = "creating_request 90 ''userpass4''"
  note r = creating_request [of "''userpass3''" 70, simplified] and r' = creating_request [of "''userpass4''" 90, simplified]
  obtain s where s: "run sample_env ([Office 1, Office 2] @ arrivals [?r, ?r']) (init_server sample_env 2 sample_bank []) = Some s"
    "pc s 1 = O_Top" "pc s 2 = O_Top" "num_threads s = 2" "crashed s = None" "\<not> shutdown s" "queue_mut s = None"
    "queue_inv (request_queue s)" "queue_list (request_queue s) = [?r, ?r']" "accounts (bank s) = accounts sample_bank"
    using idle_offices_run [of "[?r, ?r']" sample_bank] r(2) r'(2) by auto
  have o: "is_office 1 s" "is_office 2 s" using s(4) by (simp_all add: is_office_def)
  have sh: "sha256_shell (env_sh sample_env) sample_digest"
    "env_fs sample_env = \<lparr>creatable = \<lambda>_. True, removable = \<lambda>_. True, openable = \<lambda>_. True\<rparr>" "env_rnd sample_env = id"
    using sample_shell by (simp_all add: sample_env_def)
  have b: "bank_ok (bank s)" using bank_ok_accounts [OF s(10)] sample_bank(1) by simp
  have same: "accepts sample_digest (bank s) = accepts sample_digest sample_bank" "ledger (bank s) = ledger sample_bank"
    using s(10) ledger_accounts [OF s(10)] by (simp_all add: accepts_def fun_eq_iff)
  obtain es u where u: "run sample_env (map Office es) s = Some u" "ledger (bank u) 3 = Some 90"
    "\<forall>p. accepts sample_digest (bank u) 3 p \<longleftrightarrow>
      sample_digest (p @ new_salt id ((bank s)\<lparr>rand_pos := rand_pos (bank s) + 63\<rparr>)) =
      sample_digest (''userpass3'' @ new_salt id (bank s))"
    using simultaneous_creations_break_the_account [OF _ o s(2,3) s(5-9) sh(1) b r(1,2) r'(1,2) _ _ refl refl _ _ _ _ _ _ sh(2) refl refl, of 3]
      r(3-5) r'(3-5) by (auto simp: same sh(3))
  have "run sample_env (([Office 1, Office 2] @ arrivals [?r, ?r']) @ map Office es) (init_server sample_env 2 sample_bank []) = Some u"
    using s(1) u(1) by (simp only: run_append option.case)
  then obtain es' where es': "run sample_env es' (init_server sample_env 2 sample_bank []) = Some u" by blast
  have "\<not> accepts sample_digest (bank u) 3 p" if "length p = 9" for p
    using u(3) sample_salts [of p "''userpass3''" "bank s"] that by simp
  then show ?thesis using u(2) es' by (intro exI [of _ es'] exI [of _ u]) simp
qed

end
