(* ===== verification/Replies.thy ===== *)
theory Replies
  imports Server_Properties
begin

text \<open>
  The types of the replies: whatever requests arrive and however the accesses of the offices
  interleave, a reply has the type, the account and the length it should have, and a code that
  its operation can give.
\<close>

section \<open>Codes\<close>

text \<open>The codes each operation answers with; for an unknown operation no code is assigned.\<close>

definition login_codes :: "ret_code set" where
  "login_codes = {RC_OK, RC_LOGIN_FAIL, RC_OP_NALLOW}"

definition reply_codes :: "op_type \<Rightarrow> ret_code set" where
  "reply_codes op =
     (case op of
        OP_CREATE_ACCOUNT \<Rightarrow> login_codes \<union> {RC_ID_IN_USE, RC_OTHER}
      | OP_BALANCE \<Rightarrow> login_codes \<union> {RC_ID_NOT_FOUND, RC_OTHER}
      | OP_TRANSFER \<Rightarrow> login_codes \<union> {RC_ID_NOT_FOUND, RC_OTHER, RC_ID_IN_USE, RC_NO_FUNDS}
      | OP_SHUTDOWN \<Rightarrow> login_codes
      | _ \<Rightarrow> UNIV)"

lemma login_codes [simp]:
  "RC_OK \<in> login_codes" "RC_LOGIN_FAIL \<in> login_codes" "RC_OP_NALLOW \<in> login_codes"
  by (simp_all add: login_codes_def)

lemma login_codes_of [simp]:
  "RC_OK \<in> reply_codes op" "RC_LOGIN_FAIL \<in> reply_codes op" "RC_OP_NALLOW \<in> reply_codes op"
  by (simp_all add: reply_codes_def split: op_type.split)

lemma login_codes_reply: "c \<in> login_codes \<Longrightarrow> c \<in> reply_codes op"
  by (auto simp: login_codes_def)

lemma reply_codes_simps [simp]:
  "reply_codes OP_CREATE_ACCOUNT = login_codes \<union> {RC_ID_IN_USE, RC_OTHER}"
  "reply_codes OP_BALANCE = login_codes \<union> {RC_ID_NOT_FOUND, RC_OTHER}"
  "reply_codes OP_TRANSFER = login_codes \<union> {RC_ID_NOT_FOUND, RC_OTHER, RC_ID_IN_USE, RC_NO_FUNDS}"
  "reply_codes OP_SHUTDOWN = login_codes"
  by (simp_all add: reply_codes_def)

abbreviation rep_account :: "tlv_reply \<Rightarrow> u32" where
  "rep_account r \<equiv> rhd_account_id (rep_header (rep_val r))"

text \<open>Everything of a reply but its length.\<close>

definition reply_for :: "tlv_request \<Rightarrow> tlv_reply \<Rightarrow> bool" where
  "reply_for r rep \<longleftrightarrow> rep_type rep = req_type r \<and> rep_account rep = hdr_account_id (req_hdr r) \<and>
     rep_code rep \<in> reply_codes (req_type r)"

lemma reply_for_set_account [simp]:
  "rhd_account_id (rep_header (set_account_id i v)) = i" "rhd_ret_code (rep_header (set_account_id i v)) = rhd_ret_code (rep_header v)"
  by (simp_all add: set_account_id_def)

lemma code_reply_simps [simp]:
  "rep_type (code_reply c rep) = rep_type rep" "rep_account (code_reply c rep) = rep_account rep"
  "rep_code (code_reply c rep) = c" "rep_length (code_reply c rep) = rep_length rep"
  by (simp_all add: code_reply_def)

section \<open>Steps of processing\<close>

text \<open>What is known of the reply at each position of \<open>acknowledge_request\<close>.\<close>

definition started :: "tlv_request \<Rightarrow> tlv_reply \<Rightarrow> bool" where
  "started r rep \<longleftrightarrow> rep_type rep = req_type r \<and> rep_account rep = hdr_account_id (req_hdr r)"

fun reply_typed :: "tlv_request \<Rightarrow> processing \<Rightarrow> tlv_reply \<Rightarrow> bool" where
  "reply_typed r P_Begin rep = True"
| "reply_typed r P_Login rep = started r rep"
| "reply_typed r P_Salt rep = started r rep"
| "reply_typed r (P_Compare h) rep = started r rep"
| "reply_typed r P_Balance rep = (started r rep \<and> req_type r = OP_BALANCE)"
| "reply_typed r (P_Transfer th) rep = (started r rep \<and> req_type r = OP_TRANSFER \<and>
     rhd_account_id (rep_header (t_value th)) = hdr_account_id (req_hdr r) \<and>
     rhd_ret_code (rep_header (t_value th)) \<in> reply_codes OP_TRANSFER)"
| "reply_typed r P_Length rep = reply_for r rep"
| "reply_typed r P_Log rep = (reply_for r rep \<and> req_type r = OP_CREATE_ACCOUNT)"
| "reply_typed r w rep = (started r rep \<and> req_type r = OP_CREATE_ACCOUNT)"

lemma transfer_exec_typed:
  assumes "transfer_exec th b = Inr (th', b')"
    and "rhd_ret_code (rep_header (t_value th)) \<in> reply_codes OP_TRANSFER"
  shows "rhd_ret_code (rep_header (t_value th')) \<in> reply_codes OP_TRANSFER \<and>
    rhd_account_id (rep_header (t_value th')) = rhd_account_id (rep_header (t_value th))"
  using assms by (cases "t_pc th") (auto simp: transfer_exec_def Let_def bind_res_eq_Inr split: if_splits)

lemma login_step_typed:
  "login_step r rep b = Inr (w, rep') \<Longrightarrow> started r rep \<Longrightarrow> reply_typed r w rep'"
  by (cases "req_type r")
    (auto simp: login_step_def started_def reply_for_def reply_codes_def bind_res_eq_Inr Let_def split: if_splits)

lemma in_use_step_typed:
  "in_use_step c rep b = Inr (w, rep') \<Longrightarrow> started r rep \<Longrightarrow> req_type r = OP_CREATE_ACCOUNT \<Longrightarrow> reply_typed r w rep'"
  by (auto simp: in_use_step_def started_def reply_for_def bind_res_eq_Inr Let_def split: if_splits)

lemma dispatch_typed:
  "started r rep \<Longrightarrow> reply_typed r (dispatch_on r (code_reply RC_OK rep)) (code_reply RC_OK rep)"
  by (cases "req_type r") (auto simp: dispatch_on_def started_def reply_for_def transfer_start_def)

lemma process_typed:
  assumes "process_exec sh rnd k r w rep b = Inr (w', rep', b')" and "reply_typed r w rep"
  shows "reply_typed r w' rep'"
proof (cases w)
  case P_Login
  then show ?thesis using assms login_step_typed by (auto simp: bind_res_eq_Inr)
next
  case P_In_Use
  then show ?thesis using assms in_use_step_typed by (auto simp: bind_res_eq_Inr)
next
  case (P_Compare h)
  then show ?thesis
    using assms dispatch_typed by (auto simp: bind_res_eq_Inr started_def reply_for_def split: if_splits)
next
  case (P_Transfer th)
  obtain th' where "transfer_exec th b = Inr (th', b')"
    and w: "(w', rep') = (if t_pc th' = T_Done then (P_Length, rep\<lparr>rep_val := t_value th'\<rparr>) else (P_Transfer th', rep))"
    using assms(1) P_Transfer by (auto simp: bind_res_eq_Inr split: if_splits)
  from transfer_exec_typed [OF this(1)] show ?thesis
    using assms(2) w P_Transfer by (auto simp: started_def reply_for_def split: if_splits)
qed (use assms in \<open>auto simp: bind_res_eq_Inr started_def reply_for_def check_user_balance_def\<close>)

section \<open>The server\<close>

lemma validate_admin_typed:
  "validate_admin sh b h rv = Inr (ok, rv') \<Longrightarrow> rhd_ret_code (rep_header rv') \<in> login_codes"
  by (auto simp: validate_admin_def check_password_def bind_res_eq_Inr split: if_splits)

lemma validate_shutdown_typed:
  "validate_request sh b r rep = Inr (ok, rep') \<Longrightarrow> req_type r = OP_SHUTDOWN \<Longrightarrow> rep_code rep' \<in> login_codes"
  by (auto simp: validate_request_def bind_res_eq_Inr dest: validate_admin_typed)

fun main_reply :: "main_pc \<Rightarrow> tlv_reply option" where
  "main_reply (M_Refuse req reply) = Some reply"
| "main_reply (M_Broadcast req reply) = Some reply"
| "main_reply (M_Answer req reply) = Some reply"
| "main_reply _ = None"

definition complete :: "tlv_reply \<Rightarrow> bool" where
  "complete rep \<longleftrightarrow> rep_length rep = of_nat sizeof_rep_value \<and> rep_code rep \<in> reply_codes (rep_type rep)"

definition replies_inv :: "server \<Rightarrow> bool" where
  "replies_inv s \<longleftrightarrow>
     (\<forall>i. pc s i = O_Ack \<longrightarrow> reply_typed (next_request (offices s i)) (progress (offices s i)) (office_reply (offices s i))) \<and>
     (\<forall>rep. main_reply (main_thread s) = Some rep \<longrightarrow> rep_code rep \<in> login_codes) \<and>
     (\<forall>r rep. (r, rep) \<in> set (acknowledged s) \<longrightarrow> reply_for r rep \<and> rep_length rep = of_nat sizeof_rep_value) \<and>
     (\<forall>m \<in> set (sent s). complete (snd m))"

lemma replies_inv_cong:
  assumes "replies_inv s"
    and "\<And>i. pc s' i = O_Ack \<Longrightarrow> pc s i = O_Ack \<and> next_request (offices s' i) = next_request (offices s i) \<and>
      progress (offices s' i) = progress (offices s i) \<and> office_reply (offices s' i) = office_reply (offices s i) \<or>
      reply_typed (next_request (offices s' i)) (progress (offices s' i)) (office_reply (offices s' i))"
    and "\<And>rep. main_reply (main_thread s') = Some rep \<Longrightarrow> main_reply (main_thread s) = Some rep \<or> rep_code rep \<in> login_codes"
    and "\<And>r rep. (r, rep) \<in> set (acknowledged s') \<Longrightarrow>
      (r, rep) \<in> set (acknowledged s) \<or> reply_for r rep \<and> rep_length rep = of_nat sizeof_rep_value"
    and "\<And>m. m \<in> set (sent s') \<Longrightarrow> m \<in> set (sent s) \<or> complete (snd m)"
  shows "replies_inv s'"
  unfolding replies_inv_def
proof (intro conjI allI impI ballI)
  fix i assume "pc s' i = O_Ack"
  with assms(1,2) show "reply_typed (next_request (offices s' i)) (progress (offices s' i)) (office_reply (offices s' i))"
    unfolding replies_inv_def by metis
next
  fix rep assume "main_reply (main_thread s') = Some rep"
  with assms(1,3) show "rep_code rep \<in> login_codes" unfolding replies_inv_def by blast
next
  fix r rep assume "(r, rep) \<in> set (acknowledged s')"
  with assms(1,4) show "reply_for r rep" "rep_length rep = of_nat sizeof_rep_value"
    unfolding replies_inv_def by blast+
next
  fix m assume "m \<in> set (sent s')"
  with assms(1,5) show "complete (snd m)" unfolding replies_inv_def by blast
qed

lemma office_replies_inv:
  assumes "office_exec env i s = Some s'" and "replies_inv s" and "service_inv s"
  shows "replies_inv s'"
proof -
  have ack: "pc s i = O_Ack \<Longrightarrow> reply_typed (next_request (offices s i)) (progress (offices s i)) (office_reply (offices s i))"
    using assms(2) by (simp add: replies_inv_def)
  have wr: "pc s i = O_Write \<Longrightarrow> complete (office_reply (offices s i))"
  proof -
    assume "pc s i = O_Write"
    then have "(next_request (offices s i), office_reply (offices s i)) \<in> set (acknowledged s)"
      using assms(3) by (simp add: service_inv_def has_reply_def)
    then have "reply_for (next_request (offices s i)) (office_reply (offices s i))"
      "rep_length (office_reply (offices s i)) = of_nat sizeof_rep_value"
      using assms(2) unfolding replies_inv_def by blast+
    then show ?thesis by (simp add: complete_def reply_for_def)
  qed
  from assms(1) show ?thesis
  proof (cases rule: office_execE)
    case (acknowledged rep)
    have "reply_for (next_request (offices s i)) rep" "rep_length rep = of_nat sizeof_rep_value"
      using ack acknowledged(1-3) by (simp_all add: reply_for_def finish_reply_def)
    then show ?thesis
      using acknowledged(4) by (intro replies_inv_cong [OF assms(2)]) (auto split: if_splits)
  next
    case (process w rep b)
    then show ?thesis
      using process_typed [OF process(3)] ack
      by (intro replies_inv_cong [OF assms(2)]) (auto split: if_splits)
  next
    case reply
    then show ?thesis
      using wr by (intro replies_inv_cong [OF assms(2)]) (auto split: if_splits)
  qed (intro replies_inv_cong [OF assms(2)]; auto split: if_splits; fail)+
qed

lemma answer_shutdown_typed:
  assumes "m \<in> set (sent (answer_shutdown env req reply p s))" and "rep_code reply \<in> login_codes"
  shows "m \<in> set (sent s) \<or> complete (snd m)"
  using assms
  by (auto simp: answer_shutdown_def complete_def Let_def attempt_def login_codes_reply split: sum.splits prod.splits)

lemma main_replies_inv:
  assumes "main_exec env s = Some s'" and "replies_inv s" and "service_inv s"
  shows "replies_inv s'"
proof -
  have mr: "main_reply (main_thread s) = Some rep \<Longrightarrow> rep_code rep \<in> login_codes" for rep
    using assms(2) by (simp add: replies_inv_def)
  have sd: "main_thread s = M_Shutdown req \<Longrightarrow> req_type req = OP_SHUTDOWN" for req
    using assms(3) by (simp add: service_inv_def)
  from assms(1) show ?thesis
  proof (cases rule: main_execE)
    case (refuse req rep)
    then show ?thesis
      using mr answer_shutdown_main [of env req rep M_Read s]
      by (intro replies_inv_cong [OF assms(2)]) (auto dest: answer_shutdown_typed)
  next
    case (answer req rep)
    then show ?thesis
      using mr answer_shutdown_main [of env req rep "M_Join 0" s]
      by (intro replies_inv_cong [OF assms(2)]) (auto dest: answer_shutdown_typed)
  qed (intro replies_inv_cong [OF assms(2)]; use mr sd validate_shutdown_typed in \<open>fastforce split: if_splits\<close>; fail)+
qed

lemma step_replies_inv:
  assumes "server_step env s e s'" and "replies_inv s" and "service_inv s"
  shows "replies_inv s'"
  using assms(1)
proof (cases rule: server_step.cases)
  case (office i)
  then show ?thesis using office_replies_inv assms(2,3) by blast
next
  case main
  then show ?thesis using main_replies_inv assms(2,3) by blast
qed (intro replies_inv_cong [OF assms(2)]; auto simp: receive_def after_signal_def blocked_def split: if_splits; fail)+

lemma init_replies_inv: "replies_inv (init_server env n b fs)"
  by (simp add: replies_inv_def init_server_def)

interpretation replies: transition_invariant "\<lambda>s. s = init_server env n b fs" "server_step env"
    "\<lambda>s. service_inv s \<and> replies_inv s" for env n b fs
  by unfold_locales (auto intro: init_service_inv step_service_inv init_replies_inv step_replies_inv)

section \<open>Properties\<close>

text \<open>
  C10: Replies are typed. In every state that steps reach from a start, whatever requests arrive
  and however the threads interleave, every reply written to a FIFO has the length of its
  value and a code that its operation can give: never RC_SRV_DOWN, RC_SRV_TIMEOUT, RC_USR_DOWN,
  RC_SAME_ID or RC_TOO_HIGH unless the operation is unknown. It is a shutdown's, or one an office made
  for a request of the client it is sent to, and then it has that request's type and account.
\<close>

theorem replies_are_typed:
  assumes "steps env (init_server env n b fs) s" and "(pid, rep) \<in> set (sent s)"
  shows "rep_length rep = of_nat sizeof_rep_value \<and> rep_code rep \<in> reply_codes (rep_type rep) \<and>
    (rep_type rep = OP_SHUTDOWN \<or> (\<exists>r. (r, rep) \<in> set (acknowledged s) \<and> pid = hdr_pid (req_hdr r) \<and>
       rep_type rep = req_type r \<and> rhd_account_id (rep_header (rep_val rep)) = hdr_account_id (req_hdr r)))"
proof -
  note inv = replies.reach_inv [OF assms(1)]
  have "complete rep" "answers s (pid, rep)"
    using inv assms(2) by (auto simp: replies_inv_def service_inv_def)
  moreover have "reply_for r rep" if "(r, rep) \<in> set (acknowledged s)" for r
    using inv that by (auto simp: replies_inv_def)
  ultimately show ?thesis by (auto simp: complete_def answers_def reply_for_def)
qed

theorem replies_are_typed_witness:
  "\<exists>s rep. steps sample_env (init_server sample_env 2 sample_bank []) s \<and> (4242, rep) \<in> set (sent s) \<and>
    rep_code rep \<in> reply_codes (rep_type rep)"
  using served_balance_run replies_are_typed by blast

end
