(* ===== verification/Forensic_Options.thy ===== *)
theory Forensic_Options
  imports C_Library
begin

text \<open>
  The \<open>forensic\<close> tool of \<open>project1\<close>: the constants and structures of \<open>utils.h\<close> and the
  command line, read by \<open>main\<close> of \<open>forensic.c\<close> into flags and values. The fields
  \<open>exec_name\<close> and \<open>process_id\<close>, which no statement uses, are left out.
\<close>

section \<open>Constants and types\<close>

definition FLAG_NUMBER :: nat where "FLAG_NUMBER = 4"
definition RECURSIVE :: nat where "RECURSIVE = 0"
definition CRYPTOHASH :: nat where "CRYPTOHASH = 1"
definition OUTFILE :: nat where "OUTFILE = 2"
definition LOGFILE :: nat where "LOGFILE = 3"

definition MAX_CRYPTOHASH_FLAGS :: nat where "MAX_CRYPTOHASH_FLAGS = 3"
definition MD5_FLAG :: nat where "MD5_FLAG = 0"
definition SHA1_FLAG :: nat where "SHA1_FLAG = 1"
definition SHA256_FLAG :: nat where "SHA256_FLAG = 2"

definition MD5_HASH_SIZE :: nat where "MD5_HASH_SIZE = 32"
definition SHA1_HASH_SIZE :: nat where "SHA1_HASH_SIZE = 40"
definition SHA256_HASH_SIZE :: nat where "SHA256_HASH_SIZE = 64"

definition MAX_FILE_NAME :: nat where "MAX_FILE_NAME = 64"
definition ACCESS_PERMISSIONS :: nat where "ACCESS_PERMISSIONS = 3"

lemmas flag_numbers = RECURSIVE_def CRYPTOHASH_def OUTFILE_def LOGFILE_def
  MD5_FLAG_def SHA1_FLAG_def SHA256_FLAG_def FLAG_NUMBER_def MAX_CRYPTOHASH_FLAGS_def

datatype act_type = COMMAND | SIGNAL | ANALIZED

record file_info =
  file_name :: string
  file_type :: string
  file_size :: string
  file_access_owner :: string
  file_modification_date :: string
  file_access_date :: string
  md5_hash :: string
  sha1_hash :: string
  sha256_hash :: string

record command_info =
  cmd_directory :: string
  cmd_outfile :: string
  cmd_cryptohash :: string
  cryptohash_flags :: "int list"
  raised_flags :: "int list"
  cmd_logfilename :: string
  cmd_parentPID :: int

text \<open>The structures as \<open>calloc\<close> makes them.\<close>

definition zero_command :: command_info where
  "zero_command =
     \<lparr>cmd_directory = [], cmd_outfile = [], cmd_cryptohash = [],
      cryptohash_flags = replicate (MAX_CRYPTOHASH_FLAGS + 1) 0, raised_flags = replicate (FLAG_NUMBER + 1) 0,
      cmd_logfilename = [], cmd_parentPID = 0\<rparr>"

definition zero_info :: file_info where
  "zero_info =
     \<lparr>file_name = [], file_type = [], file_size = [], file_access_owner = [],
      file_modification_date = [], file_access_date = [], md5_hash = [], sha1_hash = [], sha256_hash = []\<rparr>"

definition raised :: "nat \<Rightarrow> command_info \<Rightarrow> bool" where
  "raised k c \<longleftrightarrow> raised_flags c ! k \<noteq> 0"

definition hashing :: "nat \<Rightarrow> command_info \<Rightarrow> bool" where
  "hashing k c \<longleftrightarrow> cryptohash_flags c ! k \<noteq> 0"

section \<open>The flags\<close>

text \<open>
  The loop of \<open>main\<close> over \<open>argv[1]\<close> to \<open>argv[argc - 2]\<close>. The value of an option may be the
  last argument, which is then read as the directory too.
\<close>

function parse_flags :: "string list \<Rightarrow> nat \<Rightarrow> command_info \<Rightarrow> command_info res" where
  "parse_flags argv i c =
     (if i < length argv - 1 then
        if argv ! i = ''-r'' then
          parse_flags argv (i + 1) (c\<lparr>raised_flags := (raised_flags c)[RECURSIVE := 1]\<rparr>)
        else if argv ! i = ''-h'' then
          (let c = c\<lparr>raised_flags := (raised_flags c)[CRYPTOHASH := 1]\<rparr> in
           if argv ! (i + 1) = ''-o'' \<or> argv ! (i + 1) = ''-v'' \<or> argv ! (i + 1) = ''-r'' then Inl (Exit 1)
           else bind_res (strcpy (MAX_FILE_NAME + 1) (argv ! (i + 1))) (\<lambda>s.
             parse_flags argv (i + 2) (c\<lparr>cmd_cryptohash := s\<rparr>)))
        else if argv ! i = ''-o'' then
          (let c = c\<lparr>raised_flags := (raised_flags c)[OUTFILE := 1]\<rparr> in
           if argv ! (i + 1) = ''-h'' \<or> argv ! (i + 1) = ''-v'' \<or> argv ! (i + 1) = ''-r'' then Inl (Exit 1)
           else bind_res (strcpy (MAX_FILE_NAME + 1) (argv ! (i + 1))) (\<lambda>s.
             parse_flags argv (i + 2) (c\<lparr>cmd_outfile := s\<rparr>)))
        else if argv ! i = ''-v'' then
          (let c = c\<lparr>raised_flags := (raised_flags c)[LOGFILE := 1]\<rparr> in
           if argv ! i = ''-h'' \<or> argv ! i = ''-o'' \<or> argv ! i = ''-r'' then Inl (Exit 1)
           else parse_flags argv (i + 1) c)
        else Inl (Exit 1)
      else Inr c)"
  by pat_completeness auto
termination by (relation "measure (\<lambda>(argv, i, c). length argv - i)") auto

declare parse_flags.simps [simp del]

lemma strtok_rest_measure:
  "(case strtok d s of None \<Rightarrow> 0 | Some (t, r) \<Rightarrow> Suc (length r)) < Suc (length s)"
  by (auto split: option.splits dest: strtok_shorter)

text \<open>The loop over the tokens of the value of \<open>-h\<close>.\<close>

function hash_loop :: "(string \<times> string) option \<Rightarrow> command_info \<Rightarrow> command_info res" where
  "hash_loop None c = Inr c"
| "hash_loop (Some (token, rest)) c =
     (if token = ''md5'' then
        hash_loop (strtok '','' rest) (c\<lparr>cryptohash_flags := (cryptohash_flags c)[MD5_FLAG := 1]\<rparr>)
      else if token = ''sha1'' then
        hash_loop (strtok '','' rest) (c\<lparr>cryptohash_flags := (cryptohash_flags c)[SHA1_FLAG := 1]\<rparr>)
      else if token = ''sha256'' then
        hash_loop (strtok '','' rest) (c\<lparr>cryptohash_flags := (cryptohash_flags c)[SHA256_FLAG := 1]\<rparr>)
      else Inl (Exit 1))"
  by pat_completeness auto

termination
  by (relation "measure (\<lambda>(t, c). case t of None \<Rightarrow> 0 | Some (t, r) \<Rightarrow> Suc (length r))")
    (use strtok_rest_measure in auto)

text \<open>The buffer \<open>exec_parameters\<close>: every argument and a space.\<close>

fun exec_parameters :: "string list \<Rightarrow> string \<Rightarrow> string res" where
  "exec_parameters [] buf = Inr buf"
| "exec_parameters (a # argv) buf =
     bind_res (strcat (MAX_FILE_NAME + 1) buf a) (\<lambda>buf.
     bind_res (strcat (MAX_FILE_NAME + 1) buf '' '') (exec_parameters argv))"

section \<open>Options\<close>

text \<open>What a command line asks for, and how it is written.\<close>

datatype algorithm = MD5 | SHA1 | SHA256

fun algorithm_name :: "algorithm \<Rightarrow> string" where
  "algorithm_name MD5 = ''md5''" | "algorithm_name SHA1 = ''sha1''" | "algorithm_name SHA256 = ''sha256''"

fun algorithm_flag :: "algorithm \<Rightarrow> nat" where
  "algorithm_flag MD5 = MD5_FLAG" | "algorithm_flag SHA1 = SHA1_FLAG" | "algorithm_flag SHA256 = SHA256_FLAG"

fun hash_value :: "algorithm list \<Rightarrow> string" where
  "hash_value [] = []"
| "hash_value [a] = algorithm_name a"
| "hash_value (a # as) = algorithm_name a @ CHR '','' # hash_value as"

datatype cli_option = Opt_Recursive | Opt_Hash string | Opt_Out string | Opt_Log

fun option_words :: "cli_option \<Rightarrow> string list" where
  "option_words Opt_Recursive = [''-r'']"
| "option_words (Opt_Hash s) = [''-h'', s]"
| "option_words (Opt_Out s) = [''-o'', s]"
| "option_words Opt_Log = [''-v'']"

fun option_effect :: "cli_option \<Rightarrow> command_info \<Rightarrow> command_info" where
  "option_effect Opt_Recursive c = c\<lparr>raised_flags := (raised_flags c)[RECURSIVE := 1]\<rparr>"
| "option_effect (Opt_Hash s) c = c\<lparr>raised_flags := (raised_flags c)[CRYPTOHASH := 1], cmd_cryptohash := s\<rparr>"
| "option_effect (Opt_Out s) c = c\<lparr>raised_flags := (raised_flags c)[OUTFILE := 1], cmd_outfile := s\<rparr>"
| "option_effect Opt_Log c = c\<lparr>raised_flags := (raised_flags c)[LOGFILE := 1]\<rparr>"

fun option_ok :: "cli_option \<Rightarrow> bool" where
  "option_ok (Opt_Hash s) \<longleftrightarrow> s \<notin> {''-o'', ''-v'', ''-r''} \<and> length s \<le> MAX_FILE_NAME"
| "option_ok (Opt_Out s) \<longleftrightarrow> s \<notin> {''-h'', ''-v'', ''-r''} \<and> length s \<le> MAX_FILE_NAME"
| "option_ok _ \<longleftrightarrow> True"

lemma parse_option:
  assumes "option_ok opt" and "rest \<noteq> []"
  shows "parse_flags (pre @ option_words opt @ rest) (length pre) c =
    parse_flags (pre @ option_words opt @ rest) (length pre + length (option_words opt)) (option_effect opt c)"
proof -
  have "strcpy (MAX_FILE_NAME + 1) s = Inr s" if "length s \<le> MAX_FILE_NAME" for s using that by simp
  then show ?thesis
    using assms
    by (cases opt) (simp_all add: parse_flags.simps [of _ "length pre"] nth_append Let_def neq_Nil_conv)
qed

lemma parse_options:
  assumes "\<forall>opt \<in> set opts. option_ok opt" and "rest \<noteq> []"
  shows "parse_flags (pre @ concat (map option_words opts) @ rest) (length pre) c =
    parse_flags (pre @ concat (map option_words opts) @ rest) (length pre + length (concat (map option_words opts)))
      (fold option_effect opts c)"
  using assms(1)
proof (induction opts arbitrary: pre c)
  case (Cons opt opts)
  let ?rest = "concat (map option_words opts) @ rest"
  have "parse_flags (pre @ option_words opt @ ?rest) (length pre) c =
      parse_flags ((pre @ option_words opt) @ ?rest) (length (pre @ option_words opt)) (option_effect opt c)"
    using parse_option [of opt ?rest pre c] Cons.prems assms(2) by simp
  also have "\<dots> = parse_flags ((pre @ option_words opt) @ ?rest)
      (length (pre @ option_words opt) + length (concat (map option_words opts))) (fold option_effect opts (option_effect opt c))"
    by (rule Cons.IH) (use Cons.prems in simp)
  finally show ?case by (simp add: add.assoc)
qed simp

lemma parse_all:
  assumes "\<forall>opt \<in> set opts. option_ok opt"
  shows "parse_flags (exe # concat (map option_words opts) @ [dir]) 1 c = Inr (fold option_effect opts c)"
  using parse_options [OF assms, of "[dir]" "[exe]" c]
  by (simp add: parse_flags.simps [of _ "Suc (length _)"])

lemma parse_unknown:
  assumes "\<forall>opt \<in> set opts. option_ok opt" and "w \<notin> {''-r'', ''-h'', ''-o'', ''-v''}" and "rest \<noteq> []"
  shows "parse_flags (exe # concat (map option_words opts) @ w # rest) 1 c = Inl (Exit 1)"
  using parse_options [OF assms(1), of "w # rest" "[exe]" c] assms(2,3)
  by (simp add: parse_flags.simps [of _ "Suc (length _)"] nth_append)


fun option_flag :: "cli_option \<Rightarrow> nat" where
  "option_flag Opt_Recursive = RECURSIVE"
| "option_flag (Opt_Hash _) = CRYPTOHASH"
| "option_flag (Opt_Out _) = OUTFILE"
| "option_flag Opt_Log = LOGFILE"

text \<open>The last value given for \<open>-h\<close> and for \<open>-o\<close>.\<close>

fun last_hash :: "cli_option list \<Rightarrow> string \<Rightarrow> string" where
  "last_hash [] s = s"
| "last_hash (Opt_Hash t # opts) s = last_hash opts t"
| "last_hash (_ # opts) s = last_hash opts s"

fun last_out :: "cli_option list \<Rightarrow> string \<Rightarrow> string" where
  "last_out [] s = s"
| "last_out (Opt_Out t # opts) s = last_out opts t"
| "last_out (_ # opts) s = last_out opts s"

lemma option_effect_flags:
  "length (raised_flags (option_effect opt c)) = length (raised_flags c)"
  "length (raised_flags c) = 5 \<Longrightarrow> k < 5 \<Longrightarrow> raised k (option_effect opt c) \<longleftrightarrow> k = option_flag opt \<or> raised k c"
  "cryptohash_flags (option_effect opt c) = cryptohash_flags c"
  by (cases opt; auto simp: raised_def nth_list_update flag_numbers)+

lemma options_flags:
  assumes "length (raised_flags c) = 5" and "k < 5"
  shows "raised k (fold option_effect opts c) \<longleftrightarrow> k \<in> option_flag ` set opts \<or> raised k c"
  using assms(1)
  by (induction opts arbitrary: c) (auto simp: option_effect_flags assms(2))

lemma options_values:
  "cmd_cryptohash (fold option_effect opts c) = last_hash opts (cmd_cryptohash c)"
  "cmd_outfile (fold option_effect opts c) = last_out opts (cmd_outfile c)"
  "cryptohash_flags (fold option_effect opts c) = cryptohash_flags c"
proof (induction opts arbitrary: c)
  case (Cons opt opts)
  { case 1 show ?case using Cons(1) by (cases opt) simp_all }
  { case 2 show ?case using Cons(2) by (cases opt) simp_all }
  { case 3 show ?case using Cons(3) by (cases opt) simp_all }
qed simp_all

lemma options_log_name: "cmd_logfilename (fold option_effect opts c) = cmd_logfilename c"
proof (induction opts arbitrary: c)
  case (Cons opt opts)
  then show ?case by (cases opt) simp_all
qed simp

text \<open>The value of \<open>-h\<close> raises the flags of the algorithms it names.\<close>

definition hash_effect :: "algorithm list \<Rightarrow> command_info \<Rightarrow> command_info" where
  "hash_effect as c = c\<lparr>cryptohash_flags := fold (\<lambda>a fl. fl[algorithm_flag a := 1]) as (cryptohash_flags c)\<rparr>"

lemma algorithm_name [simp]: "algorithm_name a \<noteq> []" "CHR '','' \<notin> set (algorithm_name a)"
  by (cases a; simp)+

lemma hash_loop_step:
  "hash_loop (Some (algorithm_name a, rest)) c = hash_loop (strtok '','' rest) (hash_effect [a] c)"
  by (cases a) (simp_all add: hash_effect_def)

lemma hash_loop_names: "hash_loop (strtok '','' (hash_value as)) c = Inr (hash_effect as c)"
proof (induction "as" arbitrary: c rule: hash_value.induct)
  case 1
  then show ?case by (simp add: strtok_def hash_effect_def)
next
  case (2 a)
  have "strtok '','' (hash_value [a]) = Some (algorithm_name a, [])"
    by (simp add: strtok_last)
  moreover have "strtok '','' [] = None" by (simp add: strtok_def)
  ultimately show ?case by (simp add: hash_loop_step del: hash_loop.simps(2))
next
  case (3 a a' as)
  have "strtok '','' (hash_value (a # a' # as)) = Some (algorithm_name a, hash_value (a' # as))"
    by (simp add: strtok_token)
  with 3 show ?case by (simp add: hash_loop_step del: hash_loop.simps(2)) (simp add: hash_effect_def)
qed

lemma hashing_effect:
  assumes "length (cryptohash_flags c) = 4"
  shows "hashing (algorithm_flag a) (hash_effect as c) \<longleftrightarrow> a \<in> set as \<or> hashing (algorithm_flag a) c"
  using assms
proof (induction "as" arbitrary: c)
  case (Cons a' as)
  have "hash_effect (a' # as) c = hash_effect as (hash_effect [a'] c)" by (simp add: hash_effect_def)
  moreover have "length (cryptohash_flags (hash_effect [a'] c)) = 4" using Cons.prems by (simp add: hash_effect_def)
  moreover have "hashing (algorithm_flag a) (hash_effect [a'] c) \<longleftrightarrow> a = a' \<or> hashing (algorithm_flag a) c"
    using Cons.prems by (cases a; cases a') (simp_all add: hashing_def hash_effect_def flag_numbers)
  ultimately show ?case using Cons.IH by auto
qed (simp add: hash_effect_def)

section \<open>The length of a command line\<close>

lemma exec_parameters_eq:
  "exec_parameters argv buf =
    (if argv = [] \<or> length buf + length (concat (map (\<lambda>a. a @ '' '') argv)) \<le> MAX_FILE_NAME
     then Inr (buf @ concat (map (\<lambda>a. a @ '' '') argv)) else Inl (Undefined BufferOverflow))"
proof (induction argv arbitrary: buf)
  case (Cons a argv)
  show ?case
  proof (cases "length buf + length a < MAX_FILE_NAME")
    case True
    then show ?thesis using Cons [of "buf @ a @ '' ''"] by (simp add: strcat_def strcpy_def)
  next
    case False
    then show ?thesis by (auto simp: strcat_def strcpy_def)
  qed
qed simp


section \<open>Properties\<close>

text \<open>
  C31: The tool does what its options say. For any sequence of options whose values fit 64
  characters and are not options themselves, followed by the file or directory, the loop over
  the arguments succeeds, raises exactly the flags of the options given, keeps the last value
  of -h and of -o, and the loop over the value of -h raises exactly the flags of the
  algorithms it names, separated by commas.
\<close>

theorem options_understood:
  assumes "\<forall>opt \<in> set opts. option_ok opt" and "last_hash opts [] = hash_value as"
  shows "\<exists>c c'. parse_flags (exe # concat (map option_words opts) @ [dir]) 1 zero_command = Inr c \<and>
    (\<forall>k < 4. raised k c \<longleftrightarrow> k \<in> option_flag ` set opts) \<and> cmd_outfile c = last_out opts [] \<and>
    hash_loop (strtok '','' (cmd_cryptohash c)) c = Inr c' \<and>
    (\<forall>a. hashing (algorithm_flag a) c' \<longleftrightarrow> a \<in> set as)"
proof -
  let ?c = "fold option_effect opts zero_command"
  have z: "length (raised_flags zero_command) = 5" "length (cryptohash_flags zero_command) = 4"
    by (simp_all add: zero_command_def FLAG_NUMBER_def MAX_CRYPTOHASH_FLAGS_def)
  have "\<not> raised k zero_command" if "k < 4" for k
    using that by (simp add: raised_def zero_command_def FLAG_NUMBER_def)
  then have r: "raised k ?c \<longleftrightarrow> k \<in> option_flag ` set opts" if "k < 4" for k
    using that options_flags [OF z(1), of k opts] by simp
  have "\<not> hashing (algorithm_flag a) zero_command" for a
    by (cases a) (simp_all add: hashing_def zero_command_def flag_numbers)
  moreover have "length (cryptohash_flags ?c) = 4" "hashing k ?c = hashing k zero_command" for k
    using z(2) by (simp_all add: options_values hashing_def)
  ultimately have h: "hashing (algorithm_flag a) (hash_effect as ?c) \<longleftrightarrow> a \<in> set as" for a
    using hashing_effect [of ?c a "as"] by simp
  have "cmd_cryptohash zero_command = []" "cmd_outfile zero_command = []" by (simp_all add: zero_command_def)
  then show ?thesis
    using parse_all [OF assms(1), of exe dir zero_command] r h hash_loop_names [of "as" ?c] assms(2)
    by (intro exI [of _ ?c] exI [of _ "hash_effect as ?c"]) (simp add: options_values)
qed

theorem options_understood_witness:
  "\<exists>c c'. parse_flags [''forensic'', ''-r'', ''-h'', ''md5,sha256'', ''-o'', ''out.txt'', ''dir''] 1 zero_command = Inr c \<and>
    raised RECURSIVE c \<and> \<not> raised LOGFILE c \<and> cmd_outfile c = ''out.txt'' \<and>
    hash_loop (strtok '','' (cmd_cryptohash c)) c = Inr c' \<and> hashing MD5_FLAG c' \<and> \<not> hashing SHA1_FLAG c'"
proof -
  let ?opts = "[Opt_Recursive, Opt_Hash ''md5,sha256'', Opt_Out ''out.txt'']"
  have "\<forall>opt \<in> set ?opts. option_ok opt" "last_hash ?opts [] = hash_value [MD5, SHA256]"
    by (simp_all add: MAX_FILE_NAME_def)
  from options_understood [OF this, of "''forensic''" "''dir''"] obtain c c' where
    c: "parse_flags (''forensic'' # concat (map option_words ?opts) @ [''dir'']) 1 zero_command = Inr c"
      "\<forall>k < 4. raised k c \<longleftrightarrow> k \<in> option_flag ` set ?opts" "cmd_outfile c = last_out ?opts []"
      "hash_loop (strtok '','' (cmd_cryptohash c)) c = Inr c'" "\<forall>a. hashing (algorithm_flag a) c' \<longleftrightarrow> a \<in> set [MD5, SHA256]"
    by blast
  have "raised RECURSIVE c" "\<not> raised LOGFILE c" using c(2) by (auto simp: flag_numbers)
  moreover have "hashing MD5_FLAG c'" "\<not> hashing SHA1_FLAG c'"
    using c(5) [rule_format, of MD5] c(5) [rule_format, of SHA1] by simp_all
  ultimately show ?thesis using c(1,3,4) by auto
qed

text \<open>
  Wrong command lines. After any correct options, a word that is no option stops the tool
  with EXIT_FAILURE, as do a -h without algorithms before another option and an unknown
  algorithm; but -v is tested for a missing value it does not have, a value of more than 64
  characters overflows its field, and so does the copy of the whole command line, which must
  not be longer than 64 characters with its spaces, even when -v is not given.
\<close>

theorem options_refused:
  assumes "\<forall>opt \<in> set opts. option_ok opt" and "w \<notin> {''-r'', ''-h'', ''-o'', ''-v''}" and "rest \<noteq> []"
  shows "parse_flags (exe # concat (map option_words opts) @ w # rest) 1 c = Inl (Exit 1) \<and>
    parse_flags (exe # concat (map option_words opts) @ ''-h'' # ''-o'' # rest) 1 c = Inl (Exit 1) \<and>
    (\<forall>s. 64 < length s \<longrightarrow>
       parse_flags (exe # concat (map option_words opts) @ ''-o'' # s # rest) 1 c = Inl (Undefined BufferOverflow)) \<and>
    (\<forall>token r. (\<forall>a. token \<noteq> algorithm_name a) \<longrightarrow> hash_loop (Some (token, r)) c = Inl (Exit 1)) \<and>
    (\<forall>argv. argv \<noteq> [] \<longrightarrow> (exec_parameters argv [] = Inl (Undefined BufferOverflow) \<longleftrightarrow>
       64 < length (concat (map (\<lambda>a. a @ '' '') argv))))"
proof -
  have "parse_flags (exe # concat (map option_words opts) @ ''-h'' # ''-o'' # rest) 1 c = Inl (Exit 1)"
    using parse_options [OF assms(1), of "''-h'' # ''-o'' # rest" "[exe]" c] assms(3)
    by (simp add: parse_flags.simps [of _ "Suc (length _)"] nth_append Let_def)
  moreover have "parse_flags (exe # concat (map option_words opts) @ ''-o'' # s # rest) 1 c =
      Inl (Undefined BufferOverflow)" if "64 < length s" for s
  proof -
    have "s \<noteq> ''-h'' \<and> s \<noteq> ''-v'' \<and> s \<noteq> ''-r''" using that by auto
    moreover have "strcpy (MAX_FILE_NAME + 1) s = Inl (Undefined BufferOverflow)"
      using that by (simp add: strcpy_def MAX_FILE_NAME_def)
    ultimately show ?thesis
      using parse_options [OF assms(1), of "''-o'' # s # rest" "[exe]" c] assms(3)
      by (simp add: parse_flags.simps [of _ "Suc (length _)"] nth_append Let_def)
  qed
  moreover have "hash_loop (Some (token, r)) c = Inl (Exit 1)" if "\<forall>a. token \<noteq> algorithm_name a" for token r
    using that [rule_format, of MD5] that [rule_format, of SHA1] that [rule_format, of SHA256] by simp
  ultimately show ?thesis
    using parse_unknown [OF assms] exec_parameters_eq [of _ "[]"] by (simp add: MAX_FILE_NAME_def not_le)
qed

theorem options_refused_witness:
  "parse_flags [''forensic'', ''-r'', ''-x'', ''dir''] 1 zero_command = Inl (Exit 1)"
  using options_refused [of "[Opt_Recursive]" "''-x''" "[''dir'']" "''forensic''" zero_command] by simp

end
