(* ===== verification/Forensic_Report.thy ===== *)
theory Forensic_Report
  imports Forensic_Options
begin

text \<open>
  What \<open>forensic\<close> finds out about one file and writes about it: \<open>dump_stat\<close>,
  \<open>print_fileinfo\<close>, \<open>write_log\<close> and \<open>signal_handler\<close> of \<open>forensic.c\<close>, with the calendar of
  the C library.
\<close>

unbundle bit_operations_syntax

section \<open>Dates\<close>

text \<open>
  \<open>gmtime\<close> of the C library on times from 1970 on: years and months are counted off from
  the number of days; \<open>tm_mon\<close> counts from 0.
\<close>

record tm =
  tm_year :: nat
  tm_mon :: nat
  tm_mday :: nat
  tm_hour :: nat
  tm_min :: nat
  tm_sec :: nat

definition leap_year :: "nat \<Rightarrow> bool" where
  "leap_year y \<longleftrightarrow> y mod 4 = 0 \<and> (y mod 100 \<noteq> 0 \<or> y mod 400 = 0)"

definition year_days :: "nat \<Rightarrow> nat" where
  "year_days y = (if leap_year y then 366 else 365)"

definition month_days :: "nat \<Rightarrow> nat list" where
  "month_days y = [31, if leap_year y then 29 else 28, 31, 30, 31, 30, 31, 31, 30, 31, 30, 31]"

function year_loop :: "nat \<Rightarrow> nat \<Rightarrow> nat \<times> nat" where
  "year_loop y d = (if d < year_days y then (y, d) else year_loop (y + 1) (d - year_days y))"
  by pat_completeness auto
termination by (relation "measure snd") (auto simp: year_days_def)

declare year_loop.simps [simp del]

fun month_loop :: "nat list \<Rightarrow> nat \<Rightarrow> nat \<Rightarrow> nat \<times> nat" where
  "month_loop [] k d = (k, d)"
| "month_loop (m # ms) k d = (if d < m then (k, d) else month_loop ms (k + 1) (d - m))"

definition gmtime :: "nat \<Rightarrow> tm" where
  "gmtime t =
     (let (y, d) = year_loop 1970 (t div 86400); (m, d) = month_loop (month_days y) 0 d; s = t mod 86400
      in \<lparr>tm_year = y - 1900, tm_mon = m, tm_mday = d + 1, tm_hour = s div 3600, tm_min = s mod 3600 div 60,
          tm_sec = s mod 60\<rparr>)"

text \<open>\<open>sprintf (date, "%d-%02d-%02dT%02d:%02d:%02d", 1900 + date->tm_year, date->tm_mon, ...)\<close>.\<close>

definition date_text :: "tm \<Rightarrow> string" where
  "date_text date =
     show_int (int (1900 + tm_year date)) @ ''-'' @ fmt_zero 2 (int (tm_mon date)) @ ''-'' @
     fmt_zero 2 (int (tm_mday date)) @ ''T'' @ fmt_zero 2 (int (tm_hour date)) @ '':'' @
     fmt_zero 2 (int (tm_min date)) @ '':'' @ fmt_zero 2 (int (tm_sec date))"

text \<open>The calendar: the days from 1970 to a date whose month counts from 1.\<close>

definition days_before_year :: "nat \<Rightarrow> nat" where
  "days_before_year y = (\<Sum>k\<leftarrow>[1970..<y]. year_days k)"

definition calendar_day :: "nat \<Rightarrow> nat \<Rightarrow> nat \<Rightarrow> nat" where
  "calendar_day y m d = days_before_year y + sum_list (take (m - 1) (month_days y)) + (d - 1)"

lemma year_loop_days:
  "year_loop y d = (y', d') \<Longrightarrow> 1970 \<le> y \<Longrightarrow>
    days_before_year y' + d' = days_before_year y + d \<and> d' < year_days y' \<and> y \<le> y'"
proof (induction y d arbitrary: y' d' rule: year_loop.induct)
  case (1 y d)
  show ?case
  proof (cases "d < year_days y")
    case True
    with 1 show ?thesis by (simp add: year_loop.simps)
  next
    case False
    have "year_loop (y + 1) (d - year_days y) = (y', d')"
      using 1(2) False by (simp add: year_loop.simps [of y d])
    from 1(1) [OF False this] 1(3) False show ?thesis by (simp add: days_before_year_def)
  qed
qed

lemma month_loop_days:
  "month_loop ms k d = (m, d') \<Longrightarrow> d < sum_list ms \<Longrightarrow>
    k \<le> m \<and> m < k + length ms \<and> sum_list (take (m - k) ms) + d' = d \<and> d' < ms ! (m - k)"
proof (induction ms k d rule: month_loop.induct)
  case (2 a ms k d)
  show ?case
  proof (cases "d < a")
    case False
    with 2 have "k + 1 \<le> m \<and> m < k + 1 + length ms \<and> sum_list (take (m - (k + 1)) ms) + d' = d - a \<and>
        d' < ms ! (m - (k + 1))" by simp
    moreover from this have "k + 1 \<le> m" by blast
    then have "m - k = Suc (m - (k + 1))" by arith
    ultimately show ?thesis using False by auto
  qed (use 2 in auto)
qed simp

lemma sum_month_days: "sum_list (month_days y) = year_days y" "length (month_days y) = 12"
  by (simp_all add: month_days_def year_days_def)

lemma gmtime_calendar:
  "calendar_day (1900 + tm_year (gmtime t)) (tm_mon (gmtime t) + 1) (tm_mday (gmtime t)) = t div 86400 \<and>
    tm_mon (gmtime t) < 12 \<and> 1 \<le> tm_mday (gmtime t) \<and>
    tm_mday (gmtime t) \<le> month_days (1900 + tm_year (gmtime t)) ! tm_mon (gmtime t)"
proof -
  obtain y d where y: "year_loop 1970 (t div 86400) = (y, d)" by (cases "year_loop 1970 (t div 86400)")
  obtain m d' where m: "month_loop (month_days y) 0 d = (m, d')" by (cases "month_loop (month_days y) 0 d")
  note yd = year_loop_days [OF y]
  then have "d < sum_list (month_days y)" by (simp add: sum_month_days)
  note md = month_loop_days [OF m this]
  have "days_before_year 1970 = 0" by (simp add: days_before_year_def)
  then show ?thesis
    using y m yd md by (simp add: gmtime_def Let_def calendar_day_def sum_month_days)
qed


section \<open>The system around the tool\<close>

text \<open>
  What the tool gets from outside: the result of \<open>stat\<close>, the output of shell commands, the
  clock when a log entry is written, which log files can be opened, and the bytes the
  compiler leaves unused behind each of the local arrays of \<open>dump_stat\<close> (the language
  promises none).
\<close>

record file_stat =
  st_size :: int
  st_mode :: u32
  st_mtime :: nat
  st_atime :: nat

record timespec =
  tv_sec :: int
  tv_nsec :: int

record forensic_env =
  f_stat :: "string \<Rightarrow> file_stat option"
  f_shell :: "string \<Rightarrow> string"
  f_clock :: "string \<Rightarrow> timespec"
  f_log_opens :: "string \<Rightarrow> bool"
  f_room :: nat

section \<open>Information about a file\<close>

text \<open>\<open>while (fgets (out, 10000, f) != NULL);\<close> into an array of 1000 bytes.\<close>

definition OUTPUT_SIZE :: nat where "OUTPUT_SIZE = 1000"
definition FGETS_COUNT :: nat where "FGETS_COUNT = 9998"

definition read_output :: "string option \<Rightarrow> string \<Rightarrow> string res" where
  "read_output = read_lines OUTPUT_SIZE FGETS_COUNT"

text \<open>A command of the given name and the path, run through \<open>popen\<close>.\<close>

definition run_command :: "forensic_env \<Rightarrow> string \<Rightarrow> string \<Rightarrow> string res" where
  "run_command env name path =
     bind_res (strcat (length name + 1 + f_room env) name path) (\<lambda>command. read_output None (f_shell env command))"

text \<open>\<open>strcpy (dst, strtok (out, " "))\<close>.\<close>

definition first_word :: "nat \<Rightarrow> string \<Rightarrow> string res" where
  "first_word n out = (case strtok '' '' out of None \<Rightarrow> Inl (Undefined NullDeref) | Some (tok, _) \<Rightarrow> strcpy n tok)"

definition access_text :: "u32 \<Rightarrow> string" where
  "access_text mode =
     (if mode AND 256 \<noteq> 0 then ''r'' else []) @ (if mode AND 128 \<noteq> 0 then ''w'' else []) @
     (if mode AND 64 \<noteq> 0 then ''x'' else [])"

text \<open>The part of \<open>dump_stat\<close> for one algorithm, when its flag is raised.\<close>

definition dump_hash :: "forensic_env \<Rightarrow> command_info \<Rightarrow> nat \<Rightarrow> string \<Rightarrow> nat \<Rightarrow> string \<Rightarrow> string \<Rightarrow> string res" where
  "dump_hash env c flag name n path old =
     (if hashing flag c then bind_res (run_command env name path) (first_word n) else Inr old)"

definition dump_stat :: "forensic_env \<Rightarrow> command_info \<Rightarrow> string \<Rightarrow> file_info \<Rightarrow> file_info res" where
  "dump_stat env c path info =
     (case f_stat env path of
        None \<Rightarrow> Inl (Exit 1)
      | Some st \<Rightarrow>
          bind_res (run_command env ''file '' path) (\<lambda>out.
          (case strtok '':'' out of
             None \<Rightarrow> Inl (Undefined NullDeref)
           | Some (name, rest) \<Rightarrow>
               bind_res (strcpy (MAX_FILE_NAME + 1) name) (\<lambda>name.
               (case strtok [newline] rest of
                  None \<Rightarrow> Inl (Undefined NullDeref)
                | Some (ty, _) \<Rightarrow>
                    bind_res (strcpy (MAX_FILE_NAME + 1) ty) (\<lambda>ty.
                    let info = info\<lparr>file_name := name, file_type := drop 1 ty,
                          file_size := show_int (st_size st), file_access_owner := access_text (st_mode st),
                          file_modification_date := date_text (gmtime (st_mtime st)),
                          file_access_date := date_text (gmtime (st_atime st))\<rparr> in
                    bind_res (dump_hash env c MD5_FLAG ''md5sum '' (MD5_HASH_SIZE + 1) path (md5_hash info)) (\<lambda>h.
                    let info = info\<lparr>md5_hash := h\<rparr> in
                    bind_res (dump_hash env c SHA1_FLAG ''sha1sum '' (SHA1_HASH_SIZE + 1) path (sha1_hash info)) (\<lambda>h.
                    let info = info\<lparr>sha1_hash := h\<rparr> in
                    bind_res (dump_hash env c SHA256_FLAG ''sha256sum '' (SHA256_HASH_SIZE + 1) path (sha256_hash info)) (\<lambda>h.
                      Inr (info\<lparr>sha256_hash := h\<rparr>))))))))))"

section \<open>The line printed for a file\<close>

definition info_fields :: "command_info \<Rightarrow> file_info \<Rightarrow> string list" where
  "info_fields c info =
     [file_name info, file_type info, file_size info, file_access_owner info,
      file_modification_date info, file_access_date info] @
     (if hashing MD5_FLAG c then [md5_hash info] else []) @
     (if hashing SHA1_FLAG c then [sha1_hash info] else []) @
     (if hashing SHA256_FLAG c then [sha256_hash info] else [])"

text \<open>The calls of \<open>fwrite\<close> in their order.\<close>

definition print_fileinfo :: "command_info \<Rightarrow> file_info \<Rightarrow> string" where
  "print_fileinfo c info =
     file_name info @ '','' @ file_type info @ '','' @ file_size info @ '','' @ file_access_owner info @ '','' @
     file_modification_date info @ '','' @ file_access_date info @
     (if hashing MD5_FLAG c then '','' @ md5_hash info else []) @
     (if hashing SHA1_FLAG c then '','' @ sha1_hash info else []) @
     (if hashing SHA256_FLAG c then '','' @ sha256_hash info else []) @ [newline]"

section \<open>The log\<close>

text \<open>
  The difference of the two times in hundredths, rounded: the seconds count as 1000, the
  nanoseconds as \<open>1.0e-9\<close> each.
\<close>

definition log_hundredths :: "timespec \<Rightarrow> timespec \<Rightarrow> int" where
  "log_hundredths tstart tend =
     ((tv_sec tend - tv_sec tstart) * 1000 * 1000000000 + (tv_nsec tend - tv_nsec tstart) + 5000000) div 10000000"

definition fixed2 :: "int \<Rightarrow> string" where
  "fixed2 h = (if h < 0 then ''-'' else []) @ dec (nat \<bar>h\<bar> div 100) @ ''.'' @ fmt_zero 2 (\<bar>h\<bar> mod 100)"

definition write_log :: "forensic_env \<Rightarrow> command_info \<Rightarrow> int \<Rightarrow> timespec \<Rightarrow> act_type \<Rightarrow> string \<Rightarrow> string res" where
  "write_log env c pid tstart act aux =
     (if \<not> f_log_opens env (cmd_logfilename c) then Inl (Exit 1)
      else bind_res
        (case act of
           COMMAND \<Rightarrow> bind_res (strcat (MAX_FILE_NAME + 1) [] ''COMMAND '') (\<lambda>a. strcat (MAX_FILE_NAME + 1) a aux)
         | SIGNAL \<Rightarrow> bind_res (strcat (MAX_FILE_NAME + 1) [] ''SIGNAL '') (\<lambda>a. strcat (MAX_FILE_NAME + 1) a aux)
         | ANALIZED \<Rightarrow> bind_res (strcat (MAX_FILE_NAME + 1) [] ''ANALIZED '') (\<lambda>a.
             strcat (MAX_FILE_NAME + 1) a (cmd_directory c)))
        (\<lambda>act_to_log. Inr (fixed2 (log_hundredths tstart (f_clock env act_to_log)) @ '' - '' @
           fmt_zero 8 pid @ '' - '' @ act_to_log @ [newline])))"

section \<open>Signals\<close>

datatype signal = SIGINT | SIGUSR1 | SIGUSR2

record signal_state =
  sig_files :: nat
  sig_dirs :: nat
  exit_program :: bool

text \<open>The new state and what the handler prints.\<close>

fun signal_handler :: "signal \<Rightarrow> signal_state \<Rightarrow> signal_state \<times> string" where
  "signal_handler SIGINT s = (s\<lparr>exit_program := True\<rparr>, [])"
| "signal_handler SIGUSR2 s = (s\<lparr>sig_files := sig_files s + 1\<rparr>, [])"
| "signal_handler SIGUSR1 s =
     (let s = s\<lparr>sig_dirs := sig_dirs s + 1\<rparr>
      in (s, ''New directory: '' @ dec (sig_dirs s) @ ''/'' @ dec (sig_files s) @
             '' directories/files at this time.'' @ [newline]))"


section \<open>What dump_stat finds\<close>

lemma run_command_eq:
  "run_command env name path =
    (if length path \<le> f_room env then read_output None (f_shell env (name @ path)) else Inl (Undefined BufferOverflow))"
  by (simp add: run_command_def strcat_def strcpy_def)

lemma read_output_line:
  assumes "newline \<notin> set l" and "NUL \<notin> set l" and "length l < 999"
  shows "read_output None (l @ [newline]) = Inr (l @ [newline])"
  using assms by (simp add: read_output_def read_lines_one OUTPUT_SIZE_def FGETS_COUNT_def)

text \<open>
  What \<open>file\<close> and the \<open>sum\<close> programs print for a path: the path, a colon and the type; the
  hash, two spaces and the path.
\<close>

definition plain_path :: "string \<Rightarrow> bool" where
  "plain_path path \<longleftrightarrow> path \<noteq> [] \<and> length path \<le> MAX_FILE_NAME \<and> CHR '':'' \<notin> set path \<and>
     newline \<notin> set path \<and> NUL \<notin> set path"

definition sum_answer :: "forensic_env \<Rightarrow> string \<Rightarrow> string \<Rightarrow> string \<Rightarrow> nat \<Rightarrow> bool" where
  "sum_answer env name path h n \<longleftrightarrow> f_shell env (name @ path) = h @ ''  '' @ path @ [newline] \<and>
     h \<noteq> [] \<and> length h \<le> n \<and> n \<le> 64 \<and> CHR '' '' \<notin> set h \<and> newline \<notin> set h \<and> NUL \<notin> set h \<and> CHR '','' \<notin> set h"

definition tools_answer :: "forensic_env \<Rightarrow> string \<Rightarrow> string \<Rightarrow> (algorithm \<Rightarrow> string) \<Rightarrow> bool" where
  "tools_answer env path ty h \<longleftrightarrow>
     f_shell env (''file '' @ path) = path @ '': '' @ ty @ [newline] \<and>
     length ty < MAX_FILE_NAME \<and> newline \<notin> set ty \<and> NUL \<notin> set ty \<and>
     sum_answer env ''md5sum '' path (h MD5) MD5_HASH_SIZE \<and>
     sum_answer env ''sha1sum '' path (h SHA1) SHA1_HASH_SIZE \<and>
     sum_answer env ''sha256sum '' path (h SHA256) SHA256_HASH_SIZE"

lemma dump_hash_answer:
  assumes "plain_path path" and "length path \<le> f_room env" and "sum_answer env name path h n"
  shows "dump_hash env c flag name (n + 1) path old = Inr (if hashing flag c then h else old)"
proof -
  let ?l = "h @ ''  '' @ path"
  have "length path \<le> 64" using assms(1) by (simp add: plain_path_def MAX_FILE_NAME_def)
  then have "read_output None (?l @ [newline]) = Inr (?l @ [newline])"
    using assms(1,3) by (intro read_output_line) (auto simp: plain_path_def sum_answer_def)
  then have "run_command env name path = Inr (h @ CHR '' '' # '' '' @ path @ [newline])"
    using assms(2,3) by (simp add: run_command_eq sum_answer_def)
  moreover have "strtok '' '' (h @ CHR '' '' # '' '' @ path @ [newline]) = Some (h, '' '' @ path @ [newline])"
    using assms(3) by (intro strtok_token) (auto simp: sum_answer_def)
  ultimately show ?thesis using assms(3) by (simp add: dump_hash_def first_word_def sum_answer_def)
qed

lemma dump_stat_answer:
  assumes "f_stat env path = Some st" and "plain_path path" and "length path \<le> f_room env"
    and "tools_answer env path ty h"
  shows "dump_stat env c path info = Inr
    \<lparr>file_name = path, file_type = ty, file_size = show_int (st_size st),
     file_access_owner = access_text (st_mode st),
     file_modification_date = date_text (gmtime (st_mtime st)),
     file_access_date = date_text (gmtime (st_atime st)),
     md5_hash = (if hashing MD5_FLAG c then h MD5 else md5_hash info),
     sha1_hash = (if hashing SHA1_FLAG c then h SHA1 else sha1_hash info),
     sha256_hash = (if hashing SHA256_FLAG c then h SHA256 else sha256_hash info)\<rparr>"
proof -
  let ?l = "path @ '': '' @ ty"
  note p = assms(2) [unfolded plain_path_def] and t = assms(4) [unfolded tools_answer_def]
  have "read_output None (?l @ [newline]) = Inr (?l @ [newline])"
    using p t by (intro read_output_line) (auto simp: MAX_FILE_NAME_def)
  then have run: "run_command env ''file '' path = Inr (path @ CHR '':'' # '' '' @ ty @ [newline])"
    using assms(3) t by (simp add: run_command_eq)
  have tok: "strtok '':'' (path @ CHR '':'' # '' '' @ ty @ [newline]) = Some (path, '' '' @ ty @ [newline])"
    using p by (intro strtok_token) auto
  have tok2: "strtok [newline] ((CHR '' '' # ty) @ newline # []) = Some (CHR '' '' # ty, [])"
    using t by (intro strtok_token) auto
  have hash: "dump_hash env c flag ''md5sum '' (MD5_HASH_SIZE + 1) path old = Inr (if hashing flag c then h MD5 else old)"
    "dump_hash env c flag ''sha1sum '' (SHA1_HASH_SIZE + 1) path old = Inr (if hashing flag c then h SHA1 else old)"
    "dump_hash env c flag ''sha256sum '' (SHA256_HASH_SIZE + 1) path old = Inr (if hashing flag c then h SHA256 else old)" for flag old
    using t by (blast intro: dump_hash_answer [OF assms(2,3)])+
  have cp: "strcpy (MAX_FILE_NAME + 1) path = Inr path" "strcpy (MAX_FILE_NAME + 1) (CHR '' '' # ty) = Inr (CHR '' '' # ty)"
    using p t by simp_all
  show ?thesis
    using tok2 tok cp hash by (simp add: dump_stat_def assms(1) run Let_def)
qed


section \<open>Reading the output back\<close>

fun split_at :: "char \<Rightarrow> string \<Rightarrow> string list" where
  "split_at c [] = [[]]"
| "split_at c (x # xs) =
     (if x = c then [] # split_at c xs
      else (x # hd (split_at c xs)) # tl (split_at c xs))"

fun join_with :: "char \<Rightarrow> string list \<Rightarrow> string" where
  "join_with c [] = []"
| "join_with c [f] = f"
| "join_with c (f # fs) = f @ c # join_with c fs"

lemma split_at_nonempty [simp]: "split_at c s \<noteq> []"
  by (cases s) auto

lemma split_at_field: "c \<notin> set f \<Longrightarrow> split_at c (f @ c # r) = f # split_at c r"
  by (induction f) auto

lemma split_at_last: "c \<notin> set f \<Longrightarrow> split_at c f = [f]"
  by (induction f) auto

lemma split_join: "fs \<noteq> [] \<Longrightarrow> \<forall>f \<in> set fs. c \<notin> set f \<Longrightarrow> split_at c (join_with c fs) = fs"
  by (induction c fs rule: join_with.induct) (auto simp: split_at_last split_at_field)

lemma length_split_at: "length (split_at c s) = Suc (count_list s c)"
  by (induction s) auto

lemma count_join: "fs \<noteq> [] \<Longrightarrow>
    count_list (join_with c fs) c = length fs - 1 + (\<Sum>f\<leftarrow>fs. count_list f c)"
  by (induction c fs rule: join_with.induct) auto

lemma print_fileinfo_join: "print_fileinfo c info = join_with CHR '','' (info_fields c info) @ [newline]"
  by (simp add: print_fileinfo_def info_fields_def)

lemma info_fields_nonempty [simp]: "info_fields c info \<noteq> []"
  by (simp add: info_fields_def)

section \<open>Properties\<close>

text \<open>
  C32: The tool cannot look at any file within the rules of C. The arrays in which dump_stat
  builds its shell commands are exactly as long as their initial text, so that appending any
  path overruns them: with no bytes to spare behind them, the report of every existing file
  is undefined behaviour.
\<close>

theorem dump_stat_overflows:
  assumes "f_room env = 0" and "path \<noteq> []" and "f_stat env path = Some st"
  shows "dump_stat env c path info = Inl (Undefined BufferOverflow)"
  using assms by (simp add: dump_stat_def run_command_eq)

text \<open>Surroundings for evaluation, with the given room: text files, and stand-ins for the hashes.\<close>

definition sample_hashes :: "algorithm \<Rightarrow> string" where
  "sample_hashes a = (case a of MD5 \<Rightarrow> replicate 32 CHR ''a'' | SHA1 \<Rightarrow> replicate 40 CHR ''b'' | SHA256 \<Rightarrow> replicate 64 CHR ''c'')"

definition sample_tools :: "nat \<Rightarrow> forensic_env" where
  "sample_tools room =
     \<lparr>f_stat = (\<lambda>p. Some \<lparr>st_size = 12, st_mode = 420, st_mtime = 1580000000, st_atime = 86400\<rparr>),
      f_shell = (\<lambda>cmd. if take 5 cmd = ''file '' then drop 5 cmd @ '': ASCII text'' @ [newline]
        else if take 7 cmd = ''md5sum '' then sample_hashes MD5 @ ''  '' @ drop 7 cmd @ [newline]
        else if take 8 cmd = ''sha1sum '' then sample_hashes SHA1 @ ''  '' @ drop 8 cmd @ [newline]
        else sample_hashes SHA256 @ ''  '' @ drop 10 cmd @ [newline]),
      f_clock = (\<lambda>_. \<lparr>tv_sec = 1, tv_nsec = 500000000\<rparr>), f_log_opens = (\<lambda>f. f \<noteq> []), f_room = room\<rparr>"

lemma sample_tools: "tools_answer (sample_tools room) path ''ASCII text'' sample_hashes"
  by (auto simp: tools_answer_def sum_answer_def sample_tools_def sample_hashes_def MAX_FILE_NAME_def
      MD5_HASH_SIZE_def SHA1_HASH_SIZE_def SHA256_HASH_SIZE_def)

theorem dump_stat_overflows_witness:
  "dump_stat (sample_tools 0) zero_command ''a.txt'' zero_info = Inl (Undefined BufferOverflow)"
  by (rule dump_stat_overflows) (simp_all add: sample_tools_def)

lemma dec_no_comma: "CHR '','' \<notin> set (dec n)"
  using dec_all_digits [of n] by (auto simp: is_digit_def)

lemma numbers_no_comma: "CHR '','' \<notin> set (show_int k)" "CHR '','' \<notin> set (fmt_zero w k)"
  using dec_no_comma by (auto simp: show_int_def fmt_zero_def)

lemma date_no_comma: "CHR '','' \<notin> set (date_text d)"
  using numbers_no_comma by (auto simp: date_text_def)

lemma access_no_comma: "CHR '','' \<notin> set (access_text m)"
  by (simp add: access_text_def)



text \<open>
  The dates have the wrong month. For every time from 1970 on, the text begins with a
  year, a number and a day such that the day lies in the month after the one printed: months
  are printed from 00 to 11, so that January reads 00.
\<close>

theorem month_off_by_one:
  "\<exists>y m d rest. date_text (gmtime t) =
      dec y @ ''-'' @ fmt_zero 2 (int m) @ ''-'' @ fmt_zero 2 (int d) @ ''T'' @ rest \<and>
    calendar_day y (m + 1) d = t div 86400 \<and> m < 12 \<and> 1 \<le> d \<and> d \<le> month_days y ! m"
  using gmtime_calendar [of t]
  by (intro exI [of _ "1900 + tm_year (gmtime t)"] exI [of _ "tm_mon (gmtime t)"] exI [of _ "tm_mday (gmtime t)"])
    (simp add: date_text_def show_int_def nat_add_distrib)

end
