(* ===== verification/Forensic_Walk.thy ===== *)
theory Forensic_Walk
  imports Forensic_Report "HOL-Library.Multiset"
begin

text \<open>
  \<open>listdir\<close> and \<open>main\<close> of \<open>forensic.c\<close>: the walk through a directory with a process for
  every subdirectory, the buffers the processes inherit, the signals they send to the first
  one, and the whole tool from its arguments to its exit status.
\<close>

section \<open>Directories and processes\<close>

text \<open>
  The contents of a directory in the order of \<open>readdir\<close>: an entry is a directory
  (\<open>DT_DIR\<close>, with its own contents) or anything else.
\<close>

datatype entry = File string | Dir string "entry list"

text \<open>
  What else the tool meets: directories that cannot be opened, forks that fail, the process
  that lists a directory, whether SIGINT has been handled when a path is printed, the time
  of the start, and what \<open>print_location\<close> is: a terminal, something else with a buffer of some size, or the null pointer
  of an \<open>fopen\<close> that failed.
\<close>

record walk_env =
  w_tools :: forensic_env
  w_opens :: "string \<Rightarrow> bool"
  w_forks :: "string \<Rightarrow> bool"
  w_pid :: "string \<Rightarrow> int"
  w_interrupted :: "string \<Rightarrow> bool"
  w_start :: timespec
  w_tty :: bool
  w_buffer :: nat
  w_writable :: bool

text \<open>
  A process on its way: the characters in the buffer of its \<open>print_location\<close> and its
  \<open>file_info\<close>; and what all processes have written and sent so far.
\<close>

record walk =
  unflushed :: string
  info :: file_info
  text_out :: string
  logged :: "string list"
  signals :: "signal list"

text \<open>
  \<open>fwrite\<close> into the buffer, character by character: a full buffer is written out before the next one.
  (As long as no field of the line is longer than the buffer, this is what a C library does
  for each \<open>fwrite\<close>.)
\<close>

fun put_chars :: "nat \<Rightarrow> string \<Rightarrow> string \<times> string \<Rightarrow> string \<times> string" where
  "put_chars size_b [] s = s"
| "put_chars size_b (ch # cs) (buf, out) =
     put_chars size_b cs (if length buf < size_b then (buf @ [ch], out) else ([ch], out @ buf))"

definition flush :: "walk \<Rightarrow> walk" where
  "flush w = w\<lparr>text_out := text_out w @ unflushed w, unflushed := []\<rparr>"

text \<open>On a terminal the end of a line writes everything, otherwise it stays in the buffer; \<open>exit\<close> flushes.\<close>

definition put_line :: "walk_env \<Rightarrow> string \<Rightarrow> walk \<Rightarrow> walk" where
  "put_line env line w =
     (if w_tty env then w\<lparr>text_out := text_out w @ unflushed w @ line, unflushed := []\<rparr>
      else let (buf, out) = put_chars (w_buffer env) line (unflushed w, text_out w)
           in w\<lparr>unflushed := buf, text_out := out\<rparr>)"

lemma put_chars_text: "put_chars n cs (buf, out) = (buf', out') \<Longrightarrow> out' @ buf' = out @ buf @ cs"
  by (induction cs arbitrary: buf out) (auto split: if_splits)

lemma put_chars_fits: "length buf + length cs \<le> n \<Longrightarrow> put_chars n cs (buf, out) = (buf @ cs, out)"
  by (induction cs arbitrary: buf) auto

lemma flush_put_line: "text_out (flush (put_line env line w)) = text_out (flush w) @ line"
proof -
  obtain buf out where p: "put_chars (w_buffer env) line (unflushed w, text_out w) = (buf, out)" by fastforce
  from put_chars_text [OF p] p show ?thesis by (simp add: put_line_def flush_def)
qed

lemma put_line_fits:
  "\<not> w_tty env \<Longrightarrow> length (unflushed w) + length line \<le> w_buffer env \<Longrightarrow>
    put_line env line w = w\<lparr>unflushed := unflushed w @ line\<rparr>"
  by (simp add: put_line_def put_chars_fits)

lemma put_line_tty:
  "w_tty env \<Longrightarrow> put_line env line w = w\<lparr>text_out := text_out w @ unflushed w @ line, unflushed := []\<rparr>"
  by (simp add: put_line_def)

lemma put_line_signals [simp]: "signals (put_line env line w) = signals w"
  by (simp add: put_line_def split_beta)

text \<open>A call that may end the process with \<open>exit\<close>: the flag of the result is that it did.\<close>

definition or_exit :: "'a res \<Rightarrow> walk \<Rightarrow> ('a \<Rightarrow> (bool \<times> walk) res) \<Rightarrow> (bool \<times> walk) res" where
  "or_exit m w k =
     (case m of Inl (Exit _) \<Rightarrow> Inr (True, w) | Inl e \<Rightarrow> Inl e | Inr x \<Rightarrow> k x)"

section \<open>listdir\<close>

text \<open>The name appended to the path, in the buffer of \<open>command->directory\<close>.\<close>

definition extend_path :: "string \<Rightarrow> string \<Rightarrow> string res" where
  "extend_path path name =
     (if path = [] then Inl (Undefined OutOfBounds)
      else if last path \<noteq> CHR ''/'' then strcat (MAX_FILE_NAME + 1) (path @ ''/'') name
      else strcat (MAX_FILE_NAME + 1) path name)"

text \<open>A signal to the parent and its log entry, when the output goes to a file.\<close>

definition notify :: "walk_env \<Rightarrow> command_info \<Rightarrow> string \<Rightarrow> signal \<Rightarrow> string \<Rightarrow> walk \<Rightarrow>
    (walk \<Rightarrow> (bool \<times> walk) res) \<Rightarrow> (bool \<times> walk) res" where
  "notify env c path sig name w k =
     (if raised OUTFILE c then
        let w = w\<lparr>signals := signals w @ [sig]\<rparr> in
        or_exit (write_log (w_tools env) (c\<lparr>cmd_directory := path\<rparr>) (w_pid env path) (w_start env) SIGNAL name) w
          (\<lambda>line. k (w\<lparr>logged := logged w @ [line]\<rparr>))
      else k w)"

text \<open>The report of one file whose full path is in the buffer.\<close>

definition report_file :: "walk_env \<Rightarrow> command_info \<Rightarrow> int \<Rightarrow> string \<Rightarrow> walk \<Rightarrow> (bool \<times> walk) res" where
  "report_file env c pid p w =
     or_exit (dump_stat (w_tools env) c p (info w)) w (\<lambda>i.
       let w = w\<lparr>info := i\<rparr>;
           printed = (\<lambda>w. if w_writable env then Inr (w_interrupted env p, put_line env (print_fileinfo c i) w)
                     else Inl (Undefined NullDeref)) in
       if raised LOGFILE c then
         or_exit (write_log (w_tools env) (c\<lparr>cmd_directory := p\<rparr>) pid (w_start env) ANALIZED []) w
           (\<lambda>line. printed (w\<lparr>logged := logged w @ [line]\<rparr>))
       else printed w)"

text \<open>What a parent sees of a child that has ended: its writes and signals, not its memory.\<close>

definition after_child :: "walk \<Rightarrow> walk \<Rightarrow> walk" where
  "after_child w child = (let child = flush child in w\<lparr>text_out := text_out child, logged := logged child, signals := signals child\<rparr>)"

text \<open>
  The loop over the entries. A child gets a copy of the process, buffer included; it lists
  its directory, returns to \<open>main\<close> and exits. The parent waits for its children at the end;
  here a child runs when it is forked, one of the orders in which they can write.
\<close>

fun listdir_loop :: "walk_env \<Rightarrow> command_info \<Rightarrow> string \<Rightarrow> entry list \<Rightarrow> walk \<Rightarrow> (bool \<times> walk) res" where
  "listdir_loop env c path [] w = Inr (False, w)"
| "listdir_loop env c path (File name # es) w =
     notify env c path SIGUSR2 ''SIGUSR2'' w (\<lambda>w.
       bind_res (extend_path path name) (\<lambda>p.
       bind_res (report_file env c (w_pid env path) p w) (\<lambda>(stopped, w).
         if stopped then Inr (True, w) else listdir_loop env c path es w)))"
| "listdir_loop env c path (Dir name sub # es) w =
     (if name = ''.'' \<or> name = ''..'' then listdir_loop env c path es w
      else if raised RECURSIVE c then
        notify env c path SIGUSR1 ''SIGUSR1'' w (\<lambda>w.
          if \<not> w_forks env (path @ ''/'' @ name) then listdir_loop env c path es w
          else
            bind_res (extend_path path name) (\<lambda>p.
            bind_res (if \<not> w_opens env p then Inr (True, w) else listdir_loop env c p sub w) (\<lambda>(_, child).
              listdir_loop env c path es (after_child w child))))
      else listdir_loop env c path es w)"

definition listdir :: "walk_env \<Rightarrow> command_info \<Rightarrow> string \<Rightarrow> entry list \<Rightarrow> walk \<Rightarrow> (bool \<times> walk) res" where
  "listdir env c path es w = (if \<not> w_opens env path then Inr (True, w) else listdir_loop env c path es w)"


section \<open>What a listing visits\<close>

definition full_path :: "string \<Rightarrow> string \<Rightarrow> string" where
  "full_path path name = (if last path \<noteq> CHR ''/'' then path @ CHR ''/'' # name else path @ name)"

definition dots :: "string \<Rightarrow> bool" where
  "dots name \<longleftrightarrow> name = ''.'' \<or> name = ''..''"

definition enters :: "command_info \<Rightarrow> string \<Rightarrow> bool" where
  "enters c name \<longleftrightarrow> \<not> dots name \<and> raised RECURSIVE c"

text \<open>The files visited, the processes forked, and the signals sent.\<close>

fun visited :: "command_info \<Rightarrow> string \<Rightarrow> entry list \<Rightarrow> string list" where
  "visited c path [] = []"
| "visited c path (File name # es) = full_path path name # visited c path es"
| "visited c path (Dir name sub # es) =
     (if enters c name then visited c (full_path path name) sub else []) @ visited c path es"

fun forked :: "command_info \<Rightarrow> entry list \<Rightarrow> nat" where
  "forked c [] = 0"
| "forked c (File name # es) = forked c es"
| "forked c (Dir name sub # es) = (if enters c name then Suc (forked c sub) else 0) + forked c es"

fun notices :: "command_info \<Rightarrow> entry list \<Rightarrow> signal list" where
  "notices c [] = []"
| "notices c (File name # es) = SIGUSR2 # notices c es"
| "notices c (Dir name sub # es) = (if enters c name then SIGUSR1 # notices c sub else []) @ notices c es"

text \<open>
  The lines that end up in the output: from a buffer that never fills, the line of a file is written once by
  the process that found it and once by each process forked from it later.
\<close>

fun lines_written :: "bool \<Rightarrow> (string \<Rightarrow> string) \<Rightarrow> command_info \<Rightarrow> string \<Rightarrow> entry list \<Rightarrow> string multiset" where
  "lines_written tty line c path [] = {#}"
| "lines_written tty line c path (File name # es) =
     repeat_mset (if tty then 1 else Suc (forked c es)) {#line (full_path path name)#} +
     lines_written tty line c path es"
| "lines_written tty line c path (Dir name sub # es) =
     (if enters c name then lines_written tty line c (full_path path name) sub else {#}) +
     lines_written tty line c path es"

text \<open>A listing in which every call of the system succeeds and every buffer is long enough.\<close>

definition reports :: "walk_env \<Rightarrow> command_info \<Rightarrow> (string \<Rightarrow> string) \<Rightarrow> string \<Rightarrow> bool" where
  "reports env c line p \<longleftrightarrow> \<not> w_interrupted env p \<and> w_writable env \<and> length p \<le> 55 \<and>
     (\<forall>i. \<exists>r. dump_stat (w_tools env) c p i = Inr r \<and> print_fileinfo c r = line p)"

fun smooth :: "walk_env \<Rightarrow> command_info \<Rightarrow> (string \<Rightarrow> string) \<Rightarrow> string \<Rightarrow> entry list \<Rightarrow> bool" where
  "smooth env c line path [] \<longleftrightarrow> True"
| "smooth env c line path (File name # es) \<longleftrightarrow> reports env c line (full_path path name) \<and> smooth env c line path es"
| "smooth env c line path (Dir name sub # es) \<longleftrightarrow>
     (enters c name \<longrightarrow> w_forks env (path @ ''/'' @ name) \<and> w_opens env (full_path path name) \<and>
        length (full_path path name) \<le> MAX_FILE_NAME \<and> smooth env c line (full_path path name) sub) \<and>
     smooth env c line path es"

definition log_ready :: "walk_env \<Rightarrow> command_info \<Rightarrow> bool" where
  "log_ready env c \<longleftrightarrow> (raised OUTFILE c \<or> raised LOGFILE c \<longrightarrow> f_log_opens (w_tools env) (cmd_logfilename c))"

lemma full_path_nonempty [simp]: "path \<noteq> [] \<Longrightarrow> full_path path name \<noteq> []"
  by (simp add: full_path_def)

lemma extend_path_eq:
  "path \<noteq> [] \<Longrightarrow> extend_path path name =
    (if length (full_path path name) \<le> MAX_FILE_NAME then Inr (full_path path name) else Inl (Undefined BufferOverflow))"
  by (auto simp: extend_path_def full_path_def strcat_def strcpy_def)

lemma notify_ready:
  assumes "log_ready env c" and "length name \<le> 50"
  shows "\<exists>l. \<forall>k. notify env c path sig name w k =
    k (w\<lparr>signals := signals w @ (if raised OUTFILE c then [sig] else []), logged := l\<rparr>)"
proof (cases "raised OUTFILE c")
  case True
  then obtain line where "write_log (w_tools env) (c\<lparr>cmd_directory := path\<rparr>) (w_pid env path) (w_start env) SIGNAL name = Inr line"
    using assms by (simp add: write_log_def log_ready_def strcat_def strcpy_def MAX_FILE_NAME_def)
  with True show ?thesis by (auto simp: notify_def or_exit_def)
next
  case False
  then show ?thesis by (intro exI [of _ "logged w"]) (simp add: notify_def)
qed

lemma report_ready:
  assumes "log_ready env c" and "reports env c line p"
  shows "\<exists>i l. report_file env c pid p w = Inr (False, put_line env (line p) (w\<lparr>info := i, logged := l\<rparr>))"
proof -
  obtain r where r: "dump_stat (w_tools env) c p (info w) = Inr r" "print_fileinfo c r = line p"
    using assms(2) by (auto simp: reports_def)
  show ?thesis
  proof (cases "raised LOGFILE c")
    case True
    then obtain l where "write_log (w_tools env) (c\<lparr>cmd_directory := p\<rparr>) pid (w_start env) ANALIZED [] = Inr l"
      using assms by (simp add: write_log_def log_ready_def reports_def strcat_def strcpy_def MAX_FILE_NAME_def)
    with True r assms(2) show ?thesis by (auto simp: report_file_def or_exit_def reports_def)
  next
    case False
    with r assms(2) show ?thesis
      by (intro exI [of _ r] exI [of _ "logged w"]) (simp add: report_file_def or_exit_def reports_def)
  qed
qed

lemma listdir_loop_skip:
  "\<not> enters c name \<Longrightarrow> listdir_loop env c path (Dir name sub # es) w = listdir_loop env c path es w"
  by (auto simp: enters_def dots_def)

lemma listdir_loop_enter:
  assumes "enters c name" and "log_ready env c" and "path \<noteq> []" and "w_forks env (path @ ''/'' @ name)"
    and "w_opens env (full_path path name)" and "length (full_path path name) \<le> MAX_FILE_NAME"
  shows "\<exists>l. \<forall>b child.
    listdir_loop env c (full_path path name) sub
      (w\<lparr>signals := signals w @ (if raised OUTFILE c then [SIGUSR1] else []), logged := l\<rparr>) = Inr (b, child) \<longrightarrow>
    listdir_loop env c path (Dir name sub # es) w = listdir_loop env c path es
      (after_child (w\<lparr>signals := signals w @ (if raised OUTFILE c then [SIGUSR1] else []), logged := l\<rparr>) child)"
proof -
  obtain l where n: "\<forall>k. notify env c path SIGUSR1 ''SIGUSR1'' w k =
      k (w\<lparr>signals := signals w @ (if raised OUTFILE c then [SIGUSR1] else []), logged := l\<rparr>)"
    using notify_ready [OF assms(2), of "''SIGUSR1''" path SIGUSR1 w] by auto
  show ?thesis
    by (rule exI [of _ l]) (use assms n in \<open>auto simp: enters_def dots_def extend_path_eq\<close>)
qed

lemma listdir_loop_file:
  assumes "log_ready env c" and "path \<noteq> []" and "reports env c line (full_path path name)"
  shows "\<exists>i l. listdir_loop env c path (File name # es) w = listdir_loop env c path es
    (put_line env (line (full_path path name))
      (w\<lparr>signals := signals w @ (if raised OUTFILE c then [SIGUSR2] else []), info := i, logged := l\<rparr>))"
proof -
  let ?p = "full_path path name"
  obtain l where n: "\<forall>k. notify env c path SIGUSR2 ''SIGUSR2'' w k =
      k (w\<lparr>signals := signals w @ (if raised OUTFILE c then [SIGUSR2] else []), logged := l\<rparr>)"
    using notify_ready [OF assms(1), of "''SIGUSR2''" path SIGUSR2 w] by auto
  obtain i l' where "report_file env c (w_pid env path) ?p
      (w\<lparr>signals := signals w @ (if raised OUTFILE c then [SIGUSR2] else []), logged := l\<rparr>) =
    Inr (False, put_line env (line ?p)
      (w\<lparr>signals := signals w @ (if raised OUTFILE c then [SIGUSR2] else []), logged := l, info := i, logged := l'\<rparr>))"
    using report_ready [OF assms(1,3)] by blast
  moreover have "length ?p \<le> MAX_FILE_NAME" using assms(3) by (simp add: reports_def MAX_FILE_NAME_def)
  ultimately show ?thesis
    using n assms(2) by (intro exI [of _ i] exI [of _ l']) (simp add: extend_path_eq)
qed

lemma listing_file:
  assumes "log_ready env c" and "smooth env c line path (File name # es)" and "path \<noteq> []"
  shows "\<exists>i l. listdir_loop env c path (File name # es) w = listdir_loop env c path es
      (put_line env (line (full_path path name))
        (w\<lparr>signals := signals w @ (if raised OUTFILE c then [SIGUSR2] else []), info := i, logged := l\<rparr>)) \<and>
    smooth env c line path es"
proof -
  have "reports env c line (full_path path name)" "smooth env c line path es" using assms(2) by simp_all
  then show ?thesis using listdir_loop_file [OF assms(1,3)] by blast
qed

lemma listing_enter:
  assumes "log_ready env c" and "smooth env c line path (Dir name sub # es)" and "path \<noteq> []" and "enters c name"
  shows "\<exists>l. smooth env c line (full_path path name) sub \<and> smooth env c line path es \<and> (\<forall>b child.
    listdir_loop env c (full_path path name) sub
      (w\<lparr>signals := signals w @ (if raised OUTFILE c then [SIGUSR1] else []), logged := l\<rparr>) = Inr (b, child) \<longrightarrow>
    listdir_loop env c path (Dir name sub # es) w = listdir_loop env c path es
      (after_child (w\<lparr>signals := signals w @ (if raised OUTFILE c then [SIGUSR1] else []), logged := l\<rparr>) child))"
proof -
  have s: "smooth env c line (full_path path name) sub" "smooth env c line path es"
    "w_forks env (path @ ''/'' @ name)" "w_opens env (full_path path name)"
    "length (full_path path name) \<le> MAX_FILE_NAME"
    using assms(2,4) by simp_all
  then show ?thesis using listdir_loop_enter [OF assms(4,1,3) s(3-5)] by blast
qed

lemma after_child_simps [simp]:
  "unflushed (after_child w child) = unflushed w" "text_out (after_child w child) = text_out child @ unflushed child"
  "signals (after_child w child) = signals child"
  by (simp_all add: after_child_def flush_def Let_def)

text \<open>It ends and sends the signals; when nothing is forked, the lines come out in order.\<close>

lemma listing_ends:
  assumes "log_ready env c" and "smooth env c line path es" and "path \<noteq> []"
  shows "\<exists>w'. listdir_loop env c path es w = Inr (False, w') \<and>
    signals w' = signals w @ (if raised OUTFILE c then notices c es else []) \<and>
    (forked c es = 0 \<longrightarrow> text_out (flush w') = text_out (flush w) @ concat (map line (visited c path es)))"
  using assms
proof (induction c es arbitrary: w path rule: forked.induct)
  case (1 c)
  then show ?case by simp
next
  case (2 c name es)
  obtain i l where step: "listdir_loop env c path (File name # es) w = listdir_loop env c path es
    (put_line env (line (full_path path name))
      (w\<lparr>signals := signals w @ (if raised OUTFILE c then [SIGUSR2] else []), info := i, logged := l\<rparr>))"
    and s: "smooth env c line path es"
    using listing_file [OF 2(2,3,4)] by blast
  have same: "text_out (flush (w\<lparr>signals := x, info := i, logged := l\<rparr>)) = text_out (flush w)" for x
    by (simp add: flush_def)
  show ?case
    unfolding step
    using 2(1) [OF 2(2) s 2(4), of "put_line env (line (full_path path name))
        (w\<lparr>signals := signals w @ (if raised OUTFILE c then [SIGUSR2] else []), info := i, logged := l\<rparr>)"]
    by (auto simp: flush_put_line same simp del: listdir_loop.simps(2))
next
  case (3 c name sub es)
  show ?case
  proof (cases "enters c name")
    case False
    then have "notices c (Dir name sub # es) = notices c es" by simp
    with False show ?thesis
      using 3(2) [OF 3(3) _ 3(5), of w] 3(4)
      by (simp only: listdir_loop_skip forked.simps visited.simps smooth.simps if_False add_0 append_Nil simp_thms)
  next
    case True
    let ?s = "signals w @ (if raised OUTFILE c then [SIGUSR1] else [])"
    obtain l where s: "smooth env c line (full_path path name) sub" "smooth env c line path es"
      and step: "\<forall>b child. listdir_loop env c (full_path path name) sub (w\<lparr>signals := ?s, logged := l\<rparr>) = Inr (b, child) \<longrightarrow>
      listdir_loop env c path (Dir name sub # es) w =
        listdir_loop env c path es (after_child (w\<lparr>signals := ?s, logged := l\<rparr>) child)"
      using listing_enter [OF 3(3,4,5) True, of w] by blast
    obtain child where child: "listdir_loop env c (full_path path name) sub (w\<lparr>signals := ?s, logged := l\<rparr>) = Inr (False, child)"
      "signals child = ?s @ (if raised OUTFILE c then notices c sub else [])"
      using 3(1) [OF True 3(3) s(1), of "w\<lparr>signals := ?s, logged := l\<rparr>"] 3(5) by auto
    obtain w' where w': "listdir_loop env c path es (after_child (w\<lparr>signals := ?s, logged := l\<rparr>) child) = Inr (False, w')"
      "signals w' = signals child @ (if raised OUTFILE c then notices c es else [])"
      using 3(2) [OF 3(3) s(2) 3(5), of "after_child (w\<lparr>signals := ?s, logged := l\<rparr>) child"] by auto
    have "listdir_loop env c path (Dir name sub # es) w = Inr (False, w')" by (rule trans [OF step [rule_format, OF child(1)] w'(1)])
    moreover have "signals w' = signals w @ (if raised OUTFILE c then notices c (Dir name sub # es) else [])"
      using w'(2) child(2) True by simp
    moreover have "forked c (Dir name sub # es) \<noteq> 0" using True by simp
    ultimately show ?thesis by (intro exI [of _ w'] conjI impI) (assumption | (erule notE, assumption))+
  qed
qed

text \<open>On a terminal, or when every line fits into the buffer, the output consists of whole lines.\<close>

definition whole_lines :: "walk_env \<Rightarrow> nat \<Rightarrow> string list \<Rightarrow> string list \<Rightarrow> walk \<Rightarrow> bool" where
  "whole_lines env need us ls w \<longleftrightarrow> unflushed w = concat us \<and> text_out w = concat ls \<and>
     (if w_tty env then us = [] else length (unflushed w) + need \<le> w_buffer env)"

lemma whole_lines_cong:
  "whole_lines env need us ls w \<Longrightarrow> unflushed w' = unflushed w \<Longrightarrow> text_out w' = text_out w \<Longrightarrow> need' \<le> need \<Longrightarrow>
    whole_lines env need' us ls w'"
  by (auto simp: whole_lines_def split: if_splits)

lemma whole_lines_put:
  assumes "whole_lines env (length x + need) us ls w"
  shows "if w_tty env then whole_lines env need us (ls @ [x]) (put_line env x w)
    else whole_lines env need (us @ [x]) ls (put_line env x w)"
proof (cases "w_tty env")
  case True
  with assms show ?thesis by (simp add: whole_lines_def put_line_tty)
next
  case False
  have w: "unflushed w = concat us" "text_out w = concat ls" "length (unflushed w) + (length x + need) \<le> w_buffer env"
    using assms unfolding whole_lines_def if_not_P [OF False] by blast+
  then have "put_line env x w = w\<lparr>unflushed := unflushed w @ x\<rparr>" using put_line_fits [OF False, of w x] by simp
  with w False show ?thesis unfolding whole_lines_def by simp
qed

lemma listing:
  assumes "log_ready env c" and "smooth env c line path es" and "path \<noteq> []"
    and "whole_lines env (length (concat (map line (visited c path es)))) us ls w"
  shows "\<exists>w' us' ls'. listdir_loop env c path es w = Inr (False, w') \<and>
    unflushed w' = concat us' \<and> text_out w' = concat ls' \<and>
    mset ls' + mset us' = mset ls + repeat_mset (Suc (forked c es)) (mset us) + lines_written (w_tty env) line c path es"
  using assms
proof (induction c es arbitrary: w path us ls rule: forked.induct)
  case (1 c)
  then show ?case by (auto simp: whole_lines_def)
next
  case (2 c name es)
  let ?x = "line (full_path path name)"
  obtain i l where step: "listdir_loop env c path (File name # es) w = listdir_loop env c path es
    (put_line env ?x (w\<lparr>signals := signals w @ (if raised OUTFILE c then [SIGUSR2] else []), info := i, logged := l\<rparr>))"
    and s: "smooth env c line path es"
    using listing_file [OF 2(2,3,4)] by blast
  define v where "v = w\<lparr>signals := signals w @ (if raised OUTFILE c then [SIGUSR2] else []), info := i, logged := l\<rparr>"
  have "whole_lines env (length ?x + length (concat (map line (visited c path es)))) us ls v"
    by (rule whole_lines_cong [OF 2(5)]) (simp_all add: v_def)
  note put = whole_lines_put [OF this]
  show ?case
    unfolding step v_def [symmetric]
  proof (cases "w_tty env")
    case True
    then show "\<exists>w' us' ls'. listdir_loop env c path es (put_line env ?x v) = Inr (False, w') \<and>
      unflushed w' = concat us' \<and> text_out w' = concat ls' \<and>
      mset ls' + mset us' = mset ls + repeat_mset (Suc (forked c (File name # es))) (mset us) +
        lines_written (w_tty env) line c path (File name # es)"
      using put 2(1) [OF 2(2) s 2(4), of us "ls @ [?x]" "put_line env ?x v"] by (auto simp: ac_simps)
  next
    case False
    then show "\<exists>w' us' ls'. listdir_loop env c path es (put_line env ?x v) = Inr (False, w') \<and>
      unflushed w' = concat us' \<and> text_out w' = concat ls' \<and>
      mset ls' + mset us' = mset ls + repeat_mset (Suc (forked c (File name # es))) (mset us) +
        lines_written (w_tty env) line c path (File name # es)"
      using put 2(1) [OF 2(2) s 2(4), of "us @ [?x]" ls "put_line env ?x v"] by (auto simp: ac_simps)
  qed
next
  case (3 c name sub es)
  show ?case
  proof (cases "enters c name")
    case False
    then show ?thesis
      using 3(2) [OF 3(3) _ 3(5), of us ls w] 3(4,6)
      by (simp only: listdir_loop_skip forked.simps visited.simps lines_written.simps smooth.simps if_False add_0 append_Nil simp_thms)
  next
    case True
    let ?n = "length (concat (map line (visited c (full_path path name) sub)))"
      and ?m = "length (concat (map line (visited c path es)))"
    let ?s = "signals w @ (if raised OUTFILE c then [SIGUSR1] else [])"
    obtain l where s: "smooth env c line (full_path path name) sub" "smooth env c line path es"
      and step: "\<forall>b child. listdir_loop env c (full_path path name) sub (w\<lparr>signals := ?s, logged := l\<rparr>) = Inr (b, child) \<longrightarrow>
      listdir_loop env c path (Dir name sub # es) w =
        listdir_loop env c path es (after_child (w\<lparr>signals := ?s, logged := l\<rparr>) child)"
      using listing_enter [OF 3(3,4,5) True, of w] by blast
    have all: "whole_lines env (?n + ?m) us ls w" using 3(6) True by simp
    have "whole_lines env ?n us ls (w\<lparr>signals := ?s, logged := l\<rparr>)" by (rule whole_lines_cong [OF all]) simp_all
    then obtain child us1 ls1 where child: "listdir_loop env c (full_path path name) sub (w\<lparr>signals := ?s, logged := l\<rparr>) = Inr (False, child)"
      "unflushed child = concat us1" "text_out child = concat ls1"
      "mset ls1 + mset us1 = mset ls + repeat_mset (Suc (forked c sub)) (mset us) +
        lines_written (w_tty env) line c (full_path path name) sub"
      using 3(1) [OF True 3(3) s(1), of us ls "w\<lparr>signals := ?s, logged := l\<rparr>"] 3(5) by auto
    let ?w = "after_child (w\<lparr>signals := ?s, logged := l\<rparr>) child"
    have "whole_lines env ?m us (ls1 @ us1) ?w" using all child(2,3) by (auto simp: whole_lines_def split: if_splits)
    then obtain w' us' ls' where w': "listdir_loop env c path es ?w = Inr (False, w')"
      "unflushed w' = concat us'" "text_out w' = concat ls'"
      "mset ls' + mset us' = mset (ls1 @ us1) + repeat_mset (Suc (forked c es)) (mset us) + lines_written (w_tty env) line c path es"
      using 3(2) [OF 3(3) s(2) 3(5), of us "ls1 @ us1" ?w] by blast
    have "listdir_loop env c path (Dir name sub # es) w = Inr (False, w')" by (rule trans [OF step [rule_format, OF child(1)] w'(1)])
    moreover have "mset ls' + mset us' = mset ls + repeat_mset (Suc (forked c (Dir name sub # es))) (mset us) +
        lines_written (w_tty env) line c path (Dir name sub # es)"
      using w'(4) child(4) True by (simp add: repeat_mset_distrib ac_simps)
    ultimately show ?thesis using w'(2,3) by blast
  qed
qed


section \<open>The whole tool\<close>

record main_env =
  m_walk :: walk_env
  m_pid :: int
  m_logfilename :: "string option"
  m_out_opens :: "string \<Rightarrow> bool"
  m_exists :: "string \<Rightarrow> bool"
  m_regular :: "string \<Rightarrow> bool"
  m_tree :: "string \<Rightarrow> entry list"

definition walk_start :: "string list \<Rightarrow> walk" where
  "walk_start lg = \<lparr>unflushed = [], info = zero_info, text_out = [], logged = lg, signals = []\<rparr>"

text \<open>The log file named by the environment, and the entry for the command line.\<close>

definition open_log :: "main_env \<Rightarrow> string \<Rightarrow> command_info \<Rightarrow> (command_info \<times> string list) res" where
  "open_log env params c =
     (if raised LOGFILE c then
        (case m_logfilename env of
           Some f \<Rightarrow>
             bind_res (strcpy (MAX_FILE_NAME + 1) f) (\<lambda>f.
             let c = c\<lparr>cmd_logfilename := f\<rparr> in
             bind_res (write_log (w_tools (m_walk env)) c (m_pid env) (w_start (m_walk env)) COMMAND params) (\<lambda>line.
               Inr (c, [line])))
         | None \<Rightarrow> Inr (c, []))
      else Inr (c, []))"

definition forensic_main :: "main_env \<Rightarrow> string list \<Rightarrow> (int \<times> walk) res" where
  "forensic_main env argv =
     (if length argv < 2 then Inl (Exit 1)
      else if 8 < length argv then Inl (Exit 1)
      else if argv ! 1 = ''--help'' then Inl (Exit 0)
      else
        bind_res (exec_parameters argv []) (\<lambda>params.
        bind_res (parse_flags argv 1 zero_command) (\<lambda>c.
        bind_res (open_log env params (c\<lparr>cmd_parentPID := m_pid env\<rparr>)) (\<lambda>(c, lg).
        let walk_env = (if raised OUTFILE c
              then (m_walk env)\<lparr>w_tty := False, w_writable := m_out_opens env (cmd_outfile c)\<rparr>
              else m_walk env) in
        bind_res (hash_loop (strtok '','' (cmd_cryptohash c)) c) (\<lambda>c.
        bind_res (strcpy (MAX_FILE_NAME + 1) (last argv)) (\<lambda>dir.
        let c = c\<lparr>cmd_directory := dir\<rparr> in
        if \<not> m_exists env dir then Inl (Exit 1)
        else
          bind_res (if m_regular env dir then report_file walk_env c (m_pid env) dir (walk_start lg)
                    else listdir walk_env c dir (m_tree env dir) (walk_start lg)) (\<lambda>(stopped, w).
            Inr (if stopped then 1 else 0, flush w))))))))"

section \<open>Counting\<close>

definition deliver :: "signal list \<Rightarrow> signal_state \<Rightarrow> signal_state" where
  "deliver sigs s = fold (\<lambda>sig s. fst (signal_handler sig s)) sigs s"

lemma deliver_counts:
  "sig_files (deliver sigs s) = sig_files s + count_list sigs SIGUSR2 \<and>
   sig_dirs (deliver sigs s) = sig_dirs s + count_list sigs SIGUSR1 \<and>
   (exit_program (deliver sigs s) \<longleftrightarrow> exit_program s \<or> SIGINT \<in> set sigs)"
proof (induction sigs arbitrary: s)
  case (Cons sig sigs)
  then show ?case by (cases sig) (auto simp: deliver_def Let_def)
qed (simp add: deliver_def)

lemma notices_counts:
  "count_list (notices c es) SIGUSR2 = length (visited c path es)"
  "count_list (notices c es) SIGUSR1 = forked c es"
proof (induction c es arbitrary: path rule: forked.induct)
  case (3 c name sub es)
  { case 1 show ?case using 3(1)[where path = "full_path path name"] 3(3) by simp }
  { case 2 show ?case using 3(2,4) by simp }
qed simp_all

lemma lines_tty: "lines_written True line c path es = mset (map line (visited c path es))"
  by (induction c es arbitrary: path rule: forked.induct) simp_all

lemma lines_buffered: "mset (map line (visited c path es)) \<subseteq># lines_written False line c path es"
proof (induction c es arbitrary: path rule: forked.induct)
  case (2 c name es)
  then show ?case by (simp add: subset_mset.add_increasing)
next
  case (3 c name sub es)
  then show ?case by (simp add: subset_mset.add_mono)
qed simp

lemma lines_duplicated:
  assumes "0 < forked c es"
  shows "repeat_mset 2 {#line (full_path path name)#} \<subseteq># lines_written False line c path (pre @ File name # es)"
proof (induction pre)
  case Nil
  obtain k where "forked c es = Suc k" using assms by (cases "forked c es") auto
  then show ?case by (simp add: numeral_2_eq_2)
next
  case (Cons e pre)
  have "lines_written False line c path (pre @ File name # es) \<subseteq># lines_written False line c path (e # pre @ File name # es)"
    by (cases e) (simp_all only: lines_written.simps mset_subset_eq_add_right)
  with Cons show ?case by (simp only: append_Cons subset_mset.order_trans)
qed


section \<open>Properties\<close>

text \<open>
  C28: A listing reports every file, when nothing goes wrong on the way. Let dump_stat return for each file
  visited with a report that prints as its line (which needs the outputs of file and the sum
  commands and, by dump_stat_overflows, spare bytes behind the arrays for the commands), let the log open if it is used, the
  directories open, the forks succeed and no SIGINT arrive, and let every path of a file have at
  most 55 characters. Then listdir finishes. On a terminal it prints exactly one
  line for each file of the directory (and of all directories below it, with -r); into a file or pipe it
  prints these lines in order if no process is forked, whatever the size of the buffer, and if
  processes are forked and all the lines together fit into the buffer, each line at least
  once. With -o the parent's handlers, if every signal is delivered, count exactly
  the files reported and the directories entered.
\<close>

theorem listing_prints_every_file:
  assumes "log_ready env c" and "smooth env c line path es" and "path \<noteq> []" and "w_opens env path"
  shows "\<exists>w'. listdir env c path es (walk_start lg) = Inr (False, w') \<and>
    (w_tty env \<longrightarrow> (\<exists>ls. text_out (flush w') = concat ls \<and> mset ls = mset (map line (visited c path es)))) \<and>
    (forked c es = 0 \<longrightarrow> text_out (flush w') = concat (map line (visited c path es))) \<and>
    (\<not> w_tty env \<and> length (concat (map line (visited c path es))) \<le> w_buffer env \<longrightarrow>
       (\<exists>ls. text_out (flush w') = concat ls \<and> mset (map line (visited c path es)) \<subseteq># mset ls)) \<and>
    (raised OUTFILE c \<longrightarrow> (\<forall>z. sig_files (deliver (signals w') z) = sig_files z + length (visited c path es) \<and>
       sig_dirs (deliver (signals w') z) = sig_dirs z + forked c es))"
proof -
  obtain w' where w': "listdir_loop env c path es (walk_start lg) = Inr (False, w')"
    "signals w' = (if raised OUTFILE c then notices c es else [])"
    "forked c es = 0 \<longrightarrow> text_out (flush w') = concat (map line (visited c path es))"
    using listing_ends [OF assms(1-3), of "walk_start lg"] by (auto simp: walk_start_def flush_def)
  have lines: "\<exists>ls. text_out (flush w') = concat ls \<and> mset ls = lines_written (w_tty env) line c path es"
    if "w_tty env \<or> length (concat (map line (visited c path es))) \<le> w_buffer env"
  proof -
    have "whole_lines env (length (concat (map line (visited c path es)))) [] [] (walk_start lg)"
      using that by (auto simp: whole_lines_def walk_start_def)
    from listing [OF assms(1-3) this] w'(1) obtain us' ls' where "unflushed w' = concat us'" "text_out w' = concat ls'"
      "mset ls' + mset us' = lines_written (w_tty env) line c path es" by auto
    then show ?thesis by (intro exI [of _ "ls' @ us'"]) (simp add: flush_def)
  qed
  have "w_tty env \<Longrightarrow> \<exists>ls. text_out (flush w') = concat ls \<and> mset ls = mset (map line (visited c path es))"
    using lines by (simp add: lines_tty)
  moreover have "\<exists>ls. text_out (flush w') = concat ls \<and> mset (map line (visited c path es)) \<subseteq># mset ls"
    if "\<not> w_tty env" "length (concat (map line (visited c path es))) \<le> w_buffer env"
    using lines that lines_buffered [of line c path es] by auto
  moreover have "sig_files (deliver (signals w') z) = sig_files z + length (visited c path es) \<and>
      sig_dirs (deliver (signals w') z) = sig_dirs z + forked c es" if "raised OUTFILE c" for z
    using that w'(2) by (simp add: deliver_counts notices_counts(1) [of c es path] notices_counts(2) [of c es])
  ultimately show ?thesis using w'(1,3) assms(4) by (intro exI [of _ w']) (simp add: listdir_def)
qed

text \<open>
  C29: Into a file or pipe a short listing repeats itself. Let everything succeed as in C28, let print_location not be
  a terminal, and let all the lines together fit into its buffer (so that it is never full).
  Then the lines of the files found before a directory are still in the buffer when listdir forks,
  so that the child writes them a second time: the output consists of whole lines, and that of a file that comes before a
  directory entered appears at least twice.
\<close>

theorem buffered_listing_duplicates:
  assumes "log_ready env c" and "smooth env c line path (pre @ File name # es)" and "path \<noteq> []" and "w_opens env path"
    and "\<not> w_tty env" and "0 < forked c es"
    and "length (concat (map line (visited c path (pre @ File name # es)))) \<le> w_buffer env"
  shows "\<exists>w' ls. listdir env c path (pre @ File name # es) (walk_start lg) = Inr (False, w') \<and>
    text_out (flush w') = concat ls \<and>
    mset ls = lines_written False line c path (pre @ File name # es) \<and>
    2 \<le> count (mset ls) (line (full_path path name))"
proof -
  have "whole_lines env (length (concat (map line (visited c path (pre @ File name # es))))) [] [] (walk_start lg)"
    using assms(5,7) by (simp add: whole_lines_def walk_start_def)
  from listing [OF assms(1-3) this] assms(5) obtain w' us ls where
    w: "listdir_loop env c path (pre @ File name # es) (walk_start lg) = Inr (False, w')"
    "unflushed w' = concat us" "text_out w' = concat ls"
    "mset ls + mset us = lines_written False line c path (pre @ File name # es)" by auto
  have "count (repeat_mset 2 {#line (full_path path name)#}) (line (full_path path name)) \<le>
      count (mset (ls @ us)) (line (full_path path name))"
    unfolding mset_append w(4) by (rule mset_subset_eq_count [OF lines_duplicated [OF assms(6)]])
  then show ?thesis
    using w assms(4) by (intro exI [of _ w'] exI [of _ "ls @ us"]) (simp add: listdir_def flush_def)
qed

text \<open>A directory with one file and one subdirectory with another, listed with \<open>-r\<close>.\<close>

definition sample_walk :: "bool \<Rightarrow> walk_env" where
  "sample_walk tty =
     \<lparr>w_tools = sample_tools 65, w_opens = (\<lambda>_. True), w_forks = (\<lambda>_. True), w_pid = (\<lambda>_. 77),
      w_interrupted = (\<lambda>_. False), w_start = \<lparr>tv_sec = 0, tv_nsec = 0\<rparr>, w_tty = tty, w_buffer = 4096, w_writable = True\<rparr>"

definition sample_tree :: "entry list" where
  "sample_tree = [File ''a'', Dir ''..'' [], Dir ''s'' [File ''b'']]"

definition recursive_command :: command_info where
  "recursive_command = zero_command\<lparr>raised_flags := [1, 0, 0, 0, 0]\<rparr>"

definition sample_line :: "string \<Rightarrow> string" where
  "sample_line p = p @ '',ASCII text,12,rw,'' @ date_text (gmtime 1580000000) @ '','' @ date_text (gmtime 86400) @ [newline]"

lemma recursive_command_flags:
  "raised RECURSIVE recursive_command" "\<not> raised OUTFILE recursive_command" "\<not> raised LOGFILE recursive_command"
  "\<not> hashing MD5_FLAG recursive_command" "\<not> hashing SHA1_FLAG recursive_command" "\<not> hashing SHA256_FLAG recursive_command"
  by (simp_all add: recursive_command_def zero_command_def raised_def hashing_def flag_numbers)

lemma sample_reports:
  assumes "plain_path p" and "length p \<le> 55"
  shows "reports (sample_walk tty) recursive_command sample_line p"
proof -
  have st: "f_stat (sample_tools 65) p = Some \<lparr>st_size = 12, st_mode = 420, st_mtime = 1580000000, st_atime = 86400\<rparr>"
    and room: "length p \<le> f_room (sample_tools 65)"
    using assms(2) by (simp_all add: sample_tools_def)
  have "show_int 12 = ''12''" by code_simp
  moreover have "access_text 420 = ''rw''" by code_simp
  ultimately show ?thesis
    using assms(2) dump_stat_answer [OF st assms(1) room sample_tools, of recursive_command]
    by (simp add: reports_def sample_walk_def print_fileinfo_def recursive_command_flags sample_line_def)
qed

lemma sample_smooth: "smooth (sample_walk tty) recursive_command sample_line ''d'' sample_tree"
proof -
  have "w_forks (sample_walk tty) p" "w_opens (sample_walk tty) p" for p by (simp_all add: sample_walk_def)
  then show ?thesis
    by (simp add: sample_tree_def sample_reports full_path_def plain_path_def MAX_FILE_NAME_def enters_def dots_def recursive_command_flags)
qed

lemma sample_visited: "visited recursive_command ''d'' sample_tree = [''d/a'', ''d/s/b'']"
  by (simp add: sample_tree_def full_path_def enters_def dots_def recursive_command_flags)

lemma sample_lines_fit: "length (concat (map sample_line [''d/a'', ''d/s/b''])) \<le> 4096"
proof -
  have "gmtime 1580000000 = \<lparr>tm_year = 120, tm_mon = 0, tm_mday = 26, tm_hour = 0, tm_min = 53, tm_sec = 20\<rparr>"
    by (simp add: gmtime_def year_loop.simps year_days_def leap_year_def month_days_def)
  moreover have "gmtime 86400 = \<lparr>tm_year = 70, tm_mon = 0, tm_mday = 2, tm_hour = 0, tm_min = 0, tm_sec = 0\<rparr>"
    by (simp add: gmtime_def year_loop.simps year_days_def leap_year_def month_days_def)
  moreover have "length (date_text \<lparr>tm_year = 120, tm_mon = 0, tm_mday = 26, tm_hour = 0, tm_min = 53, tm_sec = 20\<rparr>) = 19"
    "length (date_text \<lparr>tm_year = 70, tm_mon = 0, tm_mday = 2, tm_hour = 0, tm_min = 0, tm_sec = 0\<rparr>) = 19"
    by code_simp+
  ultimately show ?thesis by (simp add: sample_line_def)
qed

theorem listing_prints_every_file_witness:
  "\<exists>w' ls. listdir (sample_walk True) recursive_command ''d'' sample_tree (walk_start []) = Inr (False, w') \<and>
    text_out (flush w') = concat ls \<and> mset ls = {#sample_line ''d/a'', sample_line ''d/s/b''#}"
proof -
  have "log_ready (sample_walk True) recursive_command" "w_opens (sample_walk True) ''d''" "w_tty (sample_walk True)"
    by (simp_all add: log_ready_def recursive_command_flags sample_walk_def)
  then show ?thesis
    using listing_prints_every_file [of "sample_walk True" recursive_command sample_line "''d''" sample_tree "[]"] sample_smooth
    by (auto simp: sample_visited)
qed

theorem buffered_listing_duplicates_witness:
  "\<exists>w' ls. listdir (sample_walk False) recursive_command ''d'' sample_tree (walk_start []) = Inr (False, w') \<and>
    text_out (flush w') = concat ls \<and> 2 \<le> count (mset ls) (sample_line ''d/a'')"
proof -
  have "log_ready (sample_walk False) recursive_command" "w_opens (sample_walk False) ''d''" "\<not> w_tty (sample_walk False)"
    by (simp_all add: log_ready_def recursive_command_flags sample_walk_def)
  moreover have "0 < forked recursive_command (tl sample_tree)"
    by (simp add: sample_tree_def enters_def dots_def recursive_command_flags)
  moreover have tree: "[] @ File ''a'' # tl sample_tree = sample_tree" by (simp add: sample_tree_def)
  moreover have "full_path ''d'' ''a'' = ''d/a''" by (simp add: full_path_def)
  moreover have "length (concat (map sample_line (visited recursive_command ''d'' sample_tree))) \<le> w_buffer (sample_walk False)"
    unfolding sample_visited using sample_lines_fit by (simp add: sample_walk_def)
  ultimately show ?thesis
    using buffered_listing_duplicates [of "sample_walk False" recursive_command sample_line "''d''" "[]" "''a''" "tl sample_tree" "[]"]
      sample_smooth [of False]
    unfolding tree by auto
qed


lemma strtok_empty [simp]: "strtok d [] = None"
  by (simp add: strtok_def)

text \<open>The first file, and with \<open>-r\<close> the first directory entered, makes the tool send a signal.\<close>

fun signalled :: "bool \<Rightarrow> entry \<Rightarrow> bool" where
  "signalled rec (File name) \<longleftrightarrow> True"
| "signalled rec (Dir name sub) \<longleftrightarrow> rec \<and> \<not> dots name"

lemma first_signal_exits:
  assumes "raised OUTFILE c" and "cmd_logfilename c = []" and "\<not> f_log_opens (w_tools env) []"
    and "\<exists>e \<in> set es. signalled (raised RECURSIVE c) e"
  shows "\<exists>sig. listdir_loop env c path es w = Inr (True, w\<lparr>signals := signals w @ [sig]\<rparr>)"
  using assms(4)
proof (induction es)
  case (Cons e es)
  have n: "notify env c path sig name w k = Inr (True, w\<lparr>signals := signals w @ [sig]\<rparr>)" for sig name k
    using assms(1-3) by (simp add: notify_def or_exit_def write_log_def)
  show ?case
  proof (cases e)
    case (File name)
    then show ?thesis using n by (intro exI [of _ SIGUSR2]) simp
  next
    case (Dir name sub)
    show ?thesis
    proof (cases "enters c name")
      case True
      then show ?thesis using n Dir by (intro exI [of _ SIGUSR1]) (simp add: enters_def dots_def)
    next
      case False
      then have "\<exists>e \<in> set es. signalled (raised RECURSIVE c) e" using Cons.prems Dir by (auto simp: enters_def)
      from Cons.IH [OF this] show ?thesis unfolding Dir listdir_loop_skip [OF False] .
    qed
  qed
qed simp

text \<open>
  C30: With -o but without -v the tool fails at the first file or directory it reports. For any correct options with -o
  and without -v, in a command line of at most 64 characters with its spaces, and a directory that holds a file or, with -r,
  a subdirectory other than . and .., wherever in the listing: the entry for the first signal goes
  to a log file although -v was not given, its name is empty and opens nothing, and the tool ends
  with EXIT_FAILURE without having written anything to its output.
\<close>

theorem outfile_needs_log:
  assumes "\<not> f_log_opens (w_tools (m_walk env)) []"
    and "\<forall>opt \<in> set opts. option_ok opt" and "Opt_Out out \<in> set opts" and "Opt_Log \<notin> set opts"
    and "last_hash opts [] = hash_value as"
    and "argv = exe # concat (map option_words opts) @ [dir]" and "length argv \<le> 8"
    and "length (concat (map (\<lambda>a. a @ '' '') argv)) \<le> 64"
    and "m_exists env dir" and "\<not> m_regular env dir" and "w_opens (m_walk env) dir"
    and "\<exists>e \<in> set (m_tree env dir). signalled (Opt_Recursive \<in> set opts) e"
  shows "\<exists>w. forensic_main env argv = Inr (1, w) \<and> text_out w = []"
proof -
  let ?c0 = "fold option_effect opts zero_command"
  have z: "length (raised_flags zero_command) = 5" by (simp add: zero_command_def FLAG_NUMBER_def)
  have z4: "\<not> raised k zero_command" if "k < 5" for k
    using that by (simp add: raised_def zero_command_def FLAG_NUMBER_def)
  have flags: "raised k ?c0 \<longleftrightarrow> k \<in> option_flag ` set opts" if "k < 5" for k
    using options_flags [OF z that, of opts] z4 [OF that] by simp
  have "option_flag opt \<noteq> LOGFILE" if "opt \<in> set opts" for opt
    by (cases opt) (use that assms(4) in \<open>auto simp: flag_numbers\<close>)
  then have r0: "\<not> raised LOGFILE ?c0" using flags [of LOGFILE] by (auto simp: flag_numbers)
  have "OUTFILE \<in> option_flag ` set opts" using assms(3) by (force intro: image_eqI [of _ _ "Opt_Out out"])
  then have r1: "raised OUTFILE ?c0" using flags [of OUTFILE] by (simp add: flag_numbers)
  have "RECURSIVE \<in> option_flag ` set opts \<longleftrightarrow> Opt_Recursive \<in> set opts"
  proof
    assume "RECURSIVE \<in> option_flag ` set opts"
    then obtain opt where "opt \<in> set opts" "option_flag opt = RECURSIVE" by auto
    then show "Opt_Recursive \<in> set opts" by - (cases opt; auto simp: flag_numbers)
  qed (force intro: image_eqI [of _ _ Opt_Recursive])
  then have r2: "raised RECURSIVE ?c0 \<longleftrightarrow> Opt_Recursive \<in> set opts" using flags [of RECURSIVE] by (simp add: flag_numbers)
  have name: "cmd_logfilename ?c0 = []" by (simp add: options_log_name zero_command_def)
  have hash: "cmd_cryptohash ?c0 = hash_value as" by (simp add: options_values zero_command_def assms(5))
  have params: "exec_parameters argv [] = Inr (concat (map (\<lambda>a. a @ '' '') argv))"
    using assms(8) by (simp add: exec_parameters_eq MAX_FILE_NAME_def)
  have parse: "parse_flags argv 1 zero_command = Inr ?c0" unfolding assms(6) by (rule parse_all [OF assms(2)])
  have dir: "strcpy (MAX_FILE_NAME + 1) (last argv) = Inr dir" using assms(8) unfolding assms(6) by (simp add: MAX_FILE_NAME_def)
  have args: "\<not> length argv < 2" "argv ! 1 \<noteq> ''--help''"
    using assms(3) unfolding assms(6) by (cases opts; cases "hd opts"; auto)+
  define c where "c = hash_effect as (?c0\<lparr>cmd_parentPID := m_pid env\<rparr>)\<lparr>cmd_directory := dir\<rparr>"
  have c: "raised OUTFILE c" "cmd_logfilename c = []" "raised RECURSIVE c \<longleftrightarrow> Opt_Recursive \<in> set opts"
    using r1 r2 name by (simp_all add: c_def hash_effect_def raised_def)
  define e where "e = (m_walk env)\<lparr>w_tty := False, w_writable := m_out_opens env (cmd_outfile ?c0)\<rparr>"
  have e: "\<not> f_log_opens (w_tools e) []" "w_opens e dir" using assms(1,11) by (simp_all add: e_def)
  obtain sig where stop: "listdir_loop e c dir (m_tree env dir) (walk_start []) =
      Inr (True, (walk_start [])\<lparr>signals := signals (walk_start []) @ [sig]\<rparr>)"
    using first_signal_exits [OF c(1,2) e(1), of "m_tree env dir" dir "walk_start []"] assms(12) c(3) by auto
  have log: "open_log env p (?c0\<lparr>cmd_parentPID := m_pid env\<rparr>) = Inr (?c0\<lparr>cmd_parentPID := m_pid env\<rparr>, [])" for p
    using r0 by (simp add: open_log_def raised_def)
  have out: "raised OUTFILE (?c0\<lparr>cmd_parentPID := m_pid env\<rparr>)" using r1 by (simp add: raised_def)
  have loop: "hash_loop (strtok '','' (cmd_cryptohash ?c0)) (?c0\<lparr>cmd_parentPID := m_pid env\<rparr>) =
      Inr (hash_effect as (?c0\<lparr>cmd_parentPID := m_pid env\<rparr>))"
    using hash hash_loop_names by simp
  have "forensic_main env argv = Inr (1, flush ((walk_start [])\<lparr>signals := signals (walk_start []) @ [sig]\<rparr>))"
    using assms(7,9,10) args e(2) stop
    by (simp add: forensic_main_def params parse log loop dir out listdir_def Let_def del: One_nat_def add_Suc_right
        flip: c_def e_def)
  then show ?thesis by (simp add: walk_start_def flush_def)
qed

theorem outfile_needs_log_witness:
  "\<exists>w. forensic_main
      \<lparr>m_walk = sample_walk True, m_pid = 76, m_logfilename = None, m_out_opens = (\<lambda>_. True), m_exists = (\<lambda>_. True),
       m_regular = (\<lambda>_. False), m_tree = (\<lambda>_. rev sample_tree)\<rparr>
      [''forensic'', ''-o'', ''out.txt'', ''-h'', ''md5'', ''d''] = Inr (1, w) \<and> text_out w = []"
  by (rule outfile_needs_log [of _ "[Opt_Out ''out.txt'', Opt_Hash ''md5'']" "''out.txt''" "[MD5]" _ "''forensic''" "''d''"])
    (simp_all add: sample_walk_def sample_tools_def sample_tree_def MAX_FILE_NAME_def)

end
