(* ===== verification/Spec2Isabelle.thy ===== *)
theory Spec2Isabelle
  imports End_To_End Creation_Race Replies Forensic_Walk
begin

text \<open>
  A development beside the two programs of this repository. The main part is
  \<open>src/project2\<close>, a home-banking server (\<open>server\<close>) and its client (\<open>user\<close>), two C programs
  that exchange fixed-size messages over named pipes. \<open>src/project1\<close>, the \<open>forensic\<close> tool,
  is treated in the theories whose names start with \<open>Forensic\<close>.

  \<^bold>\<open>How the system works.\<close> The client builds a request from its command line
  (\<open>get_request\<close>), writes its 70 bytes into \<open>/tmp/secure_srv\<close>, waits for the FIFO
  \<open>/tmp/secure_<pid>\<close> and prints the reply it finds there. The main thread of the server
  reads requests, puts them into a linked queue under the mutex \<open>queue_mut\<close> and signals a
  condition variable; up to 99 office threads (\<open>thread_work\<close>) wait on it, take a request,
  process it (\<open>acknowledge_request\<close>), create the client's FIFO and answer. A shutdown
  request sets a flag, wakes all offices and joins them.

  \<^bold>\<open>Theories, in the order of the imports.\<close>
  \<^item> \<open>Bank_Prelude\<close>: results that may stop (\<open>res\<close>: an exit status or one kind of undefined
    behaviour), words, sums over arrays, runs of labelled steps, reachability, and the
    contracts \<open>invariant_system\<close>, \<open>accounting_system\<close>, \<open>guarded_invariant\<close> and
    \<open>transition_invariant\<close> the components are proved against.
  \<^item> \<open>C_Library\<close>: \<open>strcpy\<close>, \<open>strcat\<close>, \<open>strtok\<close>, \<open>fgets\<close>, \<open>atoi\<close> and the conversions of
    \<open>printf\<close>, with the round trips between printing and parsing.
  \<^item> \<open>Bank_Types\<close>: \<open>constants.h\<close> and \<open>types.h\<close>. Enumerations keep the raw values a received
    word can hold, a union is its widest view with the others as conversions, integers are
    32-bit words. \<open>Bank_Utils\<close>: the macros of \<open>utils.h\<close> and \<open>rand_string\<close>. \<open>Log_File\<close>: every
    line of \<open>log.c\<close>.
  \<^item> \<open>Request_Queue\<close>: \<open>queue.c\<close> on a heap of nodes, refined to lists and interpreted as a
    first-in-first-out queue (\<open>rq\<close>).
  \<^item> \<open>Accounts\<close>: the global array, its invariant and the ledger it represents, balance and
    transfer; what \<open>types.h\<close> documents for a transfer (\<open>documented_transfer\<close>) and where the code
    departs from it (\<open>transfer_departure\<close>). \<open>Transfers\<close>: the transfer access by access (\<open>transfer_exec\<close>), run by several
    threads at once.
  \<^item> \<open>Credentials\<close>: hashing, validation and account creation; the shell that runs \<open>sha256sum\<close>
    is a parameter (\<open>shell\<close>), with \<open>sh_spare\<close>, the unused bytes behind the array \<open>hash\<close>. The line of
    \<open>sha256sum\<close> overruns that array by one byte, so that without one the server cannot even
    create the administrator's account (\<open>hash_buffer_overflow\<close>); what is proved of logins,
    creations and served requests therefore assumes \<open>sha256_shell\<close>: that line and one byte. \<open>Requests\<close>: \<open>validate_request\<close> and \<open>acknowledge_request\<close> with their
    specification \<open>spec_request\<close> on ledgers. \<open>Bank_Properties\<close>: their properties.
    \<open>Processing\<close>: \<open>acknowledge_request\<close> access by access (\<open>process_exec\<close>), proved to be the
    whole function when no other office comes in between.
  \<^item> \<open>Messages\<close>: the packed structures of requests and replies as bytes, member after member
    (\<open>enc_request\<close>, \<open>enc_reply\<close>), and the reads from a pipe, whole or torn. \<open>Fifos\<close>: paths
    and creation of the named pipes.
  \<^item> \<open>Offices\<close>: the machine of main thread and offices, one labelled step per statement that
    other threads can observe (\<open>office_exec\<close> for \<open>thread_work\<close>, with one access to the
    accounts per step while it processes a request, \<open>main_exec\<close> for \<open>main\<close>, and the
    arrival of requests, the choice of the thread a signal wakes and spurious wake-ups as
    events), \<open>start_server\<close> for the start. \<open>Office_Locking\<close>, \<open>Dispatch\<close>, \<open>Service\<close>:
    invariants of the mutex, of the way of requests through the queue, and of the replies,
    each an interpretation of a contract of the prelude. \<open>Serial\<close>: the runs in which
    requests are processed one at a time, as those of a server with one office, and the
    specification they follow. \<open>Stalls\<close>: the runs in which the protocol fails. \<open>Closing\<close>:
    the shutdown of an idle server with a bound on its steps. \<open>Server_Properties\<close>: the
    properties of the machine. \<open>Races\<close>, \<open>Creation_Race\<close>: interleavings of two offices'
    accesses as runs of the machine, for transfers and for creations. \<open>Robustness\<close>,
    \<open>Replies\<close>: what holds under every interleaving, of the accounts and of the replies.
  \<^item> \<open>Client\<close>: \<open>user.c\<close> from the command line to the printed reply. \<open>End_To_End\<close>: what
    server and client need of each other for the property below.

  \<^bold>\<open>The forensic tool.\<close> \<open>forensic\<close> reads its options, lists a file or a directory and prints one
  line of fields per file; with \<open>-r\<close> it forks a process for every subdirectory.
  \<^item> \<open>Forensic_Options\<close>: \<open>utils.h\<close>, the argument loops of \<open>main\<close> (\<open>parse_flags\<close>, \<open>hash_loop\<close>) and the
    copy of the command line (\<open>exec_parameters\<close>); they are proved against the meaning of a list
    of options (\<open>option_effect\<close>, \<open>hash_effect\<close>).
  \<^item> \<open>Forensic_Report\<close>: \<open>dump_stat\<close> with the shell commands it runs, \<open>print_fileinfo\<close>, \<open>write_log\<close>,
    \<open>signal_handler\<close>, and the calendar behind \<open>gmtime\<close>, proved against the number of days before
    a date. What \<open>file\<close> and the hash tools print is a parameter, as is \<open>f_room\<close>, the bytes that
    happen to lie behind the arrays of the commands: the C standard promises none, and
    \<open>dump_stat_overflows\<close> shows that the code then writes out of bounds for every file; the other
    properties assume enough room.
  \<^item> \<open>Forensic_Walk\<close>: \<open>listdir\<close> and \<open>main\<close> (\<open>forensic_main\<close>) on a tree of entries. A process is its
    buffered and its written output (\<open>walk\<close>): a buffer of \<open>w_buffer\<close> characters that is written out
    when it is full, and at the end of a line on a terminal. A fork copies the buffer, and the child runs when
    it is forked, one of the possible orders, so the statements about several processes are about the multiset of the
    lines written, and only for a terminal or lines that fit into the buffer together.

  \<^bold>\<open>What the theorems show.\<close> Request processing refines a specification on ledgers, and so
  does every run of the server in which requests are processed one at a time; there money
  comes from account creations only. When offices process requests at the same time that
  is lost: two transfers from one account can both be accepted and create money or make
  the balance wrap around, and two creations of one account can both be accepted and lock
  their owners out, in runs of the server that are constructed from the queue to the
  replies. Under every interleaving well-formed requests do not crash a server whose hash
  buffers have room, open accounts stay open, and each reply goes to the
  client that asked, with a code its operation can give; until shutdown the mutex excludes, and requests are taken in the order
  they arrived and answered once each. The shutdown of an idle
  server ends; messages and command lines survive their round trips; what a client prints
  is the server's ledger. Others state faults the code has, each with a run or an input that
  shows it: the deadlocks of the protocol, the id one past the array, the buffers that are too
  short. For \<open>forensic\<close>: the options are
  understood in every order, a report has the fields the options ask for, a listing prints every
  file once on a terminal, but reports still in a buffer at a fork are printed again by the child,
  and \<open>-o\<close> without \<open>-v\<close> fails.

  \<^bold>\<open>Bounds and fuel.\<close> Loops are structural or have a measure; the client's wait for its FIFO
  is a \<open>partial_function\<close> whose value \<open>None\<close> is the endless wait. \<open>drain\<close> has fuel for the
  number of reads, enough when it is more than the number of whole requests in the pipe. Processing a
  request takes at most 13 steps (4 for the validation, 9 for the longest operation, the
  transfer), \<open>process_alone\<close>; with the loop around it an office serves a request in 25. A run of
  the machine is a list of events; the shutdown property bounds its length by a measure.

  \<^bold>\<open>Not modelled.\<close> The messages the server prints on its console; blocking in \<open>open\<close> of a
  FIFO; the static buffer of \<open>atomicPrintf\<close> shared without a lock; a character array that a
  malicious client sends without a terminator. A field of an
  account that is a string is read and written in one access, the calls of \<open>rand\<close> for one salt
  are one step, and so is the main thread's validation of a shutdown request, which reads the
  administrator's account only; the memory model is sequentially consistent. Of \<open>forensic\<close>: the function
  \<open>sigint_handler\<close>, which is never installed, and the installation of the other handler, the
  usage and console messages, times before 1970, signals the system merges, the rounding of
  the elapsed time in floating point, and fields longer than the output buffer.
\<close>

section \<open>Client and server together\<close>

text \<open>
  C16: From the keyboard to the ledger and back. A user starts the client, with a process
  id of 0 to 99999, with a well-formed balance or transfer command, while an idle office of a server with its bank in order finds the request the client
  wrote at the head of the queue; the client's log, the server's FIFO and the client's own can be opened, every call of the server
  on a FIFO succeeds, and the shell prints sha256sum's line with an unused byte behind the array hash (C1). After the office's next statements, 25 at most, its reply is in the client's FIFO, and the client
  prints, when the specification accepts the request, the operation's message with the balance that the
  user's account now has in the server's ledger. With a wrong password it prints that instead, and for every
  RC_NO_FUNDS that the final balance would be too low: for too little money, for an amount of 0 and also for a destination that
  would pass MAX_BALANCE, where types.h has RC_TOO_HIGH (C2).
\<close>

theorem client_sees_the_servers_ledger:
  fixes s :: server
  assumes "is_office i s" "opc (offices s i) = O_Top" "crashed s = None" "\<not> shutdown s" "queue_mut s = None"
    and "queue_inv (request_queue s)"
    and "queue_list (request_queue s) = dec_request (enc_request (c_fill1 c) (c_fill2 c) r) # rs"
    and "sha256_shell (env_sh env) digest" "bank_ok (bank s)"
    and "env_fs env = \<lparr>creatable = \<lambda>_. True, removable = \<lambda>_. True, openable = \<lambda>_. True\<rparr>"
    and "r = command_request (c_pid c) account password delay op (c_request c)" "request_ok r"
    and "operands_ok op" "about_balance op" "int account \<le> INT_MAX" "int delay \<le> INT_MAX"
    and "c_string MAX_PASSWORD_LEN password" "wf_request (c_request c)"
    and "20 \<le> length (c_fill1 c)" "20 \<le> length (c_fill2 c)" "length (c_reply c) = 20"
    and "0 \<le> c_pid c" "c_pid c < 100000" "c_log c \<and> c_server c" "c_exists c k" "c_openable c"
  shows "\<exists>n t rep. n \<le> 25 \<and> run env (replicate n (Office i)) s = Some t \<and> sent t = sent s @ [(of_int (c_pid c), rep)] \<and>
    (\<exists>res code. user_main (c\<lparr>c_pipe := enc_reply rep\<rparr>) (command_line exe account password delay op) lg =
          Some (Inr res) \<and>
      (code, ledger (bank t)) = spec_request (accepts digest (bank s)) r (ledger (bank s)) \<and>
      (code = RC_OK \<longrightarrow> (\<exists>x. ledger (bank t) account = Some x \<and> printed res = success_text op x)) \<and>
      (code = RC_LOGIN_FAIL \<longrightarrow> printed res = ''Invalid account id / password.'' @ [newline]) \<and>
      (code = RC_NO_FUNDS \<longrightarrow> printed res = ''The final balance would be too low.'' @ [newline]))"
proof -
  note wf = command_request_wf [OF assms(13,17,18), of "c_pid c" account delay]
  have dec: "dec_request (enc_request (c_fill1 c) (c_fill2 c) r) = r"
    using dec_enc_request [OF wf(1,2) assms(19,20), of "[]"] assms(11) by simp
  have pid: "0 \<le> sint (hdr_pid (req_hdr r))" "sint (hdr_pid (req_hdr r)) < 100000"
    unfolding assms(11) using assms(22,23) by (simp_all add: client_pid_word)
  from serve_run [OF assms(1-6) assms(7) [unfolded dec] assms(8,9,12) pid assms(10)] obtain n t rep where
    n: "n \<le> 25" and t: "run env (replicate n (Office i)) s = Some t" "sent t = sent s @ [(of_int (c_pid c), rep)]"
      "(rep_code rep, ledger (bank t)) = spec_request (accepts digest (bank s)) r (ledger (bank s))"
      "reply_matches r rep (bank t)"
    unfolding assms(11) by auto
  have named: "named_code (rep_code rep)"
    using spec_code_named [OF assms(12), of "accepts digest (bank s)" "ledger (bank s)"] t(3)
    by (metis fst_conv)
  have op: "op_ok (rep_type rep)" using t(4) wf(2) unfolding assms(11) by (simp add: reply_matches_def)
  let ?c = "c\<lparr>c_pipe := enc_reply rep\<rparr>"
  have g: "get_request (c_pid ?c) (command_line exe account password delay op) (c_request ?c) = Inr r"
    using get_request_command_line [OF assms(13,15,16)] assms(11,17) by (simp add: c_string_def)
  have l: "length (command_line exe account password delay op) = 6" by (simp add: command_line_def)
  have a: "account < 2 ^ 32" using assms(15) by simp
  have "\<exists>res. user_main ?c (command_line exe account password delay op) lg = Some (Inr res) \<and>
      printed res = print_reply rep"
    using client_prints [OF l g, of k rep "[]" lg] op named assms(21-26) by (auto simp: message_sizes)
  then show ?thesis
    using n t prints_success [OF assms(14) t(4) [unfolded assms(11)] _ a] prints_refusal by metis
qed

theorem client_sees_the_servers_ledger_witness:
  "\<exists>s n t rep res. run sample_env (replicate n (Office 1)) s = Some t \<and> reachable sample_env s \<and>
    sent t = sent s @ [(4242, rep)] \<and>
    user_main (sample_client (Some 3) (enc_reply rep)) (command_line ''user'' 1 ''userpass1'' 5 (Check_Balance [])) [] =
      Some (Inr res) \<and>
    printed res = ''YOUR BALANCE IS '' @ dec 500 @ [newline]"
proof -
  let ?c = "sample_client (Some 3) []"
  obtain s where s: "run sample_env (Office 1 # arrivals [balance_request 1, balance_request 2]) sample_start = Some s"
    "opc (offices s 1) = O_Top" "is_office 1 s" "crashed s = None" "\<not> shutdown s" "queue_mut s = None"
    "queue_inv (request_queue s)" "queue_list (request_queue s) = [balance_request 1, balance_request 2]"
    "accounts (bank s) = accounts sample_bank"
    using waiting_run by blast
  have sh: "sha256_shell (env_sh sample_env) sample_digest"
    "env_fs sample_env = \<lparr>creatable = \<lambda>_. True, removable = \<lambda>_. True, openable = \<lambda>_. True\<rparr>"
    using sample_shell by (simp_all add: sample_env_def)
  have b: "bank_ok (bank s)" using bank_ok_accounts [OF s(9)] sample_bank(1) by simp
  have d: "dec_request (enc_request (c_fill1 ?c) (c_fill2 ?c) (balance_request 1)) = balance_request 1"
    using dec_enc_request [OF sample_messages_ok(1,2), of "c_fill1 ?c" "c_fill2 ?c" 1 "[]"] by simp
  note spec = sample_balance_spec [OF s(9)]
  have c: "c_string MAX_PASSWORD_LEN ''userpass1''" by (simp add: c_string_def MAX_PASSWORD_LEN_def)
  have "\<exists>n t rep. n \<le> 25 \<and> run sample_env (replicate n (Office 1)) s = Some t \<and> sent t = sent s @ [(of_int (c_pid ?c), rep)] \<and>
    (\<exists>res code. user_main (?c\<lparr>c_pipe := enc_reply rep\<rparr>) (command_line ''user'' 1 ''userpass1'' 5 (Check_Balance [])) [] =
        Some (Inr res) \<and>
      (code, ledger (bank t)) = spec_request (accepts sample_digest (bank s)) (balance_request 1) (ledger (bank s)) \<and>
      (code = RC_OK \<longrightarrow> (\<exists>x. ledger (bank t) 1 = Some x \<and> printed res = success_text (Check_Balance []) x)) \<and>
      (code = RC_LOGIN_FAIL \<longrightarrow> printed res = ''Invalid account id / password.'' @ [newline]) \<and>
      (code = RC_NO_FUNDS \<longrightarrow> printed res = ''The final balance would be too low.'' @ [newline]))"
    by (rule client_sees_the_servers_ledger [OF s(3,2,4-7) _ sh(1) b sh(2) _ balance_request_ok(1) _ _ _ _ c,
        where c = ?c and k = 3 and rs = "[balance_request 2]"])
      (simp_all add: s(8) d [simplified] sample_command [simplified] about_balance_def sample_balance_wf)
  then obtain n t rep res code where t: "run sample_env (replicate n (Office 1)) s = Some t" "sent t = sent s @ [(4242, rep)]"
    "user_main (?c\<lparr>c_pipe := enc_reply rep\<rparr>) (command_line ''user'' 1 ''userpass1'' 5 (Check_Balance [])) [] = Some (Inr res)"
    "(code, ledger (bank t)) = (RC_OK, ledger (bank s))"
    "code = RC_OK \<longrightarrow> (\<exists>x. ledger (bank t) 1 = Some x \<and> printed res = success_text (Check_Balance []) x)"
    unfolding spec(1) by auto
  have "?c\<lparr>c_pipe := enc_reply rep\<rparr> = sample_client (Some 3) (enc_reply rep)" by (simp add: sample_client_def)
  moreover have "printed res = ''YOUR BALANCE IS '' @ dec 500 @ [newline]" using t(4,5) spec(2) by simp
  ultimately show ?thesis
    using t(1-3) run_reachable [OF s(1) sample_start_reachable] by (intro exI conjI) auto
qed

end
